(* ===== verification/Prelude.thy ===== *)
theory Prelude
  imports Complex_Main "HOL-Library.AList" "HOL-Library.Sublist" "HOL-Library.List_Lexorder"
    "HOL-Library.Char_ord"
begin

text \<open>
  What every component theory shares.  A Python \<open>dict\<close> is an association list with
  distinct keys in insertion order: \<^const>\<open>AList.update\<close> is \<open>d[k] = v\<close> (in place, or
  appended at the end), \<^const>\<open>AList.delete\<close> is \<open>d.pop(k, None)\<close> and \<^const>\<open>map_of\<close> is
  \<open>d.get(k)\<close>.  Strings are \<^typ>\<open>string\<close>, Python integers are \<^typ>\<open>int\<close>, \<open>datetime\<close>
  values and \<open>timedelta\<close>s are integers counting microseconds, and \<open>time.time()\<close> readings
  are rationals.  A raised exception is the \<^const>\<open>Inl\<close> side of a sum.
\<close>

named_theorems dict_simps \<open>lookups after dictionary operations\<close>

type_synonym ('k, 'v) dict = "('k \<times> 'v) list"

abbreviation dget :: "('k, 'v) dict \<Rightarrow> 'k \<Rightarrow> 'v option" where
  "dget d k \<equiv> map_of d k"

abbreviation dset :: "'k \<Rightarrow> 'v \<Rightarrow> ('k, 'v) dict \<Rightarrow> ('k, 'v) dict" where
  "dset k v d \<equiv> AList.update k v d"

abbreviation dpop :: "'k \<Rightarrow> ('k, 'v) dict \<Rightarrow> ('k, 'v) dict" where
  "dpop k d \<equiv> AList.delete k d"

abbreviation dkeys :: "('k, 'v) dict \<Rightarrow> 'k list" where
  "dkeys d \<equiv> map fst d"

abbreviation dict_ok :: "('k, 'v) dict \<Rightarrow> bool" where
  "dict_ok d \<equiv> distinct (map fst d)"

text \<open>\<open>d.update(other)\<close>, which is also \<open>{**d, **other}\<close>.\<close>

fun dupdate :: "('k, 'v) dict \<Rightarrow> ('k, 'v) dict \<Rightarrow> ('k, 'v) dict" where
  "dupdate d [] = d"
| "dupdate d ((k, v) # kvs) = dupdate (dset k v d) kvs"

text \<open>\<open>d.setdefault(k, v)\<close> as the new dictionary.\<close>

definition dsetdefault :: "'k \<Rightarrow> 'v \<Rightarrow> ('k, 'v) dict \<Rightarrow> ('k, 'v) dict" where
  "dsetdefault k v d = (case dget d k of None \<Rightarrow> dset k v d | Some _ \<Rightarrow> d)"

lemma dget_dset [simp, dict_simps]: "dget (dset k v d) j = (if j = k then Some v else dget d j)"
  by (simp add: update_conv')

lemma dget_dpop [simp, dict_simps]: "dget (dpop k d) j = (if j = k then None else dget d j)"
  by (simp add: delete_conv')

lemma dget_dsetdefault [simp, dict_simps]:
  "dget (dsetdefault k v d) j =
     (if j = k then (case dget d k of None \<Rightarrow> Some v | Some w \<Rightarrow> Some w) else dget d j)"
  by (simp add: dsetdefault_def split: option.split)

lemma dict_ok_dset [simp, intro]: "dict_ok d \<Longrightarrow> dict_ok (dset k v d)"
  by (rule distinct_update)

lemma dict_ok_dpop [simp, intro]: "dict_ok d \<Longrightarrow> dict_ok (dpop k d)"
  by (rule distinct_delete)

lemma dict_ok_dsetdefault [simp, intro]: "dict_ok d \<Longrightarrow> dict_ok (dsetdefault k v d)"
  by (auto simp: dsetdefault_def split: option.split)

lemma dict_ok_dupdate [simp, intro]: "dict_ok d \<Longrightarrow> dict_ok (dupdate d kvs)"
  by (induction d kvs rule: dupdate.induct) auto

lemma set_dkeys_dset [simp]: "set (dkeys (dset k v d)) = insert k (set (dkeys d))"
  by (simp add: dom_update)

lemma set_dkeys_dpop [simp]: "set (dkeys (dpop k d)) = set (dkeys d) - {k}"
  by (simp add: delete_keys)

lemma fst_image_dset [simp]: "fst ` set (dset k v d) = insert k (fst ` set d)"
  using set_dkeys_dset [of k v d] by simp

lemma fst_image_dpop [simp]: "fst ` set (dpop k d) = fst ` set d - {k}"
  using set_dkeys_dpop [of k d] by simp

lemma set_dset_subset: "set (dset k v d) \<subseteq> insert (k, v) (set d)"
  by (induction d) auto

lemma dset_memD: "x \<in> set (dset k v d) \<Longrightarrow> x = (k, v) \<or> x \<in> set d"
  using set_dset_subset [of k v d] by blast

lemma dget_dupdate [dict_simps]:
  "dget (dupdate d kvs) j = (case dget (rev kvs) j of None \<Rightarrow> dget d j | Some v \<Rightarrow> Some v)"
proof (induction d kvs rule: dupdate.induct)
  case (1 d)
  then show ?case by simp
next
  case (2 d k v kvs)
  then show ?case by (auto simp: map_add_def split: option.split)
qed

lemma map_of_rev_distinct: "dict_ok kvs \<Longrightarrow> dget (rev kvs) j = dget kvs j"
proof -
  assume ok: "dict_ok kvs"
  then have ok': "dict_ok (rev kvs)"
    by (simp add: rev_map [symmetric])
  have "dget (rev kvs) j = Some v \<longleftrightarrow> dget kvs j = Some v" for v
    using map_of_eq_Some_iff [OF ok, of j v] map_of_eq_Some_iff [OF ok', of j v] by simp
  then show ?thesis
    by (metis option.exhaust)
qed

lemma dget_dupdate_ok:
  "dict_ok kvs \<Longrightarrow>
     dget (dupdate d kvs) j = (case dget kvs j of None \<Rightarrow> dget d j | Some v \<Rightarrow> Some v)"
  by (simp add: dget_dupdate map_of_rev_distinct)

lemma dget_Some_in_keys: "dget d k = Some v \<Longrightarrow> k \<in> set (dkeys d)"
  by (metis domI dom_map_of_conv_image_fst image_set)

lemma dget_None_iff: "dget d k = None \<longleftrightarrow> k \<notin> set (dkeys d)"
  by (simp add: map_of_eq_None_iff)

lemma dget_iff_mem: "dict_ok d \<Longrightarrow> dget d k = Some v \<longleftrightarrow> (k, v) \<in> set d"
  by (rule map_of_eq_Some_iff)

lemma dget_in_set: "dget d k = Some v \<Longrightarrow> (k, v) \<in> set d"
  by (rule map_of_SomeD)

text \<open>\<open>deque.remove(x)\<close> is \<^const>\<open>remove1\<close>; it raises \<open>ValueError\<close> for a missing element, which the
  callers either rule out or suppress.\<close>

lemma subseq_remove1 [intro]: "subseq xs ys \<Longrightarrow> subseq (remove1 x xs) ys"
proof -
  have "subseq (remove1 x xs) xs"
    by (induction xs) auto
  then show "subseq xs ys \<Longrightarrow> subseq (remove1 x xs) ys"
    by (rule subseq_order.trans)
qed

lemma subseq_mem: "subseq xs ys \<Longrightarrow> x \<in> set xs \<Longrightarrow> x \<in> set ys"
  by (erule list_emb_set) auto

subsection \<open>Reachable states and invariants\<close>

inductive reach :: "('s \<Rightarrow> bool) \<Rightarrow> ('s \<Rightarrow> 's \<Rightarrow> bool) \<Rightarrow> 's \<Rightarrow> bool"
  for init :: "'s \<Rightarrow> bool" and step :: "'s \<Rightarrow> 's \<Rightarrow> bool"
where
  reach_init: "init s \<Longrightarrow> reach init step s"
| reach_step: "reach init step s \<Longrightarrow> step s t \<Longrightarrow> reach init step t"

text \<open>What a property of every reachable state needs: it holds initially and every step keeps it.\<close>

locale inductive_invariant =
  fixes init :: "'s \<Rightarrow> bool" and step :: "'s \<Rightarrow> 's \<Rightarrow> bool" and inv :: "'s \<Rightarrow> bool"
  assumes inv_init: "init s \<Longrightarrow> inv s"
    and inv_step: "inv s \<Longrightarrow> step s t \<Longrightarrow> inv t"
begin

lemma holds: "reach init step s \<Longrightarrow> inv s"
  by (induction rule: reach.induct) (auto intro: inv_init inv_step)

end

text \<open>An invariant that is inductive only relative to another one.\<close>

locale relative_invariant = base: inductive_invariant init step aux
  for init :: "'s \<Rightarrow> bool" and step :: "'s \<Rightarrow> 's \<Rightarrow> bool" and aux :: "'s \<Rightarrow> bool" +
  fixes rel :: "'s \<Rightarrow> bool"
  assumes rel_init: "init s \<Longrightarrow> rel s"
    and rel_step: "aux s \<Longrightarrow> rel s \<Longrightarrow> step s t \<Longrightarrow> rel t"

sublocale relative_invariant \<subseteq> both: inductive_invariant init step "\<lambda>s. aux s \<and> rel s"
  by unfold_locales (auto intro: base.inv_init base.inv_step rel_init rel_step)

text \<open>Lookups stay lookups: the proofs here read dictionaries with \<^const>\<open>map_of\<close> throughout.\<close>

declare map_of_eq_Some_iff [simp del]

end
