(* ===== verification/Errors.thy ===== *)
theory Errors
  imports Prelude
begin

text \<open>
  The exceptions of \<open>funduq/errors.py\<close>, \<open>funduq/repo.py\<close> and \<open>funduq/identity.py\<close>, and the Python
  and database errors that can leave a modelled operation, as one datatype.  The human-readable
  message texts are left out; the machine-readable parts (\<open>reason\<close>, \<open>status\<close>, \<open>refusal\<close>) are kept
  where a caller can branch on them.
\<close>

datatype funduq_error =
    AgentNotFound
  | LlmProviderNotFound
  | LlmOfferingInUse string
  | AgentInUse string
  | InvalidRegistration
  | KyokRejected int
  | RunNotFound
  | InvalidRunInput
  | ProviderFingerprintTaken
  | RunRowMissing
  | ThreadNotFound
  | ThreadOwnershipMismatch
  | ThreadMembershipRequired
  | ThreadQueueFull
  | InvalidDelegation
  | InvalidResolution
  | InvalidActorChain
  | InvalidChain
  | WrongFunduq
  | IntegrityError
  | ValueError
  | KeyError
  | TypeError
  | RuntimeError
  | LookupError
  | AttributeError
  | UnicodeDecodeError

type_synonym 'a result = "funduq_error + 'a"

text \<open>\<open>bindR r f\<close> goes on with the value of \<open>r\<close>, or leaves with its exception.\<close>

fun bindR :: "'a result \<Rightarrow> ('a \<Rightarrow> 'b result) \<Rightarrow> 'b result" where
  "bindR (Inl e) f = Inl e"
| "bindR (Inr x) f = f x"

lemma bindR_Inr_iff [simp]: "bindR r f = Inr y \<longleftrightarrow> (\<exists>x. r = Inr x \<and> f x = Inr y)"
  by (cases r) auto

lemma bindR_Inl_iff: "bindR r f = Inl e \<longleftrightarrow> r = Inl e \<or> (\<exists>x. r = Inr x \<and> f x = Inl e)"
  by (cases r) auto

end
