(* ===== verification/PyVal.thy ===== *)
theory PyVal
  imports Errors
begin

text \<open>
  The JSON-shaped Python values that cross the program as events, run inputs and metadata, with
  the operations the source uses on them: \<open>x.get(k)\<close>, \<open>x[k]\<close>, \<open>{**x, k: v}\<close>, truth value, \<open>+\<close>.
  Numbers are integers; a float would travel through every modelled operation unread.  Equality of
  values is structural, so Python's \<open>1 == True\<close> is not modelled.
\<close>

datatype pyval =
    PNone
  | PBool bool
  | PInt int
  | PStr string
  | PList "pyval list"
  | PDict "(string \<times> pyval) list"

text \<open>\<open>bool(x)\<close>\<close>

fun truthy :: "pyval \<Rightarrow> bool" where
  "truthy PNone = False"
| "truthy (PBool b) = b"
| "truthy (PInt n) = (n \<noteq> 0)"
| "truthy (PStr s) = (s \<noteq> [])"
| "truthy (PList xs) = (xs \<noteq> [])"
| "truthy (PDict kvs) = (kvs \<noteq> [])"

fun is_str :: "pyval \<Rightarrow> bool" where
  "is_str (PStr s) = True"
| "is_str _ = False"

fun is_dict :: "pyval \<Rightarrow> bool" where
  "is_dict (PDict kvs) = True"
| "is_dict _ = False"

fun items_of :: "pyval \<Rightarrow> (string \<times> pyval) list" where
  "items_of (PDict kvs) = kvs"
| "items_of _ = []"

text \<open>\<open>x.get(k, default)\<close> on a dictionary; \<open>pget\<close> is \<open>x.get(k)\<close>.  Both are only called where the
  source calls \<open>.get\<close> on a dictionary.\<close>

definition pget_or :: "pyval \<Rightarrow> string \<Rightarrow> pyval \<Rightarrow> pyval" where
  "pget_or v k d = (case dget (items_of v) k of None \<Rightarrow> d | Some x \<Rightarrow> x)"

definition pget :: "pyval \<Rightarrow> string \<Rightarrow> pyval" where
  "pget v k = pget_or v k PNone"

text \<open>\<open>x[k]\<close> with a string \<open>k\<close>: only a dictionary takes one.\<close>

fun pindex :: "pyval \<Rightarrow> string \<Rightarrow> pyval result" where
  "pindex (PDict kvs) k = (case dget kvs k of None \<Rightarrow> Inl KeyError | Some x \<Rightarrow> Inr x)"
| "pindex _ k = Inl TypeError"

text \<open>\<open>{**x, k: v}\<close>\<close>

fun pset :: "string \<Rightarrow> pyval \<Rightarrow> pyval \<Rightarrow> pyval" where
  "pset k v (PDict kvs) = PDict (dset k v kvs)"
| "pset k v x = x"

text \<open>\<open>a or b\<close>\<close>

definition por :: "pyval \<Rightarrow> pyval \<Rightarrow> pyval" where
  "por a b = (if truthy a then a else b)"

text \<open>\<open>a += b\<close>: a list takes any iterable on its right; \<open>bool\<close>s count as numbers.\<close>

fun num_of :: "pyval \<Rightarrow> int option" where
  "num_of (PInt n) = Some n"
| "num_of (PBool b) = Some (if b then 1 else 0)"
| "num_of _ = None"

fun padd :: "pyval \<Rightarrow> pyval \<Rightarrow> pyval result" where
  "padd (PStr a) (PStr b) = Inr (PStr (a @ b))"
| "padd (PList a) (PList b) = Inr (PList (a @ b))"
| "padd (PList a) (PStr b) = Inr (PList (a @ map (\<lambda>c. PStr [c]) b))"
| "padd (PList a) (PDict b) = Inr (PList (a @ map (\<lambda>x. PStr (fst x)) b))"
| "padd a b = (case (num_of a, num_of b) of (Some m, Some n) \<Rightarrow> Inr (PInt (m + n)) | _ \<Rightarrow> Inl TypeError)"

text \<open>A list or a dictionary cannot be a dictionary key: looking one up raises \<open>TypeError\<close>.\<close>

fun hashable :: "pyval \<Rightarrow> bool" where
  "hashable (PList _) = False"
| "hashable (PDict _) = False"
| "hashable _ = True"

lemma pget_pset [simp]:
  "is_dict x \<Longrightarrow> pget (pset k v x) j = (if j = k then v else pget x j)"
  by (cases x) (auto simp: pget_def pget_or_def)

lemma pget_or_pset [simp]:
  "is_dict x \<Longrightarrow> pget_or (pset k v x) j d = (if j = k then v else pget_or x j d)"
  by (cases x) (auto simp: pget_or_def)

lemma is_dict_pset [simp]: "is_dict (pset k v x) = is_dict x"
  by (cases x) auto

lemma pindex_Inr_iff: "pindex v k = Inr x \<longleftrightarrow> dget (items_of v) k = Some x"
  by (cases v) (auto split: option.splits)

end
