(* ===== verification/LiveRosters.thy ===== *)
theory LiveRosters
  imports Errors
begin

text \<open>
  \<open>funduq/live_roster.py\<close>: the table of live connections that the run broker and the KYOK relay
  both keep, with the per-identity counters.  \<open>'r\<close> is the reference type (\<open>AgentRef\<close> or \<open>LlmRef\<close>),
  \<open>'c\<close> the connection type; \<open>key_of\<close> is \<open>ref.provider_key\<close>.
\<close>

record ('r, 'c) live_roster =
  lr_links :: "('r, 'c) dict"
  lr_counter_names :: "string list"
  lr_counters :: "(string, (string, int) dict) dict"

definition new_live_roster :: "string list \<Rightarrow> ('r, 'c) live_roster" where
  "new_live_roster names = \<lparr>lr_links = [], lr_counter_names = names, lr_counters = []\<rparr>"

definition lr_attach :: "('r, 'c) dict \<Rightarrow> ('r, 'c) live_roster \<Rightarrow> ('r, 'c) live_roster" where
  "lr_attach mapping t = t\<lparr>lr_links := dupdate (lr_links t) mapping\<rparr>"

fun pop_all :: "'r list \<Rightarrow> ('r, 'c) dict \<Rightarrow> ('r, 'c) dict" where
  "pop_all [] d = d"
| "pop_all (r # rs) d = pop_all rs (dpop r d)"

definition lr_withdraw :: "'r list \<Rightarrow> ('r, 'c) live_roster \<Rightarrow> ('r, 'c) live_roster" where
  "lr_withdraw refs t = t\<lparr>lr_links := pop_all refs (lr_links t)\<rparr>"

definition lr_serving :: "('r, 'c) live_roster \<Rightarrow> 'r \<Rightarrow> 'c option" where
  "lr_serving t r = dget (lr_links t) r"

definition lr_served_by ::
    "('r \<Rightarrow> string) \<Rightarrow> ('r, 'c) live_roster \<Rightarrow> string \<Rightarrow> 'r list" where
  "lr_served_by key_of t public_key = filter (\<lambda>r. key_of r = public_key) (dkeys (lr_links t))"

text \<open>\<open>dict.fromkeys(names, 0)\<close>; a repeated name occurs once.\<close>

definition zero_bucket :: "string list \<Rightarrow> (string, int) dict" where
  "zero_bucket names = map (\<lambda>n. (n, 0)) (remdups names)"

definition lr_note ::
    "string \<Rightarrow> string \<Rightarrow> ('r, 'c) live_roster \<Rightarrow> ('r, 'c) live_roster result" where
  "lr_note public_key counter t =
     (if counter \<notin> set (lr_counter_names t) then Inl ValueError
      else
        let bucket = (case dget (lr_counters t) public_key of
                        None \<Rightarrow> zero_bucket (lr_counter_names t) | Some b \<Rightarrow> b)
        in case dget bucket counter of
             None \<Rightarrow> Inl KeyError
           | Some n \<Rightarrow>
               Inr (t\<lparr>lr_counters := dset public_key (dset counter (n + 1) bucket)
                                        (lr_counters t)\<rparr>))"

definition lr_count :: "('r, 'c) live_roster \<Rightarrow> string \<Rightarrow> string \<Rightarrow> int" where
  "lr_count t public_key counter =
     (case dget (lr_counters t) public_key of
        None \<Rightarrow> 0
      | Some bucket \<Rightarrow> (case dget bucket counter of None \<Rightarrow> 0 | Some n \<Rightarrow> n))"

text \<open>Well-formedness: dictionaries have distinct keys and every bucket counts exactly the fixed
  counter names, from zero up.\<close>

definition bucket_ok :: "string list \<Rightarrow> (string, int) dict \<Rightarrow> bool" where
  "bucket_ok names bucket \<longleftrightarrow>
     set (dkeys bucket) = set names \<and> (\<forall>x \<in> set bucket. 0 \<le> snd x)"

definition roster_ok :: "('r, 'c) live_roster \<Rightarrow> bool" where
  "roster_ok t \<longleftrightarrow> dict_ok (lr_links t) \<and> dict_ok (lr_counters t) \<and>
     (\<forall>x \<in> set (lr_counters t). bucket_ok (lr_counter_names t) (snd x))"

lemma dget_pop_all [simp]: "dget (pop_all rs d) r = (if r \<in> set rs then None else dget d r)"
  by (induction rs arbitrary: d) auto

lemma dict_ok_pop_all [simp]: "dict_ok d \<Longrightarrow> dict_ok (pop_all rs d)"
  by (induction rs arbitrary: d) auto

lemma set_served_by:
  "set (lr_served_by key_of t k) = {r. key_of r = k \<and> lr_serving t r \<noteq> None}"
  by (auto simp: lr_served_by_def lr_serving_def dget_None_iff)

lemma lr_serving_attach:
  "dict_ok m \<Longrightarrow> lr_serving (lr_attach m t) r =
     (case dget m r of None \<Rightarrow> lr_serving t r | Some c \<Rightarrow> Some c)"
  by (simp add: lr_serving_def lr_attach_def dget_dupdate_ok split: option.split)

lemma lr_serving_withdraw [simp]:
  "lr_serving (lr_withdraw rs t) r = (if r \<in> set rs then None else lr_serving t r)"
  by (simp add: lr_serving_def lr_withdraw_def)

lemma lr_count_attach [simp]: "lr_count (lr_attach m t) = lr_count t"
  by (simp add: lr_count_def lr_attach_def fun_eq_iff)

lemma lr_count_withdraw [simp]: "lr_count (lr_withdraw rs t) = lr_count t"
  by (simp add: lr_count_def lr_withdraw_def fun_eq_iff)

lemma lr_names_simps [simp]:
  "lr_counter_names (lr_attach m t) = lr_counter_names t"
  "lr_counter_names (lr_withdraw rs t) = lr_counter_names t"
  by (simp_all add: lr_attach_def lr_withdraw_def)

lemma dget_zero_bucket: "dget (zero_bucket ns) c = (if c \<in> set ns then Some 0 else None)"
  by (auto simp: zero_bucket_def map_of_map_restrict restrict_map_def)

lemma dkeys_zero_bucket: "set (dkeys (zero_bucket ns)) = set ns"
  by (auto simp: zero_bucket_def image_image)

lemma roster_ok_new [simp]: "roster_ok (new_live_roster ns)"
  by (simp add: roster_ok_def new_live_roster_def)

lemma roster_ok_attach [simp]: "roster_ok t \<Longrightarrow> roster_ok (lr_attach m t)"
  by (auto simp: roster_ok_def lr_attach_def)

lemma roster_ok_withdraw [simp]: "roster_ok t \<Longrightarrow> roster_ok (lr_withdraw rs t)"
  by (auto simp: roster_ok_def lr_withdraw_def)

lemma bucket_ok_zero [simp]: "bucket_ok ns (zero_bucket ns)"
  unfolding bucket_ok_def dkeys_zero_bucket by (auto simp: zero_bucket_def)

lemma bucket_ok_dset:
  "bucket_ok ns b \<Longrightarrow> c \<in> set ns \<Longrightarrow> 0 \<le> n \<Longrightarrow> bucket_ok ns (dset c n b)"
  unfolding bucket_ok_def set_dkeys_dset by (force dest: dset_memD)

lemma bucket_ok_get:
  assumes "bucket_ok ns b" "c \<in> set ns"
  obtains n where "dget b c = Some n" "0 \<le> n"
proof -
  from assms obtain n where n: "dget b c = Some n"
    unfolding bucket_ok_def by (metis dget_None_iff option.exhaust)
  with assms(1) have "0 \<le> n"
    unfolding bucket_ok_def by (force dest: map_of_SomeD)
  with n show ?thesis by (rule that)
qed

text \<open>The bucket that \<^const>\<open>lr_note\<close> and \<^const>\<open>lr_count\<close> look at.\<close>

definition bucket_of :: "('r, 'c) live_roster \<Rightarrow> string \<Rightarrow> (string, int) dict" where
  "bucket_of t k = (case dget (lr_counters t) k of
                      None \<Rightarrow> zero_bucket (lr_counter_names t) | Some b \<Rightarrow> b)"

lemma bucket_of_ok: "roster_ok t \<Longrightarrow> bucket_ok (lr_counter_names t) (bucket_of t k)"
  by (auto simp: bucket_of_def roster_ok_def split: option.split dest!: dget_in_set)

lemma lr_note_bucket:
  "lr_note k c t =
     (if c \<notin> set (lr_counter_names t) then Inl ValueError
      else case dget (bucket_of t k) c of
             None \<Rightarrow> Inl KeyError
           | Some n \<Rightarrow> Inr (t\<lparr>lr_counters := dset k (dset c (n + 1) (bucket_of t k)) (lr_counters t)\<rparr>))"
  unfolding lr_note_def bucket_of_def Let_def by (rule refl)

lemma lr_note_known:
  assumes "roster_ok t" "c \<in> set (lr_counter_names t)"
  obtains t' where "lr_note k c t = Inr t'" "roster_ok t'" "lr_links t' = lr_links t"
    "lr_counter_names t' = lr_counter_names t"
    "\<And>j d. lr_count t' j d = lr_count t j d + (if j = k \<and> d = c then 1 else 0)"
proof -
  have ok: "bucket_ok (lr_counter_names t) (bucket_of t k)"
    using assms(1) by (rule bucket_of_ok)
  then obtain n where n: "dget (bucket_of t k) c = Some n" "0 \<le> n"
    using assms(2) by (rule bucket_ok_get)
  define t' where "t' = t\<lparr>lr_counters := dset k (dset c (n + 1) (bucket_of t k)) (lr_counters t)\<rparr>"
  have 1: "lr_note k c t = Inr t'"
    using n(1) assms(2) by (simp add: lr_note_bucket t'_def)
  have 2: "roster_ok t'"
    using assms bucket_ok_dset [OF ok assms(2), of "n + 1"] n(2)
    by (force simp: roster_ok_def t'_def dest: dset_memD)
  have 3: "lr_count t' j d = lr_count t j d + (if j = k \<and> d = c then 1 else 0)" for j d
    using n(1) assms(2)
    by (auto simp: lr_count_def t'_def bucket_of_def dget_zero_bucket split: option.splits if_splits)
  show ?thesis
    by (rule that [OF 1 2 _ _ 3]) (simp_all add: t'_def)
qed

lemma roster_count_nonneg: "roster_ok t \<Longrightarrow> 0 \<le> lr_count t k c"
  by (force simp: roster_ok_def lr_count_def bucket_ok_def dest!: map_of_SomeD split: option.splits)

subsection \<open>The interface of a live table\<close>

text \<open>
  What \<open>core._Roster\<close> asks of the host that keeps a live table: the four abstract methods
  \<open>live\<close>, \<open>served_by\<close>, \<open>write_live\<close> and \<open>withdraw\<close>.  The broker and the KYOK relay provide it.
\<close>

locale live_table =
  fixes live :: "'s \<Rightarrow> 'r \<Rightarrow> 'c option"
    and served :: "'s \<Rightarrow> string \<Rightarrow> 'r list"
    and write_live :: "('r, 'c) dict \<Rightarrow> 's \<Rightarrow> 's"
    and withdraw :: "'r list \<Rightarrow> 's \<Rightarrow> 's"
    and key_of :: "'r \<Rightarrow> string"
  assumes live_write:
      "dict_ok m \<Longrightarrow> live (write_live m s) r = (case dget m r of None \<Rightarrow> live s r | Some c \<Rightarrow> Some c)"
    and live_withdraw: "live (withdraw rs s) r = (if r \<in> set rs then None else live s r)"
    and served_set: "set (served s k) = {r. key_of r = k \<and> live s r \<noteq> None}"
begin

lemma withdraw_keeps_others:
  "\<forall>r \<in> set rs. key_of r = k \<Longrightarrow> key_of r' \<noteq> k \<Longrightarrow> live (withdraw rs s) r' = live s r'"
  by (auto simp: live_withdraw)

lemma served_after_withdraw:
  "set (served (withdraw rs s) k) = set (served s k) - set rs"
  by (auto simp: served_set live_withdraw)

lemma withdraw_all_served: "served (withdraw (served s k) s) k = []"
  using served_after_withdraw [of "served s k" s k] by simp

end

interpretation roster_table: live_table lr_serving "lr_served_by key_of" lr_attach lr_withdraw key_of
  by unfold_locales (auto simp: lr_serving_attach set_served_by)

end
