(* ===== verification/Broker.thy ===== *)
theory Broker
  imports PyVal LiveRosters
begin

text \<open>
  \<open>funduq/broker.py\<close>: the run broker.  \<open>Run\<close> objects are mutable and shared between the broker's
  tables, the sweep that is offering one, and the tasks spawned for one, so they live in an explicit
  store: \<open>b_objs\<close> is the list of all \<open>Run\<close>s ever created and an \<open>address\<close> is a position in it.
  \<open>asyncio\<close> runs one task at a time, so every method without an \<open>await\<close> is one step; the sweep is
  cut at its one \<open>await\<close> that waits for somebody else, \<open>provider.deliver\<close>: \<open>walk_agent\<close> runs up
  to it and \<open>sweep_answer\<close> goes on from it.  Spawned coroutines are entries of \<open>b_tasks\<close>.
  The handler map of a run is a value of type \<open>'h\<close> here; the theory Handlers gives it its meaning.
\<close>

subsection \<open>Data\<close>

record agent_ref =
  ar_provider_key :: string
  ar_name :: string

record llm_ref =
  lf_provider_key :: string
  lf_name :: string

type_synonym address = nat

datatype command = Claim | RelayEvent pyval | FinishStream | RequestCancel | Fail string

datatype out_item = OutEvent pyval | EndOfStream

text \<open>A \<open>ConnectedProvider\<close>: \<open>c_id\<close> is the identity of the Python object.\<close>

record connection =
  c_id :: nat
  c_public_key :: string
  c_max_concurrent_runs :: "int option"

record capacity =
  cap_declared :: "int option"
  cap_in_flight :: int

definition has_room :: "capacity \<Rightarrow> bool" where
  "has_room c = (case cap_declared c of None \<Rightarrow> True | Some d \<Rightarrow> cap_in_flight c < d)"

record run =
  r_run_id :: string
  r_agent :: agent_ref
  r_thread_id :: string
  r_input_json :: pyval
  r_protocol :: string
  r_queued_at :: int
  r_seq :: int
  r_round_starting_seq :: int
  r_pause_payload :: "pyval option"
  r_claimed_by :: "string option"
  r_cancel_notify :: "connection option"
  r_cancel_requested :: bool
  r_saw_run_finished :: bool
  r_saw_run_error :: bool
  r_in_queue :: "command list"
  r_out_queue :: "out_item list"

record run_snapshot =
  rs_run_id :: string
  rs_agent :: agent_ref
  rs_thread_id :: string
  rs_protocol :: string
  rs_claimed_by :: "string option"
  rs_cancel_requested :: bool

definition is_claimed :: "run_snapshot \<Rightarrow> bool" where
  "is_claimed s = (rs_claimed_by s \<noteq> None)"

definition snapshot :: "run \<Rightarrow> run_snapshot" where
  "snapshot r = \<lparr>rs_run_id = r_run_id r, rs_agent = r_agent r, rs_thread_id = r_thread_id r,
     rs_protocol = r_protocol r, rs_claimed_by = r_claimed_by r,
     rs_cancel_requested = r_cancel_requested r\<rparr>"

text \<open>What one subscriber of \<open>_drain_run\<close> sees of the items placed so far: the events up to the
  end marker, and whether the marker was reached.\<close>

fun drain_run :: "out_item list \<Rightarrow> pyval list \<times> bool" where
  "drain_run [] = ([], False)"
| "drain_run (EndOfStream # _) = ([], True)"
| "drain_run (OutEvent e # items) = (let (es, ended) = drain_run items in (e # es, ended))"

datatype 'h task = PipelineTask address 'h | OneShotTask address command

definition COUNTERS :: "string list" where
  "COUNTERS = [''misdeclared'', ''abandoned'', ''unanswered'', ''answered_late'']"

record 'h broker =
  b_objs :: "run list"
  b_runs :: "(string, address) dict"
  b_pending :: "(agent_ref, string list) dict"
  b_live :: "(agent_ref, connection) live_roster"
  b_unserved_since :: "(agent_ref, int) dict"
  b_capacity :: "(string, capacity) dict"
  b_handlers :: "(string, 'h) dict"
  b_tasks :: "'h task list"
  b_work_to_do :: bool
  b_is_running :: bool
  b_quality_tolerance :: "int option"
  b_forget_calls :: "string list"

definition new_broker :: "int option \<Rightarrow> 'h broker" where
  "new_broker tolerance = \<lparr>b_objs = [], b_runs = [], b_pending = [],
     b_live = new_live_roster COUNTERS, b_unserved_since = [], b_capacity = [], b_handlers = [],
     b_tasks = [], b_work_to_do = False, b_is_running = False,
     b_quality_tolerance = tolerance, b_forget_calls = []\<rparr>"

text \<open>Reading and writing a \<open>Run\<close> object.\<close>

definition obj :: "'h broker \<Rightarrow> address \<Rightarrow> run" where
  "obj b a = b_objs b ! a"

definition upd_obj :: "address \<Rightarrow> (run \<Rightarrow> run) \<Rightarrow> 'h broker \<Rightarrow> 'h broker" where
  "upd_obj a f b = b\<lparr>b_objs := (b_objs b)[a := f (b_objs b ! a)]\<rparr>"

definition put_cmd :: "address \<Rightarrow> command \<Rightarrow> 'h broker \<Rightarrow> 'h broker" where
  "put_cmd a c = upd_obj a (\<lambda>r. r\<lparr>r_in_queue := r_in_queue r @ [c]\<rparr>)"

definition put_out :: "address \<Rightarrow> out_item \<Rightarrow> 'h broker \<Rightarrow> 'h broker" where
  "put_out a i = upd_obj a (\<lambda>r. r\<lparr>r_out_queue := r_out_queue r @ [i]\<rparr>)"

definition spawn :: "'h task \<Rightarrow> 'h broker \<Rightarrow> 'h broker" where
  "spawn t b = b\<lparr>b_tasks := b_tasks b @ [t]\<rparr>"

text \<open>\<open>self._pending_by_agent.get(agent)\<close> as a list; a missing agent has nothing pending.\<close>

definition queue_of :: "'h broker \<Rightarrow> agent_ref \<Rightarrow> string list" where
  "queue_of b agent = (case dget (b_pending b) agent of None \<Rightarrow> [] | Some q \<Rightarrow> q)"

text \<open>\<open>queue.remove(run_id)\<close> on the agent's queue where there is one.\<close>

definition queue_remove :: "agent_ref \<Rightarrow> string \<Rightarrow> 'h broker \<Rightarrow> 'h broker" where
  "queue_remove agent run_id b =
     (case dget (b_pending b) agent of
        None \<Rightarrow> b
      | Some q \<Rightarrow> b\<lparr>b_pending := dset agent (remove1 run_id q) (b_pending b)\<rparr>)"

subsection \<open>The roster of connected providers\<close>

definition start :: "'h broker \<Rightarrow> 'h broker" where
  "start b = (if b_is_running b then b else b\<lparr>b_work_to_do := False, b_is_running := True\<rparr>)"

definition stop :: "'h broker \<Rightarrow> 'h broker" where
  "stop b = b\<lparr>b_is_running := False\<rparr>"

definition serving :: "'h broker \<Rightarrow> agent_ref \<Rightarrow> connection option" where
  "serving b agent = lr_serving (b_live b) agent"

definition agents_served_by :: "'h broker \<Rightarrow> string \<Rightarrow> agent_ref list" where
  "agents_served_by b public_key = lr_served_by ar_provider_key (b_live b) public_key"

fun default_capacity :: "connection list \<Rightarrow> (string, capacity) dict \<Rightarrow> (string, capacity) dict" where
  "default_capacity [] d = d"
| "default_capacity (c # cs) d =
     default_capacity cs
       (dsetdefault (c_public_key c)
          \<lparr>cap_declared = c_max_concurrent_runs c, cap_in_flight = 0\<rparr> d)"

definition register_provider :: "(agent_ref, connection) dict \<Rightarrow> 'h broker \<Rightarrow> 'h broker" where
  "register_provider mapping b =
     b\<lparr>b_live := lr_attach mapping (b_live b),
       b_unserved_since := pop_all (dkeys mapping) (b_unserved_since b),
       b_capacity := default_capacity (map snd mapping) (b_capacity b),
       b_work_to_do := True\<rparr>"

fun mark_unserved :: "int \<Rightarrow> agent_ref list \<Rightarrow> 'h broker \<Rightarrow> 'h broker" where
  "mark_unserved now [] b = b"
| "mark_unserved now (agent # agents) b =
     mark_unserved now agents
       (if serving b agent = None
        then b\<lparr>b_unserved_since := dset agent now (b_unserved_since b)\<rparr> else b)"

definition unregister_provider :: "int \<Rightarrow> agent_ref list \<Rightarrow> 'h broker \<Rightarrow> 'h broker" where
  "unregister_provider now agents b =
     mark_unserved now agents (b\<lparr>b_live := lr_withdraw agents (b_live b)\<rparr>)"

text \<open>Every caller names one of the broker's own four counters, so the error branch of the counter
  table is never taken (\<open>note_abnormal_counts\<close> in BrokerInv).\<close>

definition note_abnormal :: "int \<Rightarrow> string \<Rightarrow> string \<Rightarrow> 'h broker \<Rightarrow> 'h broker" where
  "note_abnormal now public_key event b =
     (case lr_note public_key event (b_live b) of
        Inl _ \<Rightarrow> b
      | Inr live \<Rightarrow>
          let b' = b\<lparr>b_live := live\<rparr> in
          (case b_quality_tolerance b of
             None \<Rightarrow> b'
           | Some tolerance \<Rightarrow>
               if lr_count live public_key event < tolerance then b'
               else let agents = agents_served_by b' public_key in
                    if agents \<noteq> [] then unregister_provider now agents b' else b'))"

subsection \<open>Queueing, claiming, cancelling\<close>

definition enqueue_run ::
    "int \<Rightarrow> string \<Rightarrow> agent_ref \<Rightarrow> string \<Rightarrow> pyval \<Rightarrow> string \<Rightarrow> 'h option \<Rightarrow> int \<Rightarrow> 'h broker
       \<Rightarrow> (address \<times> 'h broker) result" where
  "enqueue_run now run_id agent thread_id input_json protocol handlers seq b =
     (if \<not> b_is_running b then Inl RuntimeError
      else
        let a = length (b_objs b);
            run = \<lparr>r_run_id = run_id, r_agent = agent, r_thread_id = thread_id,
                   r_input_json = input_json, r_protocol = protocol, r_queued_at = now,
                   r_seq = seq, r_round_starting_seq = seq, r_pause_payload = None,
                   r_claimed_by = None, r_cancel_notify = None, r_cancel_requested = False,
                   r_saw_run_finished = False, r_saw_run_error = False,
                   r_in_queue = [], r_out_queue = []\<rparr>;
            b' = b\<lparr>b_objs := b_objs b @ [run],
                   b_runs := dset run_id a (b_runs b),
                   b_pending := dset agent (queue_of b agent @ [run_id]) (b_pending b),
                   b_work_to_do := True\<rparr>
        in Inr (a, case handlers of None \<Rightarrow> b'
                   | Some h \<Rightarrow> b'\<lparr>b_handlers := dset run_id h (b_handlers b')\<rparr>))"

definition get_run_snapshot :: "'h broker \<Rightarrow> string \<Rightarrow> run_snapshot option" where
  "get_run_snapshot b run_id = map_option (\<lambda>a. snapshot (obj b a)) (dget (b_runs b) run_id)"

definition active_run_ids :: "'h broker \<Rightarrow> string list" where
  "active_run_ids b = dkeys (b_runs b)"

fun is_fail :: "command \<Rightarrow> bool" where
  "is_fail (Fail _) = True"
| "is_fail _ = False"

fun is_terminal :: "command \<Rightarrow> bool" where
  "is_terminal FinishStream = True"
| "is_terminal (Fail _) = True"
| "is_terminal _ = False"

definition push :: "int \<Rightarrow> string \<Rightarrow> command \<Rightarrow> 'h broker \<Rightarrow> bool \<times> 'h broker" where
  "push now run_id command b =
     (case dget (b_runs b) run_id of
        None \<Rightarrow> (False, b)
      | Some a \<Rightarrow>
          (True,
           put_cmd a command
             (case r_claimed_by (obj b a) of
                None \<Rightarrow> b
              | Some k \<Rightarrow> if is_fail command then note_abnormal now k ''abandoned'' b else b)))"

definition request_cancel :: "string \<Rightarrow> 'h broker \<Rightarrow> bool \<times> 'h broker" where
  "request_cancel run_id b =
     (case dget (b_runs b) run_id of
        None \<Rightarrow> (False, b)
      | Some a \<Rightarrow>
          let b' = upd_obj a (\<lambda>r. r\<lparr>r_cancel_requested := True\<rparr>) b in
          (True,
           if r_claimed_by (obj b' a) \<noteq> None then put_cmd a RequestCancel b'
           else spawn (OneShotTask a RequestCancel) b'))"

text \<open>Freeing the claimed provider's place: the counter never goes below zero.\<close>

definition release_capacity :: "string \<Rightarrow> 'h broker \<Rightarrow> 'h broker" where
  "release_capacity public_key b =
     (case dget (b_capacity b) public_key of
        None \<Rightarrow> b
      | Some c \<Rightarrow>
          if 0 < cap_in_flight c
          then b\<lparr>b_capacity := dset public_key (c\<lparr>cap_in_flight := cap_in_flight c - 1\<rparr>)
                                 (b_capacity b),
                 b_work_to_do := True\<rparr>
          else b)"

definition take_capacity :: "string \<Rightarrow> 'h broker \<Rightarrow> 'h broker" where
  "take_capacity public_key b =
     (case dget (b_capacity b) public_key of
        None \<Rightarrow> b
      | Some c \<Rightarrow> b\<lparr>b_capacity := dset public_key (c\<lparr>cap_in_flight := cap_in_flight c + 1\<rparr>)
                                    (b_capacity b)\<rparr>)"

definition forget :: "string \<Rightarrow> 'h broker \<Rightarrow> 'h broker" where
  "forget run_id b =
     (let b' = b\<lparr>b_runs := dpop run_id (b_runs b), b_handlers := dpop run_id (b_handlers b)\<rparr>;
          b'' = (case dget (b_runs b) run_id of
                   None \<Rightarrow> b'
                 | Some a \<Rightarrow> (case r_claimed_by (obj b a) of
                               None \<Rightarrow> b' | Some k \<Rightarrow> release_capacity k b'))
      in b''\<lparr>b_forget_calls := b_forget_calls b'' @ [run_id]\<rparr>)"

text \<open>The claim itself, shared by an accepted offer and a late ack: the run is marked, its
  pipeline task is spawned where it has handlers, and \<open>Claim()\<close> is its first command.\<close>

definition claim_run :: "address \<Rightarrow> connection \<Rightarrow> 'h broker \<Rightarrow> 'h broker" where
  "claim_run a provider b =
     (let b1 = upd_obj a (\<lambda>r. r\<lparr>r_claimed_by := Some (c_public_key provider),
                                r_cancel_notify := Some provider\<rparr>) b;
          b2 = (case dget (b_handlers b1) (r_run_id (obj b1 a)) of
                  None \<Rightarrow> b1 | Some h \<Rightarrow> spawn (PipelineTask a h) b1)
      in put_cmd a Claim b2)"

definition accept_late_ack :: "int \<Rightarrow> string \<Rightarrow> string \<Rightarrow> 'h broker \<Rightarrow> bool \<times> 'h broker" where
  "accept_late_ack now run_id claimed_by b =
     (case dget (b_runs b) run_id of
        None \<Rightarrow> (False, b)
      | Some a \<Rightarrow>
          if r_claimed_by (obj b a) \<noteq> None then (False, b)
          else
            (case serving b (r_agent (obj b a)) of
               None \<Rightarrow> (False, b)
             | Some provider \<Rightarrow>
                 if c_public_key provider \<noteq> claimed_by then (False, b)
                 else
                   (True,
                    claim_run a provider
                      (note_abnormal now claimed_by ''answered_late''
                        (take_capacity claimed_by
                          (queue_remove (r_agent (obj b a)) run_id b))))))"

subsection \<open>The sweep\<close>

datatype scan_result = ScanReturn | ScanOffer address connection

text \<open>The loop of \<open>_offer_pending\<close> up to its \<open>await\<close>: heads that are unknown or cancelled are
  dropped, and the first run left is offered if its provider has room.\<close>

function scan :: "agent_ref \<Rightarrow> 'h broker \<Rightarrow> scan_result \<times> 'h broker" where
  "scan agent b =
     (case serving b agent of
        None \<Rightarrow> (ScanReturn, b)
      | Some provider \<Rightarrow>
          (case queue_of b agent of
             [] \<Rightarrow> (ScanReturn, b)
           | run_id # _ \<Rightarrow>
               (case dget (b_runs b) run_id of
                  None \<Rightarrow> scan agent (queue_remove agent run_id b)
                | Some a \<Rightarrow>
                    if r_cancel_requested (obj b a) then scan agent (queue_remove agent run_id b)
                    else
                      (case dget (b_capacity b) (c_public_key provider) of
                         None \<Rightarrow> (ScanOffer a provider, b)
                       | Some c \<Rightarrow>
                           if has_room c then (ScanOffer a provider, b) else (ScanReturn, b)))))"
  by pat_completeness auto

lemma queue_of_remove:
  "queue_of (queue_remove agent run_id b) ag =
     (if ag = agent then remove1 run_id (queue_of b agent) else queue_of b ag)"
  by (auto simp: queue_of_def queue_remove_def split: option.splits)

termination scan
  by (relation "measure (\<lambda>(agent, b). length (queue_of b agent))") (auto simp: queue_of_remove)

declare scan.simps [simp del]

text \<open>A provider's answer to an offer: it did not come in time, \<open>deliver\<close> raised, it was an object
  with a string \<open>reason\<close>, or it was any other value, read by its truth value.\<close>

datatype answer = TimedOut | Raised | Refusal string | Answered bool

datatype outcome = Refused | NotPlaced | Placed

text \<open>The rest of \<open>_offer\<close> after its \<open>await\<close>.\<close>

definition offer_answer ::
    "int \<Rightarrow> address \<Rightarrow> connection \<Rightarrow> answer \<Rightarrow> 'h broker \<Rightarrow> outcome \<times> 'h broker" where
  "offer_answer now a provider ans b =
     (let key = c_public_key provider in
      case ans of
        TimedOut \<Rightarrow> (NotPlaced, note_abnormal now key ''unanswered'' b)
      | Raised \<Rightarrow> (NotPlaced, note_abnormal now key ''unanswered'' b)
      | Refusal reason \<Rightarrow> (Refused, spawn (OneShotTask a (Fail reason)) b)
      | Answered accepted \<Rightarrow>
          if \<not> accepted then
            (NotPlaced,
             case dget (b_capacity b) key of
               None \<Rightarrow> b
             | Some c \<Rightarrow>
                 if has_room c then
                   let b' = note_abnormal now key ''misdeclared'' b in
                   (case cap_declared c of
                      None \<Rightarrow> b'
                    | Some d \<Rightarrow> b'\<lparr>b_capacity := dset key (c\<lparr>cap_in_flight := d\<rparr>) (b_capacity b')\<rparr>)
                 else b)
          else (Placed, claim_run a provider (take_capacity key b)))"

text \<open>Where \<open>run_forever\<close> stands: waiting for work, about to look at the next agents, or inside an
  agent's loop at \<open>await provider.deliver\<close>.\<close>

datatype sweep =
    Sleeping
  | Walking "agent_ref list" bool
  | Awaiting agent_ref address connection bool "agent_ref list" bool

fun expire_agent :: "int \<Rightarrow> int \<Rightarrow> agent_ref \<Rightarrow> string list \<Rightarrow> 'h broker \<Rightarrow> string list \<times> 'h broker" where
  "expire_agent now cutoff agent [] b = ([], b)"
| "expire_agent now cutoff agent (run_id # run_ids) b =
     (case dget (b_runs b) run_id of
        None \<Rightarrow> expire_agent now cutoff agent run_ids b
      | Some a \<Rightarrow>
          let reference = (case dget (b_unserved_since b) agent of
                             None \<Rightarrow> r_queued_at (obj b a)
                           | Some since \<Rightarrow> max (r_queued_at (obj b a)) since)
          in if cutoff < reference then expire_agent now cutoff agent run_ids b
             else
               let (expired, b') =
                     expire_agent now cutoff agent run_ids
                       (spawn (OneShotTask a (Fail ''no_provider_took_it''))
                         (queue_remove agent run_id b))
               in (run_id # expired, b'))"

fun expire_agents :: "int \<Rightarrow> int \<Rightarrow> agent_ref list \<Rightarrow> 'h broker \<Rightarrow> string list \<times> 'h broker" where
  "expire_agents now cutoff [] b = ([], b)"
| "expire_agents now cutoff (agent # agents) b =
     (if serving b agent \<noteq> None then expire_agents now cutoff agents b
      else
        let (es, b') = expire_agent now cutoff agent (queue_of b agent) b;
            (es', b'') = expire_agents now cutoff agents b'
        in (es @ es', b''))"

definition expire_queued :: "int \<Rightarrow> int \<Rightarrow> 'h broker \<Rightarrow> string list \<times> 'h broker" where
  "expire_queued now timeout b =
     expire_agents now (now - timeout) (dkeys (b_pending b)) b"

text \<open>One turn of \<open>run_forever\<close>, cut at the awaits.\<close>

definition sweep_begin :: "int \<Rightarrow> int \<Rightarrow> 'h broker \<Rightarrow> sweep \<times> 'h broker" where
  "sweep_begin now unserved_timeout b =
     (let b' = (snd (expire_queued now unserved_timeout b))\<lparr>b_work_to_do := False\<rparr>
      in (Walking (dkeys (b_pending b')) False, b'))"

definition walk_agent ::
    "agent_ref \<Rightarrow> bool \<Rightarrow> agent_ref list \<Rightarrow> bool \<Rightarrow> 'h broker \<Rightarrow> sweep \<times> 'h broker" where
  "walk_agent agent placed_here rest placed b =
     (case scan agent b of
        (ScanReturn, b') \<Rightarrow> (Walking rest (placed \<or> placed_here), b')
      | (ScanOffer a provider, b') \<Rightarrow> (Awaiting agent a provider placed_here rest placed, b'))"

definition sweep_answer ::
    "int \<Rightarrow> agent_ref \<Rightarrow> address \<Rightarrow> connection \<Rightarrow> bool \<Rightarrow> agent_ref list \<Rightarrow> bool \<Rightarrow> answer
       \<Rightarrow> 'h broker \<Rightarrow> sweep \<times> 'h broker" where
  "sweep_answer now agent a provider placed_here rest placed ans b =
     (let run_id = r_run_id (obj b a) in
      case offer_answer now a provider ans b of
        (Refused, b') \<Rightarrow> walk_agent agent placed_here rest placed (queue_remove agent run_id b')
      | (NotPlaced, b') \<Rightarrow> (Walking rest (placed \<or> placed_here), b')
      | (Placed, b') \<Rightarrow> walk_agent agent True rest placed (queue_remove agent run_id b'))"

subsection \<open>The tasks of a run\<close>

text \<open>How \<open>_pipeline\<close> and \<open>_one_shot\<close> end a run.\<close>

definition end_run :: "address \<Rightarrow> 'h broker \<Rightarrow> 'h broker" where
  "end_run a b = forget (r_run_id (obj b a)) (put_out a EndOfStream b)"

text \<open>Whether \<open>_pipeline\<close> leaves its loop after handling \<open>cmd\<close>.\<close>

definition pipeline_stops :: "run \<Rightarrow> command \<Rightarrow> bool" where
  "pipeline_stops r cmd =
     (is_terminal cmd \<or> (cmd = RequestCancel \<and> r_claimed_by r = None))"

definition quality_counts :: "'h broker \<Rightarrow> string \<Rightarrow> (capacity \<times> int list) option" where
  "quality_counts b key =
     map_option (\<lambda>c. (c, map (lr_count (b_live b) key) COUNTERS)) (dget (b_capacity b) key)"

lemmas broker_op_defs = put_cmd_def put_out_def upd_obj_def spawn_def queue_remove_def

end
