(* ===== verification/BrokerFrames.thy ===== *)
theory BrokerFrames
  imports Broker
begin

text \<open>
  What each broker operation leaves alone.  Every operation changes few of the broker's twelve
  tables; the simp rules here say which ones it does not touch and how the ones it touches read
  afterwards, so that an invariant proof only meets the fields it mentions.
\<close>

subsection \<open>The store of runs\<close>

lemma length_upd_obj [simp]: "length (b_objs (upd_obj a f b)) = length (b_objs b)"
  by (simp add: upd_obj_def)

lemma obj_upd_obj:
  "a < length (b_objs b) \<Longrightarrow> obj (upd_obj a f b) x = (if x = a then f (obj b a) else obj b x)"
  by (simp add: upd_obj_def obj_def)

lemma upd_obj_out: "\<not> a < length (b_objs b) \<Longrightarrow> upd_obj a f b = b"
  by (simp add: upd_obj_def list_update_beyond)

lemma obj_upd_same: "(\<And>r. g (f r) = g r) \<Longrightarrow> g (obj (upd_obj a f b) x) = g (obj b x)"
  by (cases "a < length (b_objs b)") (auto simp: obj_upd_obj upd_obj_out)

lemma upd_obj_simps [simp]:
  "b_runs (upd_obj a f b) = b_runs b"
  "b_pending (upd_obj a f b) = b_pending b"
  "b_live (upd_obj a f b) = b_live b"
  "b_unserved_since (upd_obj a f b) = b_unserved_since b"
  "b_capacity (upd_obj a f b) = b_capacity b"
  "b_handlers (upd_obj a f b) = b_handlers b"
  "b_tasks (upd_obj a f b) = b_tasks b"
  "b_work_to_do (upd_obj a f b) = b_work_to_do b"
  "b_is_running (upd_obj a f b) = b_is_running b"
  "b_quality_tolerance (upd_obj a f b) = b_quality_tolerance b"
  "b_forget_calls (upd_obj a f b) = b_forget_calls b"
  by (simp_all add: upd_obj_def)

lemma queue_of_upd_obj [simp]: "queue_of (upd_obj a f b) = queue_of b"
  by (simp add: queue_of_def fun_eq_iff)

lemma spawn_simps [simp]:
  "b_objs (spawn t b) = b_objs b"
  "b_runs (spawn t b) = b_runs b"
  "b_pending (spawn t b) = b_pending b"
  "b_live (spawn t b) = b_live b"
  "b_unserved_since (spawn t b) = b_unserved_since b"
  "b_capacity (spawn t b) = b_capacity b"
  "b_handlers (spawn t b) = b_handlers b"
  "b_tasks (spawn t b) = b_tasks b @ [t]"
  "b_is_running (spawn t b) = b_is_running b"
  "b_quality_tolerance (spawn t b) = b_quality_tolerance b"
  "b_forget_calls (spawn t b) = b_forget_calls b"
  "obj (spawn t b) = obj b"
  "queue_of (spawn t b) = queue_of b"
  "serving (spawn t b) = serving b"
  by (simp_all add: spawn_def obj_def queue_of_def serving_def fun_eq_iff)

lemma queue_remove_simps [simp]:
  "b_objs (queue_remove ag i b) = b_objs b"
  "b_runs (queue_remove ag i b) = b_runs b"
  "b_live (queue_remove ag i b) = b_live b"
  "b_unserved_since (queue_remove ag i b) = b_unserved_since b"
  "b_capacity (queue_remove ag i b) = b_capacity b"
  "b_handlers (queue_remove ag i b) = b_handlers b"
  "b_tasks (queue_remove ag i b) = b_tasks b"
  "b_work_to_do (queue_remove ag i b) = b_work_to_do b"
  "b_is_running (queue_remove ag i b) = b_is_running b"
  "b_quality_tolerance (queue_remove ag i b) = b_quality_tolerance b"
  "b_forget_calls (queue_remove ag i b) = b_forget_calls b"
  "obj (queue_remove ag i b) = obj b"
  "serving (queue_remove ag i b) = serving b"
  by (simp_all add: queue_remove_def obj_def serving_def fun_eq_iff split: option.split)

lemma dkeys_pending_queue_remove [simp]:
  "set (dkeys (b_pending (queue_remove ag i b))) = set (dkeys (b_pending b))"
  by (auto simp: queue_remove_def dest: dget_Some_in_keys split: option.split)

subsection \<open>Abnormal events and withdrawal\<close>

lemma mark_unserved_simps [simp]:
  "b_objs (mark_unserved now ags b) = b_objs b"
  "b_runs (mark_unserved now ags b) = b_runs b"
  "b_pending (mark_unserved now ags b) = b_pending b"
  "b_live (mark_unserved now ags b) = b_live b"
  "b_capacity (mark_unserved now ags b) = b_capacity b"
  "b_handlers (mark_unserved now ags b) = b_handlers b"
  "b_tasks (mark_unserved now ags b) = b_tasks b"
  "b_work_to_do (mark_unserved now ags b) = b_work_to_do b"
  "b_is_running (mark_unserved now ags b) = b_is_running b"
  "b_quality_tolerance (mark_unserved now ags b) = b_quality_tolerance b"
  "b_forget_calls (mark_unserved now ags b) = b_forget_calls b"
  by (induction now ags b rule: mark_unserved.induct) simp_all

lemma unregister_simps [simp]:
  "b_objs (unregister_provider now ags b) = b_objs b"
  "b_runs (unregister_provider now ags b) = b_runs b"
  "b_pending (unregister_provider now ags b) = b_pending b"
  "b_live (unregister_provider now ags b) = lr_withdraw ags (b_live b)"
  "b_capacity (unregister_provider now ags b) = b_capacity b"
  "b_handlers (unregister_provider now ags b) = b_handlers b"
  "b_tasks (unregister_provider now ags b) = b_tasks b"
  "b_work_to_do (unregister_provider now ags b) = b_work_to_do b"
  "b_is_running (unregister_provider now ags b) = b_is_running b"
  "b_quality_tolerance (unregister_provider now ags b) = b_quality_tolerance b"
  "b_forget_calls (unregister_provider now ags b) = b_forget_calls b"
  by (simp_all add: unregister_provider_def)

lemma note_abnormal_simps [simp]:
  "b_objs (note_abnormal now k ev b) = b_objs b"
  "b_runs (note_abnormal now k ev b) = b_runs b"
  "b_pending (note_abnormal now k ev b) = b_pending b"
  "b_capacity (note_abnormal now k ev b) = b_capacity b"
  "b_handlers (note_abnormal now k ev b) = b_handlers b"
  "b_tasks (note_abnormal now k ev b) = b_tasks b"
  "b_work_to_do (note_abnormal now k ev b) = b_work_to_do b"
  "b_is_running (note_abnormal now k ev b) = b_is_running b"
  "b_quality_tolerance (note_abnormal now k ev b) = b_quality_tolerance b"
  "b_forget_calls (note_abnormal now k ev b) = b_forget_calls b"
  by (simp_all add: note_abnormal_def Let_def split: sum.split option.split)

lemma note_abnormal_obj [simp]:
  "obj (note_abnormal now k ev b) = obj b"
  "queue_of (note_abnormal now k ev b) = queue_of b"
  by (simp_all add: obj_def queue_of_def fun_eq_iff)

text \<open>The broker's own roster: well formed, and counting exactly the four events.\<close>

definition live_ok :: "'h broker \<Rightarrow> bool" where
  "live_ok b \<longleftrightarrow> roster_ok (b_live b) \<and> lr_counter_names (b_live b) = COUNTERS"

lemma live_ok_cong: "b_live b' = b_live b \<Longrightarrow> live_ok b' = live_ok b"
  by (simp add: live_ok_def)

lemma live_ok_simps [simp]:
  "live_ok (upd_obj a f b) = live_ok b"
  "live_ok (spawn t b) = live_ok b"
  "live_ok (queue_remove ag i b) = live_ok b"
  by (simp_all add: live_ok_def)

lemma serving_upd_obj [simp]: "serving (upd_obj a f b) = serving b"
  by (simp add: serving_def fun_eq_iff)

lemma counter_names [simp]:
  "''misdeclared'' \<in> set COUNTERS" "''abandoned'' \<in> set COUNTERS"
  "''unanswered'' \<in> set COUNTERS" "''answered_late'' \<in> set COUNTERS"
  by (simp_all add: COUNTERS_def)

text \<open>One abnormal event counts one, keeps the roster well formed, and can only take agents out of
  service; below the allowance it takes none out.\<close>

lemma note_abnormal_counts:
  assumes "live_ok b" "ev \<in> set COUNTERS"
  shows "live_ok (note_abnormal now k ev b)"
    and "lr_count (b_live (note_abnormal now k ev b)) j c =
           lr_count (b_live b) j c + (if j = k \<and> c = ev then 1 else 0)"
    and "serving (note_abnormal now k ev b) ag =
           (case b_quality_tolerance b of
              None \<Rightarrow> serving b ag
            | Some tol \<Rightarrow>
                if tol \<le> lr_count (b_live b) k ev + 1 \<and> ar_provider_key ag = k then None
                else serving b ag)"
proof -
  from assms obtain t where t: "lr_note k ev (b_live b) = Inr t" "roster_ok t"
      "lr_links t = lr_links (b_live b)" "lr_counter_names t = lr_counter_names (b_live b)"
      "\<And>j d. lr_count t j d = lr_count (b_live b) j d + (if j = k \<and> d = ev then 1 else 0)"
    unfolding live_ok_def by (metis lr_note_known)
  have cases: "b_live (note_abnormal now k ev b) = t \<or>
      b_live (note_abnormal now k ev b) = lr_withdraw (lr_served_by ar_provider_key t k) t"
    using t(1) by (auto simp: note_abnormal_def Let_def agents_served_by_def split: option.split)
  show "live_ok (note_abnormal now k ev b)"
    using cases t(2,4) assms(1) by (auto simp: live_ok_def)
  show "lr_count (b_live (note_abnormal now k ev b)) j c =
           lr_count (b_live b) j c + (if j = k \<and> c = ev then 1 else 0)"
    using cases t(5) by auto
  have srv: "lr_serving t = lr_serving (b_live b)"
    using t(3) by (simp add: lr_serving_def fun_eq_iff)
  have empty: "lr_served_by ar_provider_key t k = [] \<Longrightarrow> ar_provider_key ag = k \<Longrightarrow>
      lr_serving t ag = None"
    using set_served_by [of ar_provider_key t k] by auto
  show "serving (note_abnormal now k ev b) ag =
           (case b_quality_tolerance b of
              None \<Rightarrow> serving b ag
            | Some tol \<Rightarrow>
                if tol \<le> lr_count (b_live b) k ev + 1 \<and> ar_provider_key ag = k then None
                else serving b ag)"
    using t(1,5) srv empty set_served_by [of ar_provider_key t k]
    by (auto simp: note_abnormal_def Let_def agents_served_by_def serving_def split: option.split)
qed

lemma serving_note_abnormal_sub:
  assumes "live_ok b" "ev \<in> set COUNTERS" "serving (note_abnormal now k ev b) ag = Some c"
  shows "serving b ag = Some c"
  using assms(3) note_abnormal_counts(3) [OF assms(1,2), of now k ag]
  by (auto split: option.splits if_splits)

subsection \<open>Capacity, claims and forgetting\<close>

lemma capacity_op_simps [simp]:
  "b_objs (release_capacity k b) = b_objs b"
  "b_runs (release_capacity k b) = b_runs b"
  "b_pending (release_capacity k b) = b_pending b"
  "b_live (release_capacity k b) = b_live b"
  "b_unserved_since (release_capacity k b) = b_unserved_since b"
  "b_handlers (release_capacity k b) = b_handlers b"
  "b_tasks (release_capacity k b) = b_tasks b"
  "b_is_running (release_capacity k b) = b_is_running b"
  "b_quality_tolerance (release_capacity k b) = b_quality_tolerance b"
  "b_forget_calls (release_capacity k b) = b_forget_calls b"
  "b_objs (take_capacity k b) = b_objs b"
  "b_runs (take_capacity k b) = b_runs b"
  "b_pending (take_capacity k b) = b_pending b"
  "b_live (take_capacity k b) = b_live b"
  "b_unserved_since (take_capacity k b) = b_unserved_since b"
  "b_handlers (take_capacity k b) = b_handlers b"
  "b_tasks (take_capacity k b) = b_tasks b"
  "b_is_running (take_capacity k b) = b_is_running b"
  "b_quality_tolerance (take_capacity k b) = b_quality_tolerance b"
  "b_forget_calls (take_capacity k b) = b_forget_calls b"
  by (simp_all add: release_capacity_def take_capacity_def split: option.split)

lemma capacity_op_obj [simp]:
  "obj (release_capacity k b) = obj b"
  "obj (take_capacity k b) = obj b"
  "queue_of (release_capacity k b) = queue_of b"
  "queue_of (take_capacity k b) = queue_of b"
  by (simp_all add: obj_def queue_of_def fun_eq_iff)

definition room_freed :: "capacity \<Rightarrow> capacity" where
  "room_freed c = (if 0 < cap_in_flight c then c\<lparr>cap_in_flight := cap_in_flight c - 1\<rparr> else c)"

definition room_taken :: "capacity \<Rightarrow> capacity" where
  "room_taken c = c\<lparr>cap_in_flight := cap_in_flight c + 1\<rparr>"

lemma room_simps [simp]:
  "cap_declared (room_freed c) = cap_declared c"
  "cap_declared (room_taken c) = cap_declared c"
  "cap_in_flight (room_taken c) = cap_in_flight c + 1"
  by (simp_all add: room_freed_def room_taken_def)

lemma dget_release_capacity:
  "dget (b_capacity (release_capacity k b)) j =
     (if j = k then map_option room_freed (dget (b_capacity b) k) else dget (b_capacity b) j)"
  by (auto simp: release_capacity_def room_freed_def split: option.split)

lemma dget_take_capacity:
  "dget (b_capacity (take_capacity k b)) j =
     (if j = k then map_option room_taken (dget (b_capacity b) k) else dget (b_capacity b) j)"
  by (auto simp: take_capacity_def room_taken_def split: option.split)

lemma forget_simps [simp]:
  "b_objs (forget i b) = b_objs b"
  "b_runs (forget i b) = dpop i (b_runs b)"
  "b_pending (forget i b) = b_pending b"
  "b_live (forget i b) = b_live b"
  "b_unserved_since (forget i b) = b_unserved_since b"
  "b_handlers (forget i b) = dpop i (b_handlers b)"
  "b_tasks (forget i b) = b_tasks b"
  "b_is_running (forget i b) = b_is_running b"
  "b_quality_tolerance (forget i b) = b_quality_tolerance b"
  "b_forget_calls (forget i b) = b_forget_calls b @ [i]"
  "obj (forget i b) = obj b"
  "queue_of (forget i b) = queue_of b"
  by (simp_all add: forget_def Let_def obj_def queue_of_def fun_eq_iff split: option.split)

lemma dget_forget_capacity:
  "dget (b_capacity (forget i b)) j =
     (if \<exists>a. dget (b_runs b) i = Some a \<and> r_claimed_by (obj b a) = Some j
      then map_option room_freed (dget (b_capacity b) j) else dget (b_capacity b) j)"
  by (auto simp: forget_def Let_def dget_release_capacity split: option.split)

lemma put_simps [simp]:
  "b_objs (put_out a x b) = (b_objs b)[a := (b_objs b ! a)\<lparr>r_out_queue := r_out_queue (b_objs b ! a) @ [x]\<rparr>]"
  "b_runs (put_out a x b) = b_runs b" "b_runs (put_cmd a c b) = b_runs b"
  "b_pending (put_out a x b) = b_pending b" "b_pending (put_cmd a c b) = b_pending b"
  "b_live (put_out a x b) = b_live b" "b_live (put_cmd a c b) = b_live b"
  "b_unserved_since (put_out a x b) = b_unserved_since b"
  "b_unserved_since (put_cmd a c b) = b_unserved_since b"
  "b_capacity (put_out a x b) = b_capacity b" "b_capacity (put_cmd a c b) = b_capacity b"
  "b_handlers (put_out a x b) = b_handlers b" "b_handlers (put_cmd a c b) = b_handlers b"
  "b_tasks (put_out a x b) = b_tasks b" "b_tasks (put_cmd a c b) = b_tasks b"
  "b_is_running (put_out a x b) = b_is_running b" "b_is_running (put_cmd a c b) = b_is_running b"
  "b_quality_tolerance (put_out a x b) = b_quality_tolerance b"
  "b_quality_tolerance (put_cmd a c b) = b_quality_tolerance b"
  "b_forget_calls (put_out a x b) = b_forget_calls b"
  "b_forget_calls (put_cmd a c b) = b_forget_calls b"
  "queue_of (put_out a x b) = queue_of b" "queue_of (put_cmd a c b) = queue_of b"
  by (simp_all add: put_out_def put_cmd_def queue_of_def fun_eq_iff upd_obj_def)

text \<open>The fields of a run that decide who holds it: its identity, its claim, its cancel mark.\<close>

definition standing :: "run \<Rightarrow> string \<times> agent_ref \<times> string option \<times> bool \<times> int \<times> string" where
  "standing r = (r_run_id r, r_agent r, r_claimed_by r, r_cancel_requested r, r_queued_at r, r_thread_id r)"

lemma standing_eqD:
  assumes "standing r = standing r'"
  shows "r_run_id r = r_run_id r'" "r_agent r = r_agent r'" "r_claimed_by r = r_claimed_by r'"
    "r_cancel_requested r = r_cancel_requested r'" "r_queued_at r = r_queued_at r'"
    "r_thread_id r = r_thread_id r'"
  using assms by (simp_all add: standing_def)

lemma standing_put [simp]:
  "standing (obj (put_cmd a c b) x) = standing (obj b x)"
  "standing (obj (put_out a i b) x) = standing (obj b x)"
  by (simp_all add: put_cmd_def put_out_def standing_def
      obj_upd_same [where g = r_run_id] obj_upd_same [where g = r_agent]
      obj_upd_same [where g = r_claimed_by] obj_upd_same [where g = r_cancel_requested]
      obj_upd_same [where g = r_queued_at] obj_upd_same [where g = r_thread_id])

lemmas standing_put_fields [simp] =
  standing_put(1) [THEN standing_eqD(1)] standing_put(1) [THEN standing_eqD(2)]
  standing_put(1) [THEN standing_eqD(3)] standing_put(1) [THEN standing_eqD(4)]
  standing_put(1) [THEN standing_eqD(5)] standing_put(1) [THEN standing_eqD(6)]
  standing_put(2) [THEN standing_eqD(1)] standing_put(2) [THEN standing_eqD(2)]
  standing_put(2) [THEN standing_eqD(3)] standing_put(2) [THEN standing_eqD(4)]
  standing_put(2) [THEN standing_eqD(5)] standing_put(2) [THEN standing_eqD(6)]

lemma length_put [simp]:
  "length (b_objs (put_cmd a c b)) = length (b_objs b)"
  "length (b_objs (put_out a i b)) = length (b_objs b)"
  by (simp_all add: put_cmd_def put_out_def)

lemma claim_run_simps [simp]:
  "b_runs (claim_run a p b) = b_runs b"
  "b_pending (claim_run a p b) = b_pending b"
  "b_live (claim_run a p b) = b_live b"
  "b_unserved_since (claim_run a p b) = b_unserved_since b"
  "b_capacity (claim_run a p b) = b_capacity b"
  "b_handlers (claim_run a p b) = b_handlers b"
  "b_is_running (claim_run a p b) = b_is_running b"
  "b_quality_tolerance (claim_run a p b) = b_quality_tolerance b"
  "b_forget_calls (claim_run a p b) = b_forget_calls b"
  "length (b_objs (claim_run a p b)) = length (b_objs b)"
  "queue_of (claim_run a p b) = queue_of b"
  by (simp_all add: claim_run_def Let_def split: option.split)

lemma claim_run_tasks:
  "a < length (b_objs b) \<Longrightarrow> b_tasks (claim_run a p b) =
     b_tasks b @ (case dget (b_handlers b) (r_run_id (obj b a)) of
                    None \<Rightarrow> [] | Some h \<Rightarrow> [PipelineTask a h])"
  by (simp add: claim_run_def Let_def obj_upd_obj split: option.split)

lemma claim_run_obj:
  assumes "a < length (b_objs b)"
  shows "r_run_id (obj (claim_run a p b) x) = r_run_id (obj b x)"
    and "r_agent (obj (claim_run a p b) x) = r_agent (obj b x)"
    and "r_cancel_requested (obj (claim_run a p b) x) = r_cancel_requested (obj b x)"
    and "r_queued_at (obj (claim_run a p b) x) = r_queued_at (obj b x)"
    and "r_claimed_by (obj (claim_run a p b) x) =
           (if x = a then Some (c_public_key p) else r_claimed_by (obj b x))"
  using assms by (auto simp: claim_run_def Let_def obj_upd_obj split: option.split)

subsection \<open>Changes that do not touch the bookkeeping\<close>

text \<open>\<open>calm b b'\<close>: from \<open>b\<close> to \<open>b'\<close> no run changed hands, no table of runs, queues, places or tasks
  changed, counters only grew and agents only went out of service.\<close>

definition calm :: "'h broker \<Rightarrow> 'h broker \<Rightarrow> bool" where
  "calm b b' \<longleftrightarrow>
     b_runs b' = b_runs b \<and> queue_of b' = queue_of b \<and> b_capacity b' = b_capacity b \<and>
     b_handlers b' = b_handlers b \<and> b_tasks b' = b_tasks b \<and>
     length (b_objs b') = length (b_objs b) \<and> (\<forall>x. standing (obj b' x) = standing (obj b x)) \<and>
     (live_ok b \<longrightarrow> live_ok b' \<and>
        (\<forall>ag p. serving b' ag = Some p \<longrightarrow> serving b ag = Some p) \<and>
        (\<forall>k e. lr_count (b_live b) k e \<le> lr_count (b_live b') k e))"

lemma calm_refl [simp]: "calm b b"
  by (simp add: calm_def)

lemma calm_trans: "calm b b' \<Longrightarrow> calm b' b'' \<Longrightarrow> calm b b''"
  unfolding calm_def by (smt (verit, best) order_trans)

lemma calm_upd: "(\<And>r. standing (f r) = standing r) \<Longrightarrow> calm b (upd_obj a f b)"
  by (simp add: calm_def obj_upd_same [where g = standing])

lemma calm_put [simp]: "calm b (put_cmd a c b)" "calm b (put_out a i b)"
  unfolding put_cmd_def put_out_def by (rule calm_upd, simp add: standing_def)+

lemma calm_note_abnormal [simp]:
  "ev \<in> set COUNTERS \<Longrightarrow> calm b (note_abnormal now k ev b)"
  by (auto simp: calm_def note_abnormal_counts intro: serving_note_abnormal_sub)

lemma calm_unregister [simp]: "calm b (unregister_provider now ags b)"
  by (auto simp: calm_def live_ok_def serving_def obj_def queue_of_def standing_def split: if_splits)

lemma calm_push [simp]: "calm b (snd (push now i c b))"
  by (auto simp: push_def intro: calm_trans [OF calm_note_abnormal calm_put(1)] split: option.split)

subsection \<open>The sweep's loop and the expiry only drop queue entries\<close>

text \<open>The loop of \<open>_offer_pending\<close> before its \<open>await\<close> drops exactly the dead heads.\<close>

definition dead :: "'h broker \<Rightarrow> string \<Rightarrow> bool" where
  "dead b run_id = (case dget (b_runs b) run_id of
                      None \<Rightarrow> True | Some a \<Rightarrow> r_cancel_requested (obj b a))"

definition set_queue :: "agent_ref \<Rightarrow> string list \<Rightarrow> 'h broker \<Rightarrow> 'h broker" where
  "set_queue agent q b = b\<lparr>b_pending := dset agent q (b_pending b)\<rparr>"

lemma set_queue_id:
  assumes "dget (b_pending b) agent = Some q"
  shows "set_queue agent q b = b"
proof -
  have "dset agent q d = d" if "dget d agent = Some q" for d
    using that by (induction d) (auto split: if_splits)
  with assms show ?thesis by (simp add: set_queue_def)
qed

lemma set_queue_twice [simp]: "set_queue ag q' (set_queue ag q b) = set_queue ag q' b"
proof -
  have "dset ag q' (dset ag q d) = dset ag q' d" for d :: "(agent_ref, string list) dict"
    by (induction d) auto
  then show ?thesis by (simp add: set_queue_def)
qed

lemma set_queue_obj [simp]: "obj (set_queue ag q b) = obj b"
  by (simp add: set_queue_def obj_def fun_eq_iff)

lemma set_queue_simps [simp]:
  "queue_of (set_queue ag q b) x = (if x = ag then q else queue_of b x)"
  "serving (set_queue ag q b) = serving b"
  "b_runs (set_queue ag q b) = b_runs b"
  "b_capacity (set_queue ag q b) = b_capacity b"
  by (simp_all add: set_queue_def queue_of_def serving_def fun_eq_iff)

lemma dead_set_queue [simp]: "dead (set_queue ag q b) = dead b"
  by (simp add: dead_def fun_eq_iff split: option.split)

lemma queue_remove_head:
  "queue_of b ag = i # q \<Longrightarrow> queue_remove ag i b = set_queue ag q b"
  by (auto simp: queue_of_def queue_remove_def set_queue_def split: option.splits)

theorem scan_drops_dead_heads:
  "scan agent b =
     (case serving b agent of
        None \<Rightarrow> (ScanReturn, b)
      | Some provider \<Rightarrow>
          (let q = dropWhile (dead b) (queue_of b agent);
               b' = (if q = queue_of b agent then b else set_queue agent q b)
           in case q of
                [] \<Rightarrow> (ScanReturn, b')
              | run_id # _ \<Rightarrow>
                  (case (dget (b_runs b) run_id, dget (b_capacity b) (c_public_key provider)) of
                     (Some a, Some c) \<Rightarrow>
                       if has_room c then (ScanOffer a provider, b') else (ScanReturn, b')
                   | (Some a, None) \<Rightarrow> (ScanOffer a provider, b')
                   | (None, _) \<Rightarrow> (ScanReturn, b'))))"
proof (induction "queue_of b agent" arbitrary: b)
  case Nil
  then show ?case
    by (subst scan.simps) (auto simp: Let_def split: option.split)
next
  case (Cons i q)
  note q = Cons.hyps(2) [symmetric]
  show ?case
  proof (cases "serving b agent")
    case None
    then show ?thesis by (subst scan.simps) simp
  next
    case (Some p)
    show ?thesis
    proof (cases "dead b i")
      case False
      with Some q show ?thesis
        by (subst scan.simps) (auto simp: Let_def dead_def split: option.splits)
    next
      case True
      define b1 where "b1 = set_queue agent q b"
      have step: "scan agent b = scan agent b1"
        using Some q True queue_remove_head [OF q]
        by (subst scan.simps) (auto simp: dead_def b1_def split: option.splits)
      have "q = queue_of b1 agent" by (simp add: b1_def)
      note IH = Cons.hyps(1) [OF this]
      have ne: "dropWhile (dead b) q \<noteq> i # q"
        by (metis length_dropWhile_le length_Cons not_less_eq_eq order_refl)
      have same: "(if dropWhile (dead b) q = q then b1
            else set_queue agent (dropWhile (dead b) q) b1) = set_queue agent (dropWhile (dead b) q) b"
        by (simp add: b1_def)
      have dw: "dropWhile (dead b) (i # q) = dropWhile (dead b) q"
        using True by simp
      have reads: "serving b1 = serving b" "dead b1 = dead b" "queue_of b1 agent = q"
          "b_runs b1 = b_runs b" "b_capacity b1 = b_capacity b"
        by (simp_all add: b1_def)
      show ?thesis
        unfolding step IH reads Let_def same q dw using Some ne by simp
    qed
  qed
qed

end
