(* ===== verification/BrokerSteps.thy ===== *)
theory BrokerSteps
  imports BrokerFrames
begin

text \<open>
  The broker as a transition system: the interleavings \<open>asyncio\<close> allows.  A state is a broker and the
  place where its sweep stands.  Callers (doors, transports, rosters), the sweep, and the spawned
  tasks each take their steps in any order.  A handler may do to its own run whatever does not
  change who holds it, and may push a command for it (\<open>_handle_relay\<close> pushes \<open>Fail\<close>); the handlers
  of the theory Handlers are instances.
\<close>

inductive handler_effect :: "address \<Rightarrow> 'h broker \<Rightarrow> 'h broker \<Rightarrow> bool" where
  eff_none: "handler_effect a b b"
| eff_write: "handler_effect a b b' \<Longrightarrow> (\<And>r. standing (f r) = standing r) \<Longrightarrow>
     handler_effect a b (upd_obj a f b')"
| eff_push: "handler_effect a b b' \<Longrightarrow>
     handler_effect a b (snd (push now run_id c b'))"

text \<open>A run id may be queued again (a paused run is resumed) once nothing refers to its former
  \<open>Run\<close> object: it is not tracked, not queued, and neither a task nor the sweep holds it.\<close>

definition unreferenced :: "string \<Rightarrow> 'h broker \<times> sweep \<Rightarrow> bool" where
  "unreferenced run_id st \<longleftrightarrow>
     (let b = fst st in
      dget (b_runs b) run_id = None \<and>
      (\<forall>ag. run_id \<notin> set (queue_of b ag)) \<and>
      (\<forall>t \<in> set (b_tasks b). case t of
           PipelineTask a _ \<Rightarrow> r_run_id (obj b a) \<noteq> run_id
         | OneShotTask a _ \<Rightarrow> r_run_id (obj b a) \<noteq> run_id) \<and>
      (case snd st of Awaiting _ a _ _ _ _ \<Rightarrow> r_run_id (obj b a) \<noteq> run_id | _ \<Rightarrow> True))"

text \<open>\<open>core._Roster.attach\<close> builds every mapping from one connection and its own key.\<close>

definition own_mapping :: "(agent_ref, connection) dict \<Rightarrow> bool" where
  "own_mapping m \<longleftrightarrow> dict_ok m \<and> (\<forall>x \<in> set m. c_public_key (snd x) = ar_provider_key (fst x))"

inductive bstep :: "int \<Rightarrow> 'h broker \<times> sweep \<Rightarrow> 'h broker \<times> sweep \<Rightarrow> bool"
  for timeout :: int
where
  s_start: "bstep timeout (b, sw) (start b, sw)"
| s_stop: "bstep timeout (b, sw) (stop b, Sleeping)"
| s_enqueue: "unreferenced run_id (b, sw) \<Longrightarrow>
    enqueue_run now run_id agent thread inp protocol (Some h) seq b = Inr (a, b') \<Longrightarrow>
    bstep timeout (b, sw) (b', sw)"
| s_register: "own_mapping m \<Longrightarrow> bstep timeout (b, sw) (register_provider m b, sw)"
| s_unregister: "bstep timeout (b, sw) (unregister_provider now agents b, sw)"
| s_push: "bstep timeout (b, sw) (snd (push now run_id c b), sw)"
| s_cancel: "bstep timeout (b, sw) (snd (request_cancel run_id b), sw)"
| s_late_ack: "bstep timeout (b, sw) (snd (accept_late_ack now run_id key b), sw)"
| s_sweep_begin: "sweep_begin now timeout b = (sw', b') \<Longrightarrow> bstep timeout (b, Sleeping) (b', sw')"
| s_walk: "walk_agent ag False rest placed b = (sw', b') \<Longrightarrow>
    bstep timeout (b, Walking (ag # rest) placed) (b', sw')"
| s_sleep: "bstep timeout (b, Walking [] placed) (b, Sleeping)"
| s_answer: "sweep_answer now ag a p here rest placed ans b = (sw', b') \<Longrightarrow>
    bstep timeout (b, Awaiting ag a p here rest placed) (b', sw')"
| s_pipeline: "PipelineTask a h \<in> set (b_tasks b) \<Longrightarrow> r_in_queue (obj b a) = cmd # cmds \<Longrightarrow>
    handler_effect a (upd_obj a (\<lambda>r. r\<lparr>r_in_queue := cmds\<rparr>) b) b' \<Longrightarrow>
    b'' = (if pipeline_stops (obj b' a) cmd
           then end_run a (b'\<lparr>b_tasks := remove1 (PipelineTask a h) (b_tasks b')\<rparr>) else b') \<Longrightarrow>
    bstep timeout (b, sw) (b'', sw)"
| s_one_shot: "OneShotTask a cmd \<in> set (b_tasks b) \<Longrightarrow>
    handler_effect a (b\<lparr>b_tasks := remove1 (OneShotTask a cmd) (b_tasks b)\<rparr>) b' \<Longrightarrow>
    bstep timeout (b, sw) (end_run a b', sw)"

definition binit :: "'h broker \<times> sweep \<Rightarrow> bool" where
  "binit st \<longleftrightarrow> (\<exists>tolerance. st = (new_broker tolerance, Sleeping))"

inductive_cases pipeline_effectE: "handler_effect a b b'"

inductive_simps bstep_from_sleep: "bstep timeout (b, Walking [] placed) st"

lemma calm_handler_effect: "handler_effect a b b' \<Longrightarrow> calm b b'"
  by (induction rule: handler_effect.induct)
    (auto intro: calm_trans [OF _ calm_upd] calm_trans [OF _ calm_push])

end
