(* ===== verification/BrokerInv.thy ===== *)
theory BrokerInv
  imports BrokerSteps
begin

text \<open>
  Invariants of the broker: its tables agree with each other (\<open>broker_wf\<close>), a provider's in-flight
  figure covers the runs it holds (\<open>covered\<close>) and exceeds its declared limit only by the late
  answers it gave (\<open>bounded\<close>), and every tracked run is accounted for (\<open>accounted\<close>).  Each is an
  interpretation of \<open>inductive_invariant\<close> on \<^const>\<open>bstep\<close>.
\<close>

subsection \<open>Well-formedness\<close>

definition tracked_ok :: "'h broker \<Rightarrow> bool" where
  "tracked_ok b \<longleftrightarrow> dict_ok (b_runs b) \<and>
     (\<forall>i a. dget (b_runs b) i = Some a \<longrightarrow> a < length (b_objs b) \<and> r_run_id (obj b a) = i)"

definition known_key :: "'h broker \<Rightarrow> string \<Rightarrow> bool" where
  "known_key b k \<longleftrightarrow> dget (b_capacity b) k \<noteq> None"

definition served_ok :: "'h broker \<Rightarrow> bool" where
  "served_ok b \<longleftrightarrow> live_ok b \<and>
     (\<forall>ag p. serving b ag = Some p \<longrightarrow>
        c_public_key p = ar_provider_key ag \<and> known_key b (ar_provider_key ag))"

fun task_address :: "'h task \<Rightarrow> address" where
  "task_address (PipelineTask a h) = a"
| "task_address (OneShotTask a c) = a"

definition tasks_ok :: "'h broker \<Rightarrow> bool" where
  "tasks_ok b \<longleftrightarrow> (\<forall>t \<in> set (b_tasks b). task_address t < length (b_objs b))"

definition claims_ok :: "'h broker \<Rightarrow> bool" where
  "claims_ok b \<longleftrightarrow>
     (\<forall>a k. a < length (b_objs b) \<longrightarrow> r_claimed_by (obj b a) = Some k \<longrightarrow> known_key b k)"

definition places_ok :: "'h broker \<Rightarrow> bool" where
  "places_ok b \<longleftrightarrow> (\<forall>k c. dget (b_capacity b) k = Some c \<longrightarrow> 0 \<le> cap_in_flight c)"

definition sweep_ok :: "'h broker \<times> sweep \<Rightarrow> bool" where
  "sweep_ok st \<longleftrightarrow> (case snd st of
     Awaiting ag a p here rest placed \<Rightarrow>
       a < length (b_objs (fst st)) \<and> known_key (fst st) (c_public_key p)
   | _ \<Rightarrow> True)"

definition core_wf :: "'h broker \<Rightarrow> bool" where
  "core_wf b \<longleftrightarrow>
     tracked_ok b \<and> served_ok b \<and> tasks_ok b \<and> claims_ok b \<and> places_ok b"

definition broker_wf :: "'h broker \<times> sweep \<Rightarrow> bool" where
  "broker_wf st \<longleftrightarrow> core_wf (fst st) \<and> sweep_ok st"

lemmas core_wf_defs = core_wf_def tracked_ok_def served_ok_def tasks_ok_def claims_ok_def
  places_ok_def known_key_def

lemma core_wfI:
  assumes "tracked_ok b" "served_ok b" "tasks_ok b" "claims_ok b" "places_ok b"
  shows "core_wf b"
  using assms by (simp add: core_wf_def)

lemma core_wfD:
  assumes "core_wf b"
  shows "tracked_ok b" "served_ok b" "tasks_ok b" "claims_ok b" "places_ok b"
  using assms by (simp_all add: core_wf_def)

lemma served_okD:
  assumes "served_ok b" "serving b ag = Some p"
  shows "c_public_key p = ar_provider_key ag" "known_key b (ar_provider_key ag)"
    "known_key b (c_public_key p)"
  using assms unfolding served_ok_def by auto

text \<open>What a step that enqueues nothing and registers nobody has to show.\<close>

lemma core_wf_step:
  assumes w: "core_wf b"
    and runs: "dict_ok (b_runs b')" "\<And>i x. dget (b_runs b') i = Some x \<Longrightarrow> dget (b_runs b) i = Some x"
    and objs: "length (b_objs b') = length (b_objs b)"
      "\<And>x. r_run_id (obj b' x) = r_run_id (obj b x)"
    and live: "live_ok b'" "\<And>ag p. serving b' ag = Some p \<Longrightarrow> serving b ag = Some p"
    and keys: "\<And>k. known_key b k \<Longrightarrow> known_key b' k"
    and tasks: "\<And>t. t \<in> set (b_tasks b') \<Longrightarrow> t \<in> set (b_tasks b) \<or> task_address t < length (b_objs b)"
    and claims: "\<And>x k. x < length (b_objs b) \<Longrightarrow> r_claimed_by (obj b' x) = Some k \<Longrightarrow>
       r_claimed_by (obj b x) = Some k \<or> known_key b k"
    and places: "\<And>k c. dget (b_capacity b') k = Some c \<Longrightarrow> 0 \<le> cap_in_flight c"
  shows "core_wf b'"
proof (rule core_wfI)
  show "tracked_ok b'"
    using core_wfD(1) [OF w] runs objs unfolding tracked_ok_def by metis
  show "served_ok b'"
    using core_wfD(2) [OF w] live keys unfolding served_ok_def by blast
  show "tasks_ok b'"
    using core_wfD(3) [OF w] tasks objs(1) unfolding tasks_ok_def by auto
  show "claims_ok b'"
    using core_wfD(4) [OF w] claims keys objs(1) unfolding claims_ok_def by metis
  show "places_ok b'"
    using places unfolding places_ok_def by blast
qed

lemma core_wf_facts:
  assumes "core_wf b"
  shows "dict_ok (b_runs b)" "live_ok b"
    "dget (b_runs b) i = Some x \<Longrightarrow> x < length (b_objs b)"
    "dget (b_runs b) i = Some x \<Longrightarrow> r_run_id (obj b x) = i"
    "dget (b_capacity b) k = Some c \<Longrightarrow> 0 \<le> cap_in_flight c"
    "t \<in> set (b_tasks b) \<Longrightarrow> task_address t < length (b_objs b)"
    "x < length (b_objs b) \<Longrightarrow> r_claimed_by (obj b x) = Some k \<Longrightarrow> known_key b k"
  using assms unfolding core_wf_defs by blast+

lemma calm_wf: "calm b b' \<Longrightarrow> core_wf b \<Longrightarrow> core_wf b'"
proof -
  assume c: "calm b b'" and w: "core_wf b"
  have st: "standing (obj b' x) = standing (obj b x)" for x
    using c by (simp add: calm_def)
  note st = st [THEN standing_eqD(1)] st [THEN standing_eqD(3)]
  show "core_wf b'"
    by (rule core_wf_step [OF w])
      (use c core_wf_facts [OF w] st in \<open>auto simp: calm_def known_key_def\<close>)
qed

lemma core_wf_spawn:
  "core_wf b \<Longrightarrow> task_address t < length (b_objs b) \<Longrightarrow> core_wf (spawn t b)"
  by (rule core_wf_step, assumption)
    (auto simp: known_key_def core_wf_facts dest: core_wf_facts)

lemma core_wf_queue_remove: "core_wf b \<Longrightarrow> core_wf (queue_remove ag i b)"
  by (rule core_wf_step, assumption)
    (auto simp: known_key_def core_wf_facts dest: core_wf_facts)

lemma live_ok_capacity [simp]:
  "live_ok (take_capacity k b) = live_ok b" "live_ok (forget i b) = live_ok b"
  "live_ok (claim_run a p b) = live_ok b"
  "serving (take_capacity k b) = serving b" "serving (forget i b) = serving b"
  "serving (claim_run a p b) = serving b"
  by (simp_all add: live_ok_def serving_def fun_eq_iff)

lemma core_wf_take: "core_wf b \<Longrightarrow> core_wf (take_capacity k b)"
  by (rule core_wf_step, assumption)
    (auto simp: known_key_def dget_take_capacity core_wf_facts split: if_splits
      dest: core_wf_facts(5))

lemma core_wf_forget: "core_wf b \<Longrightarrow> core_wf (forget i b)"
  by (rule core_wf_step, assumption)
    (auto simp: known_key_def dget_forget_capacity core_wf_facts dict_ok_dpop room_freed_def
      split: if_splits dest: core_wf_facts(5))

lemma core_wf_claim:
  assumes "core_wf b" "a < length (b_objs b)" "known_key b (c_public_key p)"
  shows "core_wf (claim_run a p b)"
  by (rule core_wf_step [OF assms(1)])
    (use assms in \<open>auto simp: claim_run_obj claim_run_tasks known_key_def core_wf_facts
       split: option.splits if_splits dest: core_wf_facts(5)\<close>)

lemma core_wf_end_run: "core_wf b \<Longrightarrow> core_wf (end_run a b)"
  unfolding end_run_def by (intro core_wf_forget calm_wf [OF calm_put(2)])

lemma core_wf_less_tasks: "core_wf b \<Longrightarrow> core_wf (b\<lparr>b_tasks := remove1 t (b_tasks b)\<rparr>)"
  by (rule core_wf_step, assumption)
    (auto simp: known_key_def obj_def live_ok_def serving_def core_wf_facts
      dest: set_remove1_subset [THEN subsetD] core_wf_facts(2,5))

lemma core_wf_capacity:
  assumes "core_wf b" "0 \<le> cap_in_flight c"
  shows "core_wf (b\<lparr>b_capacity := dset k c (b_capacity b)\<rparr>)"
  by (rule core_wf_step [OF assms(1)])
    (use assms in \<open>auto simp: known_key_def obj_def live_ok_def serving_def core_wf_facts
      dest: core_wf_facts(2,5) split: if_splits\<close>)

lemma dget_default_capacity:
  "dget (default_capacity cs d) k =
     (case dget d k of
        Some c \<Rightarrow> Some c
      | None \<Rightarrow> map_option (\<lambda>p. \<lparr>cap_declared = c_max_concurrent_runs p, cap_in_flight = 0\<rparr>)
                  (find (\<lambda>p. c_public_key p = k) cs))"
  by (induction cs d rule: default_capacity.induct) (auto split: option.split)

lemma core_wf_register:
  assumes w: "core_wf b" and m: "own_mapping m"
  shows "core_wf (register_provider m b)"
proof -
  let ?b = "register_provider m b"
  have grows: "known_key b k \<Longrightarrow> known_key ?b k" for k
    by (auto simp: known_key_def register_provider_def dget_default_capacity)
  have new: "known_key ?b (c_public_key p)" if "p \<in> snd ` set m" for p
  proof (cases "find (\<lambda>q. c_public_key q = c_public_key p) (map snd m)")
    case None
    with that show ?thesis by (auto simp: find_None_iff)
  qed (auto simp: known_key_def register_provider_def dget_default_capacity split: option.split)
  have srv: "serving ?b ag = Some p \<Longrightarrow> dget m ag = Some p \<or> serving b ag = Some p" for ag p
    using m by (auto simp: serving_def register_provider_def lr_serving_attach own_mapping_def
        split: option.splits)
  have s: "served_ok ?b"
  proof -
    have "live_ok ?b" using w by (simp add: core_wf_defs live_ok_def register_provider_def)
    moreover have "c_public_key p = ar_provider_key ag \<and> known_key ?b (c_public_key p)"
      if "serving ?b ag = Some p" for ag p
      using srv [OF that]
    proof
      assume "dget m ag = Some p"
      then have "(ag, p) \<in> set m" by (rule dget_in_set)
      with m new [of p] show ?thesis by (force simp: own_mapping_def)
    next
      assume "serving b ag = Some p"
      with w grows [of "c_public_key p"] show ?thesis
        by (auto simp: core_wf_def served_ok_def)
    qed
    ultimately show ?thesis unfolding served_ok_def by metis
  qed
  have p: "places_ok ?b"
    using w by (auto simp: core_wf_defs register_provider_def dget_default_capacity
        split: option.splits)
  have c: "claims_ok ?b"
    using w grows by (auto simp: core_wf_def claims_ok_def register_provider_def obj_def)
  show ?thesis
    using w s p c by (simp add: core_wf_def tracked_ok_def tasks_ok_def register_provider_def obj_def)
qed

lemma enqueue_result:
  assumes "enqueue_run now i ag th inp pr (Some h) seq b = Inr (a, b')"
  shows "a = length (b_objs b)" "length (b_objs b') = Suc a"
    "\<And>x. x < a \<Longrightarrow> obj b' x = obj b x" "r_run_id (obj b' a) = i" "r_agent (obj b' a) = ag"
    "r_claimed_by (obj b' a) = None" "r_cancel_requested (obj b' a) = False"
    "b_runs b' = dset i a (b_runs b)" "b_capacity b' = b_capacity b" "b_live b' = b_live b"
    "b_tasks b' = b_tasks b" "b_handlers b' = dset i h (b_handlers b)"
    "queue_of b' = (queue_of b)(ag := queue_of b ag @ [i])"
  using assms by (auto simp: enqueue_run_def Let_def obj_def nth_append queue_of_def fun_eq_iff
      split: if_splits)

lemma core_wf_enqueue:
  assumes w: "core_wf b" and e: "enqueue_run now i ag th inp pr (Some h) seq b = Inr (a, b')"
  shows "core_wf b'"
proof -
  note r = enqueue_result [OF e]
  have old: "obj b' x = obj b x" if "x < length (b_objs b)" for x
    using r(3) that by (simp add: r(1))
  have srv: "serving b' = serving b" "live_ok b' = live_ok b"
    using r(10) by (simp_all add: serving_def live_ok_def fun_eq_iff)
  show ?thesis
  proof (rule core_wfI)
    show "tracked_ok b'"
      using core_wf_facts [OF w] r(1,2,4,8) old
      unfolding tracked_ok_def by (auto simp: dict_ok_dset less_Suc_eq split: if_splits)
    show "served_ok b'"
      using core_wfD(2) [OF w] unfolding served_ok_def known_key_def srv r(9) .
    show "tasks_ok b'"
      using core_wfD(3) [OF w] r(1,2,11) unfolding tasks_ok_def by (auto simp: less_Suc_eq)
    show "claims_ok b'"
      using core_wfD(4) [OF w] r(1,2,6,9) old
      unfolding claims_ok_def known_key_def by (auto simp: less_Suc_eq)
    show "places_ok b'"
      using core_wfD(5) [OF w] unfolding places_ok_def r(9) .
  qed
qed

lemma request_cancel_fields:
  assumes "core_wf b" "dget (b_runs b) i = Some a"
  shows "snd (request_cancel i b) =
     (let b' = upd_obj a (\<lambda>r. r\<lparr>r_cancel_requested := True\<rparr>) b
      in if r_claimed_by (obj b a) \<noteq> None then put_cmd a RequestCancel b'
         else spawn (OneShotTask a RequestCancel) b')"
  using assms core_wf_facts(3) [OF assms]
  by (simp add: request_cancel_def Let_def obj_upd_obj)

lemma core_wf_mark_cancelled:
  assumes "core_wf b"
  shows "core_wf (upd_obj a (\<lambda>r. r\<lparr>r_cancel_requested := True\<rparr>) b)"
  by (rule core_wf_step [OF assms])
    (auto simp: known_key_def core_wf_facts [OF assms] obj_upd_same [where g = r_run_id]
      obj_upd_same [where g = r_claimed_by])

lemma core_wf_cancel: "core_wf b \<Longrightarrow> core_wf (snd (request_cancel i b))"
proof (cases "dget (b_runs b) i")
  case (Some a)
  assume w: "core_wf b"
  note m = core_wf_mark_cancelled [OF w, of a]
  show ?thesis
    unfolding request_cancel_fields [OF w Some] Let_def
    using calm_wf [OF calm_put(1) m] core_wf_spawn [OF m] core_wf_facts(3) [OF w Some] by simp
qed (simp add: request_cancel_def)

end
