(* ===== verification/BrokerMoves.thy ===== *)
theory BrokerMoves
  imports BrokerInv
begin

text \<open>
  The steps of the broker, decomposed.  A step of \<^const>\<open>bstep\<close> is a sequence of \<open>move\<close>s, and there are
  only nine kinds of those; an invariant is checked against the moves and then holds of every
  reachable state (\<open>reach_move\<close>).
\<close>

subsection \<open>Dropping queue entries\<close>

text \<open>\<open>pruned b b'\<close>: only queue entries were dropped, each of a dead run or of one that a new task
  now ends.\<close>

definition ended_by :: "'h broker \<Rightarrow> 'h task list \<Rightarrow> string \<Rightarrow> bool" where
  "ended_by b ts i \<longleftrightarrow> (\<exists>t \<in> set ts. dget (b_runs b) i = Some (task_address t))"

definition pruned :: "'h broker \<Rightarrow> 'h broker \<Rightarrow> bool" where
  "pruned b b' \<longleftrightarrow>
     b_objs b' = b_objs b \<and> b_runs b' = b_runs b \<and> b_live b' = b_live b \<and>
     b_capacity b' = b_capacity b \<and> b_handlers b' = b_handlers b \<and>
     (\<forall>ag. subseq (queue_of b' ag) (queue_of b ag)) \<and>
     (\<exists>ts. b_tasks b' = b_tasks b @ ts \<and>
        (\<forall>t \<in> set ts. \<exists>i. dget (b_runs b) i = Some (task_address t)) \<and>
        (\<forall>ag. \<forall>i \<in> set (queue_of b ag). i \<in> set (queue_of b' ag) \<or> dead b i \<or> ended_by b ts i))"

lemma remove1_gone: "x \<in> set xs \<Longrightarrow> x \<notin> set (remove1 y xs) \<Longrightarrow> x = y"
  by (metis in_set_remove1)

lemma pruned_refl [simp]: "pruned b b"
  by (auto simp: pruned_def)

lemma pruned_obj: "pruned b b' \<Longrightarrow> obj b' = obj b"
  by (simp add: pruned_def obj_def fun_eq_iff)

lemma dead_cong: "b_runs b' = b_runs b \<Longrightarrow> obj b' = obj b \<Longrightarrow> dead b' = dead b"
  by (intro ext) (simp add: dead_def split: option.split)

lemma pruned_trans:
  assumes "pruned b b'" "pruned b' b''"
  shows "pruned b b''"
proof -
  from assms(1) obtain ts where 1: "b_tasks b' = b_tasks b @ ts"
      "\<forall>t \<in> set ts. \<exists>i. dget (b_runs b) i = Some (task_address t)"
      "\<And>ag i. i \<in> set (queue_of b ag) \<Longrightarrow>
         i \<in> set (queue_of b' ag) \<or> dead b i \<or> ended_by b ts i"
    unfolding pruned_def by blast
  from assms(2) obtain us where 2: "b_tasks b'' = b_tasks b' @ us"
      "\<forall>t \<in> set us. \<exists>i. dget (b_runs b') i = Some (task_address t)"
      "\<And>ag i. i \<in> set (queue_of b' ag) \<Longrightarrow>
         i \<in> set (queue_of b'' ag) \<or> dead b' i \<or> ended_by b' us i"
    unfolding pruned_def by blast
  have same: "b_runs b' = b_runs b" "dead b' = dead b"
    using assms(1) pruned_obj [OF assms(1)] by (auto intro: dead_cong simp: pruned_def)
  have eb: "ended_by b (ts @ us) i \<longleftrightarrow> ended_by b ts i \<or> ended_by b' us i" for i
    by (auto simp: ended_by_def same)
  have q: "\<forall>ag. \<forall>i \<in> set (queue_of b ag).
      i \<in> set (queue_of b'' ag) \<or> dead b i \<or> ended_by b (ts @ us) i"
    using 1(3) 2(3) unfolding eb same by blast
  have t: "\<forall>t \<in> set (ts @ us). \<exists>i. dget (b_runs b) i = Some (task_address t)"
    using 1(2) 2(2) by (auto simp: same)
  have s: "\<forall>ag. subseq (queue_of b'' ag) (queue_of b ag)"
    using assms unfolding pruned_def by (metis subseq_order.trans)
  have "b_tasks b'' = b_tasks b @ (ts @ us)" using 1(1) 2(1) by simp
  then show ?thesis
    using assms q t s unfolding pruned_def by (simp; blast)
qed

lemma pruned_queue_remove:
  assumes "dead b i"
  shows "pruned b (queue_remove ag i b)"
  using assms by (auto simp: pruned_def queue_of_remove dest: remove1_gone intro: exI [of _ "[]"])

lemma pruned_expired:
  assumes "dget (b_runs b) i = Some a"
  shows "pruned b (spawn (OneShotTask a c) (queue_remove ag i b))"
  unfolding pruned_def
  using assms
  by (auto simp: queue_of_remove ended_by_def dest: remove1_gone)

lemma pruned_scan: "pruned b (snd (scan ag b))"
proof (induction ag b rule: scan.induct)
  case (1 ag b)
  show ?case
    by (subst scan.simps)
      (auto split: option.split list.split intro: pruned_trans [OF pruned_queue_remove 1(1)]
        pruned_trans [OF pruned_queue_remove 1(2)] simp: dead_def)
qed

lemma scan_offer:
  assumes "scan ag b = (ScanOffer a p, b')"
  shows "serving b ag = Some p" "r_cancel_requested (obj b a) = False"
    "\<exists>i q. queue_of b' ag = i # q \<and> dget (b_runs b) i = Some a"
    "\<And>c. dget (b_capacity b) (c_public_key p) = Some c \<Longrightarrow> has_room c"
  using assms
proof (induction ag b arbitrary: b' rule: scan.induct)
  case (1 ag b)
  {
    case 1
    then show ?case using "1.IH"(1,5)
      by (subst (asm) scan.simps) (auto split: option.splits list.splits if_splits)
  next
    case 2
    then show ?case using "1.IH"(2,6)
      by (subst (asm) scan.simps) (auto split: option.splits list.splits if_splits)
  next
    case 3
    then show ?case using "1.IH"(3,7)
      by (subst (asm) scan.simps) (auto split: option.splits list.splits if_splits)
  next
    case (4 c)
    then show ?case using "1.IH"(4,8)
      by (subst (asm) scan.simps) (auto split: option.splits list.splits if_splits)
  }
qed

lemma pruned_expire_agent: "pruned b (snd (expire_agent now cutoff ag ids b))"
proof (induction now cutoff ag ids b rule: expire_agent.induct)
  case (2 now cutoff ag i ids b)
  show ?case
  proof (cases "dget (b_runs b) i")
    case None
    with 2(1) show ?thesis by simp
  next
    case (Some a)
    let ?b = "spawn (OneShotTask a (Fail ''no_provider_took_it'')) (queue_remove ag i b)"
    obtain es b1 where e: "expire_agent now cutoff ag ids ?b = (es, b1)"
      by (cases "expire_agent now cutoff ag ids ?b")
    show ?thesis
      using 2(2) [OF Some refl] 2(3) [OF Some refl] Some e
        pruned_trans [OF pruned_expired [OF Some, of "Fail ''no_provider_took_it''" ag], of b1]
      by (simp add: Let_def)
  qed
qed simp

lemma pruned_expire_agents: "pruned b (snd (expire_agents now cutoff ags b))"
proof (induction now cutoff ags b rule: expire_agents.induct)
  case (2 now cutoff ag ags b)
  show ?case
  proof (cases "serving b ag")
    case (Some p)
    with 2(1) show ?thesis by simp
  next
    case None
    obtain es b1 where e: "expire_agent now cutoff ag (queue_of b ag) b = (es, b1)"
      by (cases "expire_agent now cutoff ag (queue_of b ag) b")
    have "pruned b b1" using pruned_expire_agent [of b now cutoff ag "queue_of b ag"] e by simp
    moreover have "pruned b1 (snd (expire_agents now cutoff ags b1))"
      using 2(2) [of "(es, b1)"] None e by simp
    ultimately show ?thesis
      using None e pruned_trans by (auto simp: split: prod.split)
  qed
qed simp

subsection \<open>Moves\<close>

fun awaiting :: "sweep \<Rightarrow> bool" where
  "awaiting (Awaiting ag a p here rest placed) = True"
| "awaiting _ = False"

text \<open>What holds at the moment an offer goes out.\<close>

fun offered :: "'h broker \<Rightarrow> sweep \<Rightarrow> bool" where
  "offered b (Awaiting ag a p here rest placed) \<longleftrightarrow>
     serving b ag = Some p \<and> r_cancel_requested (obj b a) = False \<and>
     (\<exists>i q. queue_of b ag = i # q \<and> dget (b_runs b) i = Some a) \<and>
     (\<forall>c. dget (b_capacity b) (c_public_key p) = Some c \<longrightarrow> has_room c)"
| "offered b _ \<longleftrightarrow> True"

inductive move :: "'h broker \<times> sweep \<Rightarrow> 'h broker \<times> sweep \<Rightarrow> bool" where
  m_calm: "calm b b' \<Longrightarrow> sw' = sw \<or> \<not> awaiting sw' \<Longrightarrow> move (b, sw) (b', sw')"
| m_enqueue: "unreferenced run_id (b, sw) \<Longrightarrow>
    enqueue_run now run_id agent thread inp protocol (Some h) seq b = Inr (a, b') \<Longrightarrow>
    move (b, sw) (b', sw)"
| m_register: "own_mapping m \<Longrightarrow> move (b, sw) (register_provider m b, sw)"
| m_cancel: "move (b, sw) (snd (request_cancel run_id b), sw)"
| m_late: "dget (b_runs b) run_id = Some a \<Longrightarrow> r_claimed_by (obj b a) = None \<Longrightarrow>
    serving b (r_agent (obj b a)) = Some p \<Longrightarrow>
    move (b, sw)
      (claim_run a p (note_abnormal now (c_public_key p) ''answered_late''
        (take_capacity (c_public_key p) (queue_remove (r_agent (obj b a)) run_id b))), sw)"
| m_prune: "pruned b b' \<Longrightarrow> offered b' sw' \<Longrightarrow> \<not> awaiting sw \<Longrightarrow> move (b, sw) (b', sw')"
| m_refused: "move (b, Awaiting ag a p here rest placed)
    (queue_remove ag (r_run_id (obj b a)) (spawn (OneShotTask a (Fail reason)) b),
     Walking rest placed)"
| m_placed: "move (b, Awaiting ag a p here rest placed)
    (queue_remove ag (r_run_id (obj b a))
       (claim_run a p (take_capacity (c_public_key p) b)), Walking rest placed)"
| m_full: "dget (b_capacity b) (c_public_key p) = Some c \<Longrightarrow> has_room c \<Longrightarrow>
    cap_declared c = Some d \<Longrightarrow>
    move (b, Awaiting ag a p here rest placed)
      (b\<lparr>b_capacity := dset (c_public_key p) (c\<lparr>cap_in_flight := d\<rparr>) (b_capacity b)\<rparr>,
       Walking rest placed)"
| m_end: "t \<in> set (b_tasks b) \<Longrightarrow>
    calm (b\<lparr>b_tasks := remove1 t (b_tasks b)\<rparr>) b1 \<Longrightarrow>
    move (b, sw) (end_run (task_address t) b1, sw)"

definition moves :: "'h broker \<times> sweep \<Rightarrow> 'h broker \<times> sweep \<Rightarrow> bool" where
  "moves = move\<^sup>*\<^sup>*"

lemma moves_refl [simp]: "moves s s"
  by (simp add: moves_def)

lemma moves_one: "move s t \<Longrightarrow> moves s t"
  by (simp add: moves_def)

lemma moves_then: "move s t \<Longrightarrow> moves t u \<Longrightarrow> moves s u"
  by (simp add: moves_def)

lemma moves_last: "moves s t \<Longrightarrow> move t u \<Longrightarrow> moves s u"
  by (simp add: moves_def)

lemma walk_agent_move:
  assumes "walk_agent ag here rest placed b = (sw', b')" "\<not> awaiting sw"
  shows "move (b, sw) (b', sw')"
proof -
  obtain r b1 where s: "scan ag b = (r, b1)" by (cases "scan ag b")
  have p: "pruned b b1" using pruned_scan [of b ag] s by simp
  have same: "serving b1 = serving b" "obj b1 = obj b" "b_runs b1 = b_runs b"
      "b_capacity b1 = b_capacity b"
    using p pruned_obj [OF p] by (simp_all add: pruned_def serving_def fun_eq_iff)
  show ?thesis
  proof (cases r)
    case ScanReturn
    with assms s p show ?thesis by (auto simp: walk_agent_def intro!: m_prune)
  next
    case (ScanOffer a q)
    with assms(1) s have "b' = b1" "sw' = Awaiting ag a q here rest placed"
      by (simp_all add: walk_agent_def)
    moreover note scan_offer [of ag b a q b1]
    ultimately show ?thesis
      using p assms(2) s ScanOffer same by (auto intro!: m_prune)
  qed
qed

lemma offer_answer_moves:
  assumes "offer_answer now a p ans b = (out, b1)"
  shows "out = NotPlaced \<Longrightarrow> moves (b, Awaiting ag a p here rest placed) (b1, Walking rest placed')"
    and "out = Refused \<Longrightarrow> move (b, Awaiting ag a p here rest placed)
           (queue_remove ag (r_run_id (obj b a)) b1, Walking rest placed)"
    and "out = Placed \<Longrightarrow> move (b, Awaiting ag a p here rest placed)
           (queue_remove ag (r_run_id (obj b a)) b1, Walking rest placed)"
proof -
  let ?s = "Awaiting ag a p here rest placed" and ?w = "Walking rest placed'"
  have unanswered: "moves (b, ?s) (note_abnormal now (c_public_key p) ''unanswered'' b, ?w)"
    by (intro moves_one m_calm) simp_all
  have same: "moves (b, ?s) (b, ?w)"
    by (intro moves_one m_calm) simp_all
  let ?n = "note_abnormal now (c_public_key p) ''misdeclared'' b"
  have noted: "move (b, ?s) (?n, ?s)" "moves (b, ?s) (?n, ?w)"
    by (intro m_calm moves_one [OF m_calm]; simp)+
  have full: "moves (b, ?s)
      (?n\<lparr>b_capacity := dset (c_public_key p) (c\<lparr>cap_in_flight := d\<rparr>) (b_capacity b)\<rparr>, ?w)"
    if "dget (b_capacity b) (c_public_key p) = Some c" "has_room c" "cap_declared c = Some d" for c d
    using moves_then [OF noted(1) moves_one [OF m_full [of ?n p c d ag a here rest placed]]] that
      moves_last [OF _ m_calm [OF calm_refl]] by fastforce
  show "moves (b, ?s) (b1, ?w)" if "out = NotPlaced"
    using assms that unanswered same noted(2) full
    by (auto simp: offer_answer_def Let_def split: answer.splits option.splits if_splits)
  show "move (b, ?s) (queue_remove ag (r_run_id (obj b a)) b1, Walking rest placed)"
    if "out = Refused"
    using assms that
    by (auto simp: offer_answer_def Let_def intro: m_refused split: answer.splits if_splits)
  show "move (b, ?s) (queue_remove ag (r_run_id (obj b a)) b1, Walking rest placed)"
    if "out = Placed"
    using assms that
    by (auto simp: offer_answer_def Let_def intro: m_placed split: answer.splits if_splits)
qed

lemma sweep_answer_moves:
  assumes "sweep_answer now ag a p here rest placed ans b = (sw', b')"
  shows "moves (b, Awaiting ag a p here rest placed) (b', sw')"
proof -
  obtain out b1 where o: "offer_answer now a p ans b = (out, b1)"
    by (cases "offer_answer now a p ans b")
  note m = offer_answer_moves [OF o]
  show ?thesis
  proof (cases out)
    case NotPlaced
    with assms o m(1) show ?thesis by (auto simp: sweep_answer_def Let_def)
  next
    case Refused
    with assms o have "walk_agent ag here rest placed (queue_remove ag (r_run_id (obj b a)) b1) = (sw', b')"
      by (simp add: sweep_answer_def Let_def)
    from walk_agent_move [OF this] m(2) [OF Refused] show ?thesis
      by (meson awaiting.simps(3) moves_one moves_last)
  next
    case Placed
    with assms o have "walk_agent ag True rest placed (queue_remove ag (r_run_id (obj b a)) b1) = (sw', b')"
      by (simp add: sweep_answer_def Let_def)
    from walk_agent_move [OF this] m(3) [OF Placed] show ?thesis
      by (meson awaiting.simps(3) moves_one moves_last)
  qed
qed

lemma sweep_begin_move:
  assumes "sweep_begin now timeout b = (sw', b')"
  shows "move (b, Sleeping) (b', sw')"
proof -
  let ?e = "snd (expire_queued now timeout b)"
  have p: "pruned b ?e" unfolding expire_queued_def by (rule pruned_expire_agents)
  have "pruned ?e (?e\<lparr>b_work_to_do := False\<rparr>)"
    by (auto simp: pruned_def queue_of_def)
  with assms p show ?thesis
    by (auto simp: sweep_begin_def Let_def intro!: m_prune elim: pruned_trans)
qed

lemma bstep_moves: "bstep timeout s t \<Longrightarrow> moves s t"
proof (induction rule: bstep.induct)
  case (s_start b sw)
  have "calm b (start b)"
    by (auto simp: calm_def start_def obj_def queue_of_def live_ok_def serving_def)
  then show ?case by (intro moves_one m_calm) simp_all
next
  case (s_stop b sw)
  have "calm b (stop b)"
    by (auto simp: calm_def stop_def obj_def queue_of_def live_ok_def serving_def)
  then show ?case by (intro moves_one m_calm) simp_all
next
  case (s_late_ack b sw now run_id key)
  show ?case
    by (auto simp: accept_late_ack_def intro!: moves_one m_late split: option.split)
next
  case (s_pipeline a h b cmd cmds b' b'' sw)
  let ?b = "upd_obj a (\<lambda>r. r\<lparr>r_in_queue := cmds\<rparr>) b"
  have c: "calm b ?b" by (rule calm_upd) (simp add: standing_def)
  have e: "calm ?b b'" by (rule calm_handler_effect [OF s_pipeline(3)])
  note c' = calm_trans [OF c e]
  then have m: "move (b, sw) (b', sw)" by (auto intro: m_calm)
  have t: "PipelineTask a h \<in> set (b_tasks b')" using s_pipeline(1) c' by (simp add: calm_def)
  have "move (b', sw) (end_run a (b'\<lparr>b_tasks := remove1 (PipelineTask a h) (b_tasks b')\<rparr>), sw)"
    using m_end [OF t calm_refl] by simp
  with m s_pipeline(4) show ?case by (auto intro: moves_one moves_then)
next
  case (s_one_shot a cmd b b' sw)
  then show ?case
    using m_end [OF s_one_shot(1) calm_handler_effect] by (auto intro!: moves_one)
next
  case (s_answer now ag a p here rest placed ans b sw' b')
  then show ?case by (rule sweep_answer_moves)
qed (auto intro!: moves_one intro: move.intros sweep_begin_move walk_agent_move)

lemma reach_move: "reach binit (bstep timeout) s \<Longrightarrow> reach binit move s"
proof (induction rule: reach.induct)
  case (reach_step s t)
  have "reach binit move t" if "moves s t" "reach binit move s" for s t
    using that unfolding moves_def by (induction rule: rtranclp_induct) (auto intro: reach.reach_step)
  with reach_step bstep_moves show ?case by blast
qed (rule reach.reach_init)

end
