(* ===== verification/BrokerSafety.thy ===== *)
theory BrokerSafety
  imports BrokerMoves
begin

text \<open>
  What holds of every reachable broker.  Each group is an invariant of \<^const>\<open>move\<close>, checked move by
  move and obtained for the reachable states from an interpretation of the invariant locales.
\<close>

subsection \<open>Well-formedness\<close>

lemma core_wf_pruned: "pruned b b' \<Longrightarrow> core_wf b \<Longrightarrow> core_wf b'"
proof -
  assume p: "pruned b b'" and w: "core_wf b"
  have o: "obj b' = obj b" using pruned_obj [OF p] .
  have t: "t \<in> set (b_tasks b) \<or> task_address t < length (b_objs b)" if "t \<in> set (b_tasks b')" for t
    using p core_wf_facts(3) [OF w] that unfolding pruned_def by fastforce
  show "core_wf b'"
    by (rule core_wf_step [where b = b, OF w _ _ _ _ _ _ _ t])
      (use p o core_wf_facts [OF w] in \<open>auto simp: pruned_def known_key_def serving_def live_ok_def\<close>)
qed

lemma core_wf_placed:
  assumes "core_wf b" "a < length (b_objs b)" "known_key b (c_public_key p)"
  shows "core_wf (claim_run a p (take_capacity (c_public_key p) b))"
  by (rule core_wf_claim [OF core_wf_take [OF assms(1)]])
    (use assms in \<open>auto simp: known_key_def dget_take_capacity\<close>)

text \<open>The broker a late ack leaves, and the one an accepted offer leaves.\<close>

definition late_claimed ::
    "int \<Rightarrow> address \<Rightarrow> string \<Rightarrow> connection \<Rightarrow> 'h broker \<Rightarrow> 'h broker" where
  "late_claimed now a run_id p b =
     claim_run a p (note_abnormal now (c_public_key p) ''answered_late''
       (take_capacity (c_public_key p) (queue_remove (r_agent (obj b a)) run_id b)))"

lemma core_wf_late:
  assumes w: "core_wf b" and a: "a < length (b_objs b)" and p: "known_key b (c_public_key p)"
  shows "core_wf (late_claimed now a run_id p b)"
  unfolding late_claimed_def
proof (rule core_wf_claim)
  show "core_wf (note_abnormal now (c_public_key p) ''answered_late''
      (take_capacity (c_public_key p) (queue_remove (r_agent (obj b a)) run_id b)))"
    by (rule calm_wf [OF calm_note_abnormal core_wf_take [OF core_wf_queue_remove [OF w]]]) simp
qed (use a p in \<open>auto simp: known_key_def dget_take_capacity\<close>)

lemma core_wf_move: "move s t \<Longrightarrow> broker_wf s \<Longrightarrow> core_wf (fst t)"
proof (induction rule: move.induct)
  case (m_late b run_id a p sw now)
  then have w: "core_wf b" by (simp add: broker_wf_def)
  from core_wf_late [OF w core_wf_facts(3) [OF w m_late(1)] served_okD(3) [OF core_wfD(2) [OF w] m_late(3)]]
  show ?case unfolding late_claimed_def by simp
next
  case (m_end t b b1 sw)
  then show ?case
    by (auto simp: broker_wf_def intro: core_wf_end_run calm_wf [OF _ core_wf_less_tasks])
next
  case (m_full b p c d ag a here rest placed)
  have "0 \<le> d"
    using m_full core_wf_facts(5) [of b "c_public_key p" c]
    by (auto simp: broker_wf_def has_room_def)
  with m_full show ?case by (auto simp: broker_wf_def intro: core_wf_capacity)
next
  case (m_placed b ag a p here rest placed)
  then show ?case
    by (auto simp: broker_wf_def sweep_ok_def intro!: core_wf_queue_remove core_wf_placed)
next
  case (m_refused b ag a p here rest placed reason)
  then show ?case
    by (auto simp: broker_wf_def sweep_ok_def intro!: core_wf_queue_remove core_wf_spawn)
qed (auto simp: broker_wf_def sweep_ok_def intro: calm_wf core_wf_pruned core_wf_enqueue
       core_wf_register core_wf_cancel)

lemma known_key_mono:
  assumes "move (b, sw) (b', sw')" "known_key b k"
  shows "known_key b' k"
  using assms(1)
proof (cases rule: move.cases)
  case (m_enqueue run_id now agent thread inp protocol h seq a)
  with assms(2) show ?thesis by (auto simp: known_key_def enqueue_result(9))
next
  case (m_end t b1)
  with assms(2) show ?thesis
    by (auto simp: known_key_def end_run_def dget_forget_capacity calm_def)
qed (use assms(2) in \<open>auto simp: known_key_def calm_def pruned_def register_provider_def
       dget_default_capacity dget_take_capacity request_cancel_def Let_def
       split: option.splits\<close>)

lemma objs_mono:
  assumes "move (b, sw) (b', sw')"
  shows "length (b_objs b) \<le> length (b_objs b')"
  using assms
proof (cases rule: move.cases)
  case (m_enqueue run_id now agent thread inp protocol h seq a)
  then show ?thesis using enqueue_result(1,2) [OF m_enqueue(3)] by simp
next
  case (m_end t b1)
  then show ?thesis by (auto simp: end_run_def calm_def)
qed (auto simp: calm_def pruned_def register_provider_def request_cancel_def Let_def
       split: option.splits)

lemma sweep_ok_move:
  assumes "move (b, sw) (b', sw')" "broker_wf (b, sw)"
  shows "sweep_ok (b', sw')"
proof (cases sw')
  case (Awaiting ag a p here rest placed)
  from assms(1) have "sw' = sw \<or> offered b' sw' \<and> \<not> awaiting sw"
    by (cases rule: move.cases) (auto simp: Awaiting)
  then show ?thesis
  proof
    assume "sw' = sw"
    with assms objs_mono [OF assms(1)] known_key_mono [OF assms(1)] show ?thesis
      by (auto simp: broker_wf_def sweep_ok_def Awaiting)
  next
    assume o: "offered b' sw' \<and> \<not> awaiting sw"
    have w: "core_wf b'" using core_wf_move [OF assms] by simp
    show ?thesis
      using o core_wf_facts(3) [OF w] served_okD(3) [OF core_wfD(2) [OF w]]
      by (auto simp: sweep_ok_def Awaiting)
  qed
qed (simp_all add: sweep_ok_def)

lemma broker_wf_init: "binit s \<Longrightarrow> broker_wf s"
  by (auto simp: binit_def new_broker_def broker_wf_def sweep_ok_def core_wf_defs live_ok_def
      serving_def lr_serving_def new_live_roster_def roster_ok_def)

interpretation wf: inductive_invariant binit move broker_wf
proof
  fix s t :: "'h broker \<times> sweep"
  assume "broker_wf s" "move s t"
  then show "broker_wf t"
    using core_wf_move [of s t] sweep_ok_move [of "fst s" "snd s" "fst t" "snd t"]
    by (simp add: broker_wf_def)
qed (rule broker_wf_init)

end
