(* ===== verification/BrokerOwners.thy ===== *)
theory BrokerOwners
  imports BrokerSafety
begin

text \<open>
  Who holds a run: an agent's queue lists only its own runs, a run is offered to and claimed by
  nobody but the connection of its own agent's key, and every tracked run is either waiting in its
  agent's queue or held by a task that will end it.
\<close>

subsection \<open>Ownership\<close>

definition queues_own :: "'h broker \<Rightarrow> bool" where
  "queues_own b \<longleftrightarrow>
     (\<forall>ag i a. i \<in> set (queue_of b ag) \<longrightarrow> dget (b_runs b) i = Some a \<longrightarrow> r_agent (obj b a) = ag)"

definition claims_own :: "'h broker \<Rightarrow> bool" where
  "claims_own b \<longleftrightarrow>
     (\<forall>a k. a < length (b_objs b) \<longrightarrow> r_claimed_by (obj b a) = Some k \<longrightarrow>
        k = ar_provider_key (r_agent (obj b a)))"

definition offer_own :: "'h broker \<times> sweep \<Rightarrow> bool" where
  "offer_own st \<longleftrightarrow> (case snd st of
     Awaiting ag a p here rest placed \<Rightarrow>
       let b = fst st in
       r_agent (obj b a) = ag \<and> c_public_key p = ar_provider_key ag \<and>
       (\<forall>x. dget (b_runs b) (r_run_id (obj b a)) = Some x \<longrightarrow> x = a)
   | _ \<Rightarrow> True)"

definition own_ok :: "'h broker \<times> sweep \<Rightarrow> bool" where
  "own_ok st \<longleftrightarrow> queues_own (fst st) \<and> claims_own (fst st) \<and> offer_own st"

lemma queues_own_step:
  assumes "queues_own b"
    and "\<And>ag i a. i \<in> set (queue_of b' ag) \<Longrightarrow> dget (b_runs b') i = Some a \<Longrightarrow>
           i \<in> set (queue_of b ag) \<and> dget (b_runs b) i = Some a \<and> r_agent (obj b' a) = r_agent (obj b a)"
  shows "queues_own b'"
  using assms unfolding queues_own_def by metis

lemma claims_own_step:
  assumes "claims_own b" "length (b_objs b') = length (b_objs b)"
    and "\<And>a k. a < length (b_objs b) \<Longrightarrow> r_claimed_by (obj b' a) = Some k \<Longrightarrow>
           r_claimed_by (obj b a) = Some k \<or> k = ar_provider_key (r_agent (obj b a))"
    and "\<And>a. r_agent (obj b' a) = r_agent (obj b a)"
  shows "claims_own b'"
  using assms unfolding claims_own_def by metis

lemma offer_own_step:
  assumes "offer_own (b, sw)"
    and "\<And>x. r_agent (obj b' x) = r_agent (obj b x)" "\<And>x. r_run_id (obj b' x) = r_run_id (obj b x)"
    and "\<And>i x. dget (b_runs b') i = Some x \<Longrightarrow> dget (b_runs b) i = Some x"
  shows "offer_own (b', sw)"
  using assms unfolding offer_own_def by (auto simp: Let_def split: sweep.splits)

lemma offer_own_idle [simp]: "\<not> awaiting sw \<Longrightarrow> offer_own (b, sw)"
  by (cases sw) (simp_all add: offer_own_def)

lemma calm_fields:
  assumes "calm b b'"
  shows "b_runs b' = b_runs b" "queue_of b' = queue_of b" "b_capacity b' = b_capacity b"
    "b_handlers b' = b_handlers b" "b_tasks b' = b_tasks b"
    "length (b_objs b') = length (b_objs b)"
    "r_run_id (obj b' x) = r_run_id (obj b x)" "r_agent (obj b' x) = r_agent (obj b x)"
    "r_claimed_by (obj b' x) = r_claimed_by (obj b x)"
    "r_cancel_requested (obj b' x) = r_cancel_requested (obj b x)"
proof -
  have "standing (obj b' x) = standing (obj b x)" using assms by (simp add: calm_def)
  from standing_eqD [OF this] assms
  show "b_runs b' = b_runs b" "queue_of b' = queue_of b" "b_capacity b' = b_capacity b"
    "b_handlers b' = b_handlers b" "b_tasks b' = b_tasks b"
    "length (b_objs b') = length (b_objs b)"
    "r_run_id (obj b' x) = r_run_id (obj b x)" "r_agent (obj b' x) = r_agent (obj b x)"
    "r_claimed_by (obj b' x) = r_claimed_by (obj b x)"
    "r_cancel_requested (obj b' x) = r_cancel_requested (obj b x)"
    by (simp_all add: calm_def)
qed

lemma own_calm:
  assumes c: "calm b b'" and o: "own_ok (b, sw)" and s: "sw' = sw \<or> \<not> awaiting sw'"
  shows "own_ok (b', sw')"
proof -
  note f = calm_fields [OF c]
  have "queues_own b'"
    using o by - (rule queues_own_step [of b], auto simp: own_ok_def f)
  moreover have "claims_own b'"
    using o by - (rule claims_own_step [of b], auto simp: own_ok_def f)
  moreover have "offer_own (b', sw)"
    using o by - (rule offer_own_step [of b], auto simp: own_ok_def f)
  ultimately show ?thesis using s by (auto simp: own_ok_def)
qed

text \<open>Steps that keep every run's identity and grow no queue.\<close>

lemma own_step:
  assumes "own_ok (b, sw)" "length (b_objs b') = length (b_objs b)"
    and "\<And>ag i. i \<in> set (queue_of b' ag) \<Longrightarrow> i \<in> set (queue_of b ag)"
    and "\<And>i x. dget (b_runs b') i = Some x \<Longrightarrow> dget (b_runs b) i = Some x"
    and "\<And>a. r_agent (obj b' a) = r_agent (obj b a)" "\<And>a. r_run_id (obj b' a) = r_run_id (obj b a)"
    and "\<And>a k. a < length (b_objs b) \<Longrightarrow> r_claimed_by (obj b' a) = Some k \<Longrightarrow>
           r_claimed_by (obj b a) = Some k \<or> k = ar_provider_key (r_agent (obj b a))"
    and "sw' = sw \<or> \<not> awaiting sw'"
  shows "own_ok (b', sw')"
proof -
  have "queues_own b'"
    using assms(1,3-5) by - (rule queues_own_step [of b], auto simp: own_ok_def)
  moreover have "claims_own b'"
    using assms(1,2,5,7) by - (rule claims_own_step [of b], auto simp: own_ok_def)
  moreover have "offer_own (b', sw)"
    using assms(1,4-6) by - (rule offer_own_step [of b], auto simp: own_ok_def)
  ultimately show ?thesis using assms(8) by (auto simp: own_ok_def)
qed

lemma own_enqueue:
  assumes w: "core_wf b" and o: "own_ok (b, sw)" and u: "unreferenced i (b, sw)"
    and e: "enqueue_run now i ag th inp pr (Some h) seq b = Inr (a, b')"
    and s: "sweep_ok (b, sw)"
  shows "own_ok (b', sw)"
proof -
  note r = enqueue_result [OF e]
  have old: "obj b' x = obj b x" if "x < length (b_objs b)" for x
    using r(3) that by (simp add: r(1))
  have q: "i \<notin> set (queue_of b g)" for g using u by (simp add: unreferenced_def Let_def)
  have "queues_own b'"
    unfolding queues_own_def
  proof (intro allI impI)
    fix g j x assume j: "j \<in> set (queue_of b' g)" "dget (b_runs b') j = Some x"
    show "r_agent (obj b' x) = g"
    proof (cases "j = i")
      case True
      with j r q show ?thesis by (auto split: if_splits)
    next
      case False
      with j r(8,13) have "j \<in> set (queue_of b g)" "dget (b_runs b) j = Some x"
        by (auto split: if_splits)
      with o core_wf_facts(3) [OF w] old show ?thesis by (auto simp: own_ok_def queues_own_def)
    qed
  qed
  moreover have "claims_own b'"
    using o r(1,2,6) old unfolding own_ok_def claims_own_def by (auto simp: less_Suc_eq)
  moreover have "offer_own (b', sw)"
    using o u s old r(8)
    by (auto simp: own_ok_def offer_own_def sweep_ok_def unreferenced_def Let_def split: sweep.splits)
  ultimately show ?thesis by (simp add: own_ok_def)
qed

lemma own_prune:
  assumes "pruned b b'" "offered b' sw'" "own_ok (b, sw)" "core_wf b'"
  shows "own_ok (b', sw')"
proof -
  have o: "obj b' = obj b" using pruned_obj [OF assms(1)] .
  have sub: "i \<in> set (queue_of b' ag) \<Longrightarrow> i \<in> set (queue_of b ag)" for ag i
    using assms(1) unfolding pruned_def by (metis subseq_mem)
  have "queues_own b'"
    using assms(1,3) sub o by - (rule queues_own_step [of b], auto simp: own_ok_def pruned_def)
  moreover have "claims_own b'"
    using assms(1,3) o by - (rule claims_own_step [of b], auto simp: own_ok_def pruned_def)
  moreover have "offer_own (b', sw')"
  proof (cases sw')
    case (Awaiting ag a p here rest placed)
    with assms(2) obtain i q where i: "queue_of b' ag = i # q" "dget (b_runs b') i = Some a"
      "serving b' ag = Some p" by auto
    then have "r_agent (obj b' a) = ag"
      using \<open>queues_own b'\<close> unfolding queues_own_def by (metis list.set_intros(1))
    moreover have "r_run_id (obj b' a) = i" using core_wf_facts(4) [OF assms(4) i(2)] .
    moreover have "c_public_key p = ar_provider_key ag"
      using served_okD(1) [OF core_wfD(2) [OF assms(4)] i(3)] .
    ultimately show ?thesis using i by (simp add: offer_own_def Awaiting Let_def)
  qed (simp_all add: offer_own_def)
  ultimately show ?thesis by (simp add: own_ok_def)
qed

text \<open>A registration touches no run.\<close>

lemma register_simps [simp]:
  "b_objs (register_provider m b) = b_objs b" "b_runs (register_provider m b) = b_runs b"
  "b_tasks (register_provider m b) = b_tasks b" "b_handlers (register_provider m b) = b_handlers b"
  "obj (register_provider m b) = obj b" "queue_of (register_provider m b) = queue_of b"
  "lr_count (b_live (register_provider m b)) = lr_count (b_live b)"
  by (simp_all add: register_provider_def obj_def queue_of_def fun_eq_iff)

text \<open>What \<^const>\<open>request_cancel\<close> does to each table.\<close>

lemma cancel_simps [simp]:
  "b_runs (snd (request_cancel i b)) = b_runs b"
  "b_handlers (snd (request_cancel i b)) = b_handlers b"
  "b_capacity (snd (request_cancel i b)) = b_capacity b"
  "b_live (snd (request_cancel i b)) = b_live b"
  "length (b_objs (snd (request_cancel i b))) = length (b_objs b)"
  "queue_of (snd (request_cancel i b)) = queue_of b"
  "r_run_id (obj (snd (request_cancel i b)) x) = r_run_id (obj b x)"
  "r_agent (obj (snd (request_cancel i b)) x) = r_agent (obj b x)"
  "r_claimed_by (obj (snd (request_cancel i b)) x) = r_claimed_by (obj b x)"
  by (auto simp: request_cancel_def Let_def obj_upd_same [where g = r_run_id]
      obj_upd_same [where g = r_agent] obj_upd_same [where g = r_claimed_by] split: option.split)

lemma late_fields:
  assumes "a < length (b_objs b)"
  shows "b_runs (late_claimed now a i p b) = b_runs b"
    "b_handlers (late_claimed now a i p b) = b_handlers b"
    "length (b_objs (late_claimed now a i p b)) = length (b_objs b)"
    "queue_of (late_claimed now a i p b) = queue_of (queue_remove (r_agent (obj b a)) i b)"
    "r_run_id (obj (late_claimed now a i p b) x) = r_run_id (obj b x)"
    "r_agent (obj (late_claimed now a i p b) x) = r_agent (obj b x)"
    "r_cancel_requested (obj (late_claimed now a i p b) x) = r_cancel_requested (obj b x)"
    "r_claimed_by (obj (late_claimed now a i p b) x) =
       (if x = a then Some (c_public_key p) else r_claimed_by (obj b x))"
    "b_tasks (late_claimed now a i p b) =
       b_tasks b @ (case dget (b_handlers b) (r_run_id (obj b a)) of
                      None \<Rightarrow> [] | Some h \<Rightarrow> [PipelineTask a h])"
    "dget (b_capacity (late_claimed now a i p b)) k =
       (if k = c_public_key p then map_option room_taken (dget (b_capacity b) k)
        else dget (b_capacity b) k)"
    "live_ok b \<Longrightarrow> lr_count (b_live (late_claimed now a i p b)) k ev =
       lr_count (b_live b) k ev + (if k = c_public_key p \<and> ev = ''answered_late'' then 1 else 0)"
  using assms
  by (simp_all add: late_claimed_def claim_run_obj claim_run_tasks dget_take_capacity
      note_abnormal_counts(2))

lemma end_run_fields:
  "b_runs (end_run a b) = dpop (r_run_id (obj b a)) (b_runs b)"
  "b_handlers (end_run a b) = dpop (r_run_id (obj b a)) (b_handlers b)"
  "length (b_objs (end_run a b)) = length (b_objs b)"
  "queue_of (end_run a b) = queue_of b"
  "b_tasks (end_run a b) = b_tasks b"
  "b_live (end_run a b) = b_live b"
  "r_run_id (obj (end_run a b) x) = r_run_id (obj b x)"
  "r_agent (obj (end_run a b) x) = r_agent (obj b x)"
  "r_claimed_by (obj (end_run a b) x) = r_claimed_by (obj b x)"
  "r_cancel_requested (obj (end_run a b) x) = r_cancel_requested (obj b x)"
  "dget (b_capacity (end_run a b)) j =
     (if \<exists>x. dget (b_runs b) (r_run_id (obj b a)) = Some x \<and> r_claimed_by (obj b x) = Some j
      then map_option room_freed (dget (b_capacity b) j) else dget (b_capacity b) j)"
  by (auto simp: end_run_def dget_forget_capacity)

lemma less_tasks_simps [simp]:
  "obj (b\<lparr>b_tasks := ts\<rparr>) = obj b" "queue_of (b\<lparr>b_tasks := ts\<rparr>) = queue_of b"
  "serving (b\<lparr>b_tasks := ts\<rparr>) = serving b" "live_ok (b\<lparr>b_tasks := ts\<rparr>) = live_ok b"
  by (simp_all add: obj_def queue_of_def serving_def live_ok_def fun_eq_iff)

lemma capacity_simps [simp]:
  "obj (b\<lparr>b_capacity := ts\<rparr>) = obj b" "queue_of (b\<lparr>b_capacity := ts\<rparr>) = queue_of b"
  "serving (b\<lparr>b_capacity := ts\<rparr>) = serving b" "live_ok (b\<lparr>b_capacity := ts\<rparr>) = live_ok b"
  by (simp_all add: obj_def queue_of_def serving_def live_ok_def fun_eq_iff)

lemma own_move: "move s t \<Longrightarrow> broker_wf s \<Longrightarrow> own_ok s \<Longrightarrow> own_ok t"
proof (induction rule: move.induct)
  case (m_calm b b' sw' sw)
  then show ?case by (blast intro: own_calm)
next
  case (m_enqueue i b sw now ag th inp pr h seq a b')
  then show ?case by (auto simp: broker_wf_def intro: own_enqueue)
next
  case (m_register m b sw)
  from m_register(3) show ?case by (rule own_step) auto
next
  case (m_cancel b sw i)
  from m_cancel(2) show ?case by (rule own_step) auto
next
  case (m_late b i a p sw now)
  then have w: "core_wf b" by (simp add: broker_wf_def)
  note f = late_fields [OF core_wf_facts(3) [OF w m_late(1)]]
  have "c_public_key p = ar_provider_key (r_agent (obj b a))"
    using served_okD(1) [OF core_wfD(2) [OF w] m_late(3)] .
  with m_late(5) have "own_ok (late_claimed now a i p b, sw)"
    by (elim own_step) (auto simp: f queue_of_remove dest: set_remove1_subset [THEN subsetD] split: if_splits)
  then show ?case by (simp add: late_claimed_def)
next
  case (m_prune b b' sw' sw)
  have "core_wf b'"
    using m_prune by (auto simp: broker_wf_def intro: core_wf_pruned)
  with m_prune show ?case by (auto intro: own_prune)
next
  case (m_refused b ag a p here rest placed reason)
  from m_refused(2) show ?case
    by (rule own_step) (auto simp: queue_of_remove dest: set_remove1_subset [THEN subsetD] split: if_splits)
next
  case (m_placed b ag a p here rest placed)
  then have a: "a < length (b_objs b)" and k: "c_public_key p = ar_provider_key (r_agent (obj b a))"
    by (auto simp: broker_wf_def sweep_ok_def own_ok_def offer_own_def Let_def)
  from m_placed(2) show ?case
    by (rule own_step)
      (use a k in \<open>auto simp: queue_of_remove claim_run_obj dest: set_remove1_subset [THEN subsetD] split: if_splits\<close>)
next
  case (m_full b p c d ag a here rest placed)
  from m_full(5) show ?case by (rule own_step) auto
next
  case (m_end t b b1 sw)
  note f = calm_fields [OF m_end(2)]
  from m_end(4) show ?case
    by (rule own_step) (auto simp: end_run_fields f split: if_splits)
qed

lemma own_init: "binit s \<Longrightarrow> own_ok s"
  by (auto simp: binit_def new_broker_def own_ok_def queues_own_def claims_own_def offer_own_def)

interpretation own: relative_invariant binit move broker_wf own_ok
  by unfold_locales (auto intro: own_init own_move)

subsection \<open>No run is lost\<close>

definition has_task :: "'h broker \<Rightarrow> address \<Rightarrow> bool" where
  "has_task b a \<longleftrightarrow> (\<exists>t \<in> set (b_tasks b). task_address t = a)"

definition has_pipeline :: "'h broker \<Rightarrow> address \<Rightarrow> bool" where
  "has_pipeline b a \<longleftrightarrow> (\<exists>h. PipelineTask a h \<in> set (b_tasks b))"

definition run_accounted :: "'h broker \<Rightarrow> string \<Rightarrow> address \<Rightarrow> bool" where
  "run_accounted b i a \<longleftrightarrow>
     dget (b_handlers b) i \<noteq> None \<and>
     (r_claimed_by (obj b a) \<noteq> None \<longrightarrow> has_pipeline b a) \<and>
     (has_task b a \<or>
        \<not> r_cancel_requested (obj b a) \<and> i \<in> set (queue_of b (r_agent (obj b a))))"

definition accounted :: "'h broker \<times> sweep \<Rightarrow> bool" where
  "accounted st \<longleftrightarrow>
     (\<forall>i a. dget (b_runs (fst st)) i = Some a \<longrightarrow> run_accounted (fst st) i a)"

lemma pipeline_task: "has_pipeline b a \<Longrightarrow> has_task b a"
  unfolding has_pipeline_def has_task_def by (metis task_address.simps(1))

lemma has_more_tasks:
  assumes "set (b_tasks b) \<subseteq> set (b_tasks b')"
  shows "has_task b a \<Longrightarrow> has_task b' a" "has_pipeline b a \<Longrightarrow> has_pipeline b' a"
  using assms by (auto simp: has_pipeline_def has_task_def)

text \<open>A run that is left alone stays accounted for.\<close>

lemma run_accounted_kept:
  assumes "run_accounted b i a"
    and "dget (b_handlers b) i \<noteq> None \<Longrightarrow> dget (b_handlers b') i \<noteq> None"
    and "r_claimed_by (obj b' a) = r_claimed_by (obj b a)"
    and "r_cancel_requested (obj b' a) = r_cancel_requested (obj b a)"
    and "r_agent (obj b' a) = r_agent (obj b a)"
    and "has_task b a \<Longrightarrow> has_task b' a" "has_pipeline b a \<Longrightarrow> has_pipeline b' a"
    and "i \<in> set (queue_of b (r_agent (obj b a))) \<Longrightarrow>
           \<not> r_cancel_requested (obj b a) \<Longrightarrow>
           i \<in> set (queue_of b' (r_agent (obj b a))) \<or> has_task b' a"
  shows "run_accounted b' i a"
  using assms unfolding run_accounted_def by auto

lemma accounted_calm:
  assumes "calm b b'" "accounted (b, sw)"
  shows "accounted (b', sw')"
  unfolding accounted_def
proof (intro allI impI)
  note f = calm_fields [OF assms(1)]
  have t: "set (b_tasks b) \<subseteq> set (b_tasks b')" by (simp add: f)
  fix i a assume "dget (b_runs (fst (b', sw'))) i = Some a"
  then have "run_accounted b i a" using assms(2) by (simp add: accounted_def f)
  then show "run_accounted (fst (b', sw')) i a"
    by (rule run_accounted_kept) (auto simp: f has_more_tasks [OF t])
qed

lemma accounted_enqueue:
  assumes w: "core_wf b" and ac: "accounted (b, sw)"
    and e: "enqueue_run now i ag th inp pr (Some h) seq b = Inr (a, b')"
  shows "accounted (b', sw)"
  unfolding accounted_def
proof (intro allI impI)
  note r = enqueue_result [OF e]
  fix j x assume j: "dget (b_runs (fst (b', sw))) j = Some x"
  show "run_accounted (fst (b', sw)) j x"
  proof (cases "j = i")
    case True
    with j r show ?thesis by (auto simp: run_accounted_def)
  next
    case False
    with j r(8) have jx: "dget (b_runs b) j = Some x" by simp
    then have old: "obj b' x = obj b x" using core_wf_facts(3) [OF w jx] r(1,3) by simp
    have t: "set (b_tasks b) \<subseteq> set (b_tasks b')" by (simp add: r)
    have "run_accounted b j x" using jx ac by (simp add: accounted_def)
    then have "run_accounted b' j x"
      by (rule run_accounted_kept) (auto simp: r old False has_more_tasks [OF t])
    then show ?thesis by simp
  qed
qed

lemma accounted_cancel:
  assumes w: "core_wf b" and ac: "accounted (b, sw)"
  shows "accounted (snd (request_cancel i b), sw)"
  unfolding accounted_def
proof (intro allI impI)
  let ?b = "snd (request_cancel i b)"
  fix j x assume j: "dget (b_runs (fst (?b, sw))) j = Some x"
  then have jx: "dget (b_runs b) j = Some x" by simp
  have k: "run_accounted b j x" using jx ac by (simp add: accounted_def)
  have t: "set (b_tasks b) \<subseteq> set (b_tasks ?b)"
    by (auto simp: request_cancel_def Let_def split: option.split)
  show "run_accounted (fst (?b, sw)) j x"
  proof (cases "j = i")
    case True
    then have "r_claimed_by (obj b x) = None \<Longrightarrow> has_task ?b x"
      using request_cancel_fields [OF w jx] by (auto simp: Let_def has_task_def)
    moreover have "r_claimed_by (obj b x) \<noteq> None \<Longrightarrow> has_pipeline ?b x"
      using k has_more_tasks(2) [OF t] by (auto simp: run_accounted_def)
    ultimately show ?thesis using k by (auto simp: run_accounted_def intro: pipeline_task)
  next
    case False
    have "dget (b_runs b) i = Some y \<Longrightarrow> y \<noteq> x" for y
      using core_wf_facts(4) [OF w] jx False by metis
    then have "r_cancel_requested (obj ?b x) = r_cancel_requested (obj b x)"
      using core_wf_facts(3) [OF w]
      by (auto simp: request_cancel_def Let_def obj_upd_obj split: option.split)
    with k have "run_accounted ?b j x"
      by (elim run_accounted_kept) (auto simp: has_more_tasks [OF t])
    then show ?thesis by simp
  qed
qed

text \<open>Taking one run out of its queue is safe when that run has a task.\<close>

lemma accounted_removed:
  assumes ac: "accounted (b, sw)" and runs: "b_runs b' = b_runs b" "b_handlers b' = b_handlers b"
    and tasks: "set (b_tasks b) \<subseteq> set (b_tasks b')"
    and q: "queue_of b' = queue_of (queue_remove ag i b)"
    and objs: "\<And>x. r_agent (obj b' x) = r_agent (obj b x)"
      "\<And>x. r_cancel_requested (obj b' x) = r_cancel_requested (obj b x)"
      "\<And>j x. dget (b_runs b) j = Some x \<Longrightarrow> j \<noteq> i \<Longrightarrow> r_claimed_by (obj b' x) = r_claimed_by (obj b x)"
    and this_one: "\<And>x. dget (b_runs b) i = Some x \<Longrightarrow>
      has_task b' x \<and> (r_claimed_by (obj b' x) \<noteq> None \<longrightarrow> has_pipeline b' x)"
  shows "accounted (b', sw')"
  unfolding accounted_def
proof (intro allI impI)
  fix j x assume j: "dget (b_runs (fst (b', sw'))) j = Some x"
  then have jx: "dget (b_runs b) j = Some x" by (simp add: runs)
  have k: "run_accounted b j x" using jx ac by (simp add: accounted_def)
  have "run_accounted b' j x"
  proof (cases "j = i")
    case True
    with k this_one jx show ?thesis by (auto simp: run_accounted_def runs)
  next
    case False
    from k show ?thesis
      by (rule run_accounted_kept)
        (use False jx in \<open>auto simp: runs objs q queue_of_remove has_more_tasks [OF tasks]\<close>)
  qed
  then show "run_accounted (fst (b', sw')) j x" by simp
qed

lemma accounted_prune:
  assumes p: "pruned b b'" and ac: "accounted (b, sw)"
  shows "accounted (b', sw')"
  unfolding accounted_def
proof (intro allI impI)
  obtain ts where ts: "b_tasks b' = b_tasks b @ ts"
      "\<And>ag i. i \<in> set (queue_of b ag) \<Longrightarrow>
         i \<in> set (queue_of b' ag) \<or> dead b i \<or> ended_by b ts i"
    using p unfolding pruned_def by blast
  fix i a assume "dget (b_runs (fst (b', sw'))) i = Some a"
  then have i: "dget (b_runs b) i = Some a" using p by (simp add: pruned_def)
  have t: "set (b_tasks b) \<subseteq> set (b_tasks b')" by (simp add: ts)
  have e: "ended_by b ts i \<Longrightarrow> has_task b' a"
    using i by (auto simp: ended_by_def has_task_def ts)
  have o: "obj b' = obj b" using pruned_obj [OF p] .
  have h: "b_handlers b' = b_handlers b" using p by (simp add: pruned_def)
  have "run_accounted b i a" using i ac by (simp add: accounted_def)
  then have "run_accounted b' i a"
    by (rule run_accounted_kept)
      (use ts(2) [of i] e i in \<open>auto simp: h o has_more_tasks [OF t] dead_def\<close>)
  then show "run_accounted (fst (b', sw')) i a" by simp
qed

lemma accounted_end:
  assumes w: "core_wf b" and ac: "accounted (b, sw)" and t: "t \<in> set (b_tasks b)"
    and c: "calm (b\<lparr>b_tasks := remove1 t (b_tasks b)\<rparr>) b1"
  shows "accounted (end_run (task_address t) b1, sw')"
  unfolding accounted_def
proof (intro allI impI)
  note f = calm_fields [OF c, simplified] end_run_fields [of "task_address t" b1]
  let ?i = "r_run_id (obj b (task_address t))"
  fix j x assume "dget (b_runs (fst (end_run (task_address t) b1, sw'))) j = Some x"
  then have j: "j \<noteq> ?i" and jx: "dget (b_runs b) j = Some x"
    by (auto simp: f split: if_splits)
  have k: "run_accounted b j x" using jx ac by (simp add: accounted_def)
  have ne: "x \<noteq> task_address t" using core_wf_facts(4) [OF w jx] j by auto
  then have "u \<in> set (b_tasks b) \<Longrightarrow> task_address u = x \<Longrightarrow> u \<in> set (remove1 t (b_tasks b))" for u
    by (metis in_set_remove1)
  with k j have "run_accounted (end_run (task_address t) b1) j x"
    by (elim run_accounted_kept) (force simp: f has_task_def has_pipeline_def)+
  then show "run_accounted (fst (end_run (task_address t) b1, sw')) j x" by simp
qed

lemma accounted_move:
  "move s t \<Longrightarrow> broker_wf s \<and> own_ok s \<Longrightarrow> accounted s \<Longrightarrow> accounted t"
proof (induction rule: move.induct)
  case (m_calm b b' sw' sw)
  then show ?case by (blast intro: accounted_calm)
next
  case (m_enqueue i b sw now ag th inp pr h seq a b')
  then show ?case by (auto simp: broker_wf_def intro: accounted_enqueue)
next
  case (m_register m b sw)
  then show ?case by (simp add: accounted_def run_accounted_def has_task_def has_pipeline_def)
next
  case (m_cancel b sw i)
  then show ?case by (auto simp: broker_wf_def intro: accounted_cancel)
next
  case (m_late b i a p sw now)
  then have w: "core_wf b" by (simp add: broker_wf_def)
  note f = late_fields [OF core_wf_facts(3) [OF w m_late(1)]]
  have ra: "run_accounted b i a" using m_late(1,5) by (simp add: accounted_def)
  have "accounted (late_claimed now a i p b, sw)"
  proof (rule accounted_removed [OF m_late(5)])
    fix x assume "dget (b_runs b) i = Some x"
    then have x: "x = a" using m_late(1) by simp
    have "has_pipeline (late_claimed now a i p b) a"
      using ra core_wf_facts(4) [OF w m_late(1)]
      by (auto simp: has_pipeline_def f run_accounted_def)
    with x show "has_task (late_claimed now a i p b) x \<and>
        (r_claimed_by (obj (late_claimed now a i p b) x) \<noteq> None \<longrightarrow>
          has_pipeline (late_claimed now a i p b) x)"
      by (simp add: pipeline_task)
  qed (use core_wf_facts(4) [OF w] m_late(1) in \<open>auto simp: f\<close>)
  then show ?case by (simp add: late_claimed_def)
next
  case (m_prune b b' sw' sw)
  then show ?case by (blast intro: accounted_prune)
next
  case (m_refused b ag a p here rest placed reason)
  let ?b = "queue_remove ag (r_run_id (obj b a)) (spawn (OneShotTask a (Fail reason)) b)"
  show ?case
  proof (rule accounted_removed [OF m_refused(2), of ?b ag "r_run_id (obj b a)"])
    fix x assume x: "dget (b_runs b) (r_run_id (obj b a)) = Some x"
    then have "run_accounted b (r_run_id (obj b a)) x"
      using m_refused(2) by (simp add: accounted_def)
    moreover have "x = a" using m_refused(1) x by (simp add: own_ok_def offer_own_def Let_def)
    ultimately show "has_task ?b x \<and> (r_claimed_by (obj ?b x) \<noteq> None \<longrightarrow> has_pipeline ?b x)"
      by (auto simp: has_task_def run_accounted_def has_pipeline_def)
  qed (auto simp: queue_of_remove fun_eq_iff)
next
  case (m_placed b ag a p here rest placed)
  let ?b = "queue_remove ag (r_run_id (obj b a)) (claim_run a p (take_capacity (c_public_key p) b))"
  have a: "a < length (b_objs b)" using m_placed(1) by (simp add: broker_wf_def sweep_ok_def)
  have w: "core_wf b" using m_placed(1) by (simp add: broker_wf_def)
  show ?case
  proof (rule accounted_removed [OF m_placed(2), of ?b ag "r_run_id (obj b a)"])
    fix x assume x: "dget (b_runs b) (r_run_id (obj b a)) = Some x"
    then have "run_accounted b (r_run_id (obj b a)) x"
      using m_placed(2) by (simp add: accounted_def)
    moreover have "x = a" using m_placed(1) x by (simp add: own_ok_def offer_own_def Let_def)
    ultimately have "has_pipeline ?b x"
      using a by (auto simp: run_accounted_def has_pipeline_def claim_run_tasks)
    then show "has_task ?b x \<and> (r_claimed_by (obj ?b x) \<noteq> None \<longrightarrow> has_pipeline ?b x)"
      by (simp add: pipeline_task)
  qed (use a core_wf_facts(4) [OF w] in
      \<open>auto simp: queue_of_remove fun_eq_iff claim_run_obj claim_run_tasks\<close>)
next
  case (m_full b p c d ag a here rest placed)
  then show ?case by (simp add: accounted_def run_accounted_def has_task_def has_pipeline_def)
next
  case (m_end t b b1 sw)
  then show ?case by (auto simp: broker_wf_def intro: accounted_end)
qed

lemma accounted_init: "binit s \<Longrightarrow> accounted s"
  by (auto simp: binit_def new_broker_def accounted_def)

interpretation lost: relative_invariant binit move "\<lambda>s. broker_wf s \<and> own_ok s" accounted
  by unfold_locales (auto intro: accounted_init accounted_move own.both.inv_init own.both.inv_step)

end
