(* ===== verification/BrokerCapacity.thy ===== *)
theory BrokerCapacity
  imports BrokerOwners
begin

text \<open>
  The in-flight figures: each covers the runs its provider holds, and exceeds the declared limit
  only by the late answers that provider gave.
\<close>

definition held :: "'h broker \<Rightarrow> string \<Rightarrow> string list" where
  "held b k = map fst (filter (\<lambda>(i, a). r_claimed_by (obj b a) = Some k) (b_runs b))"

lemma set_held:
  "dict_ok (b_runs b) \<Longrightarrow>
     set (held b k) = {i. \<exists>a. dget (b_runs b) i = Some a \<and> r_claimed_by (obj b a) = Some k}"
  by (force simp: held_def dget_iff_mem)

lemma distinct_held: "dict_ok (b_runs b) \<Longrightarrow> distinct (held b k)"
  unfolding held_def by (induction "b_runs b" arbitrary: b rule: list.induct)
    (simp_all add: distinct_map_filter)

lemma length_held: "dict_ok (b_runs b) \<Longrightarrow> length (held b k) = card (set (held b k))"
  by (simp add: distinct_held distinct_card)

definition expected :: "sweep \<Rightarrow> string \<Rightarrow> int" where
  "expected sw k = (case sw of
     Awaiting ag a p here rest placed \<Rightarrow> if c_public_key p = k then 1 else 0 | _ \<Rightarrow> 0)"

definition covered :: "'h broker \<times> sweep \<Rightarrow> bool" where
  "covered st \<longleftrightarrow>
     (\<forall>k c. dget (b_capacity (fst st)) k = Some c \<longrightarrow>
        int (length (held (fst st) k)) \<le> cap_in_flight c)"

definition bounded :: "'h broker \<times> sweep \<Rightarrow> bool" where
  "bounded st \<longleftrightarrow>
     (\<forall>k c d. dget (b_capacity (fst st)) k = Some c \<longrightarrow> cap_declared c = Some d \<longrightarrow>
        cap_in_flight c + expected (snd st) k
          \<le> max 0 d + lr_count (b_live (fst st)) k ''answered_late'')"

lemma expected_idle [simp]: "\<not> awaiting sw \<Longrightarrow> expected sw k = 0"
  by (cases sw) (simp_all add: expected_def)

lemma expected_nonneg [simp]: "0 \<le> expected sw k"
  by (simp add: expected_def split: sweep.split)

text \<open>Nobody holds more than before: enough for \<open>covered\<close> where the figures stay.\<close>

lemma held_le:
  assumes "dict_ok (b_runs b)" "dict_ok (b_runs b')" "set (held b' k) \<subseteq> set (held b k)"
  shows "length (held b' k) \<le> length (held b k)"
  using assms by (simp add: length_held card_mono)

lemma held_le_Suc:
  assumes "dict_ok (b_runs b)" "dict_ok (b_runs b')" "set (held b' k) \<subseteq> insert i (set (held b k))"
  shows "length (held b' k) \<le> Suc (length (held b k))"
proof -
  have "card (set (held b' k)) \<le> card (insert i (set (held b k)))"
    using assms(3) by (intro card_mono) auto
  also have "\<dots> \<le> Suc (card (set (held b k)))"
    by (simp add: card_insert_if)
  finally show ?thesis
    unfolding length_held [OF assms(1)] length_held [OF assms(2)] .
qed

lemma held_forgotten:
  assumes "dict_ok (b_runs b)" "dict_ok (b_runs b')" "i \<in> set (held b k)"
    "set (held b' k) \<subseteq> set (held b k) - {i}"
  shows "Suc (length (held b' k)) \<le> length (held b k)"
proof -
  have "card (set (held b' k)) \<le> card (set (held b k) - {i})"
    using assms(4) by (intro card_mono) auto
  moreover have "Suc (card (set (held b k) - {i})) = card (set (held b k))"
    using assms(3) by (intro card_Suc_Diff1) simp_all
  ultimately show ?thesis
    unfolding length_held [OF assms(1)] length_held [OF assms(2)] by linarith
qed

text \<open>The places a figure counts beyond the runs held: no step ever gives one back.\<close>

definition keeps_slack :: "'h broker \<Rightarrow> 'h broker \<Rightarrow> bool" where
  "keeps_slack b b' \<longleftrightarrow>
     (\<forall>k c. dget (b_capacity b) k = Some c \<longrightarrow>
        (\<exists>c'. dget (b_capacity b') k = Some c' \<and> cap_declared c' = cap_declared c \<and>
           cap_in_flight c - int (length (held b k)) \<le> cap_in_flight c' - int (length (held b' k))))"

lemma keeps_slackE:
  assumes "keeps_slack b b'" "dget (b_capacity b) k = Some c"
  obtains c' where "dget (b_capacity b') k = Some c'" "cap_declared c' = cap_declared c"
    "cap_in_flight c - int (length (held b k)) \<le> cap_in_flight c' - int (length (held b' k))"
  using assms unfolding keeps_slack_def by blast

lemma slack_step:
  assumes "dict_ok (b_runs b)" "dict_ok (b_runs b')"
    and "\<And>k c. dget (b_capacity b) k = Some c \<Longrightarrow>
           \<exists>c'. dget (b_capacity b') k = Some c' \<and> cap_declared c' = cap_declared c \<and>
             cap_in_flight c \<le> cap_in_flight c'"
    and "\<And>k. set (held b' k) \<subseteq> set (held b k)"
  shows "keeps_slack b b'"
  unfolding keeps_slack_def
proof (intro allI impI)
  fix k c assume "dget (b_capacity b) k = Some c"
  then obtain c' where "dget (b_capacity b') k = Some c'" "cap_declared c' = cap_declared c"
      "cap_in_flight c \<le> cap_in_flight c'"
    using assms(3) by blast
  moreover have "length (held b' k) \<le> length (held b k)" using assms(1,2,4) by (rule held_le)
  ultimately show "\<exists>c'. dget (b_capacity b') k = Some c' \<and> cap_declared c' = cap_declared c \<and>
      cap_in_flight c - int (length (held b k)) \<le> cap_in_flight c' - int (length (held b' k))"
    by auto
qed

text \<open>One more run is held by one provider, whose figure went up by one.\<close>

lemma slack_claim:
  assumes w: "core_wf b" and runs: "b_runs b' = b_runs b"
    and cap: "\<And>j. dget (b_capacity b') j =
        (if j = k then map_option room_taken (dget (b_capacity b) j) else dget (b_capacity b) j)"
    and claims: "\<And>x. r_claimed_by (obj b' x) = (if x = a then Some k else r_claimed_by (obj b x))"
  shows "keeps_slack b b'"
  unfolding keeps_slack_def
proof (intro allI impI)
  fix j c assume j: "dget (b_capacity b) j = Some c"
  have ok: "dict_ok (b_runs b)" "dict_ok (b_runs b')"
    using core_wf_facts(1) [OF w] by (simp_all add: runs)
  show "\<exists>c'. dget (b_capacity b') j = Some c' \<and> cap_declared c' = cap_declared c \<and>
      cap_in_flight c - int (length (held b j)) \<le> cap_in_flight c' - int (length (held b' j))"
  proof (cases "j = k")
    case True
    have "set (held b' j) \<subseteq> insert (r_run_id (obj b a)) (set (held b j))"
      using core_wf_facts(4) [OF w]
      by (auto simp: set_held [OF ok(1)] set_held [OF ok(2)] runs claims split: if_splits)
    from held_le_Suc [OF ok this] j True show ?thesis by (auto simp: cap)
  next
    case False
    have "set (held b' j) \<subseteq> set (held b j)"
      using False by (auto simp: set_held [OF ok(1)] set_held [OF ok(2)] runs claims split: if_splits)
    from held_le [OF ok this] j False show ?thesis by (auto simp: cap)
  qed
qed

lemma slack_end:
  assumes w: "core_wf b" and cov: "covered (b, sw)"
  shows "keeps_slack b (end_run a b)"
  unfolding keeps_slack_def
proof (intro allI impI)
  let ?i = "r_run_id (obj b a)"
  note f = end_run_fields [of a b]
  have ok: "dict_ok (b_runs b)" "dict_ok (b_runs (end_run a b))"
    using core_wf_facts(1) [OF w] by (simp_all add: f)
  fix j c assume j: "dget (b_capacity b) j = Some c"
  have le: "int (length (held b j)) \<le> cap_in_flight c" using cov j by (simp add: covered_def)
  have sub: "set (held (end_run a b) j) \<subseteq> set (held b j) - {?i}"
    by (auto simp: set_held [OF ok(1)] set_held [OF ok(2)] f split: if_splits)
  show "\<exists>c'. dget (b_capacity (end_run a b)) j = Some c' \<and> cap_declared c' = cap_declared c \<and>
      cap_in_flight c - int (length (held b j))
        \<le> cap_in_flight c' - int (length (held (end_run a b) j))"
  proof (cases "?i \<in> set (held b j)")
    case True
    then have "dget (b_capacity (end_run a b)) j = Some (room_freed c)"
      using j by (auto simp: f set_held [OF ok(1)])
    moreover from held_forgotten [OF ok True sub] le
    have "cap_in_flight c - int (length (held b j))
        \<le> cap_in_flight (room_freed c) - int (length (held (end_run a b) j))"
      by (simp add: room_freed_def)
    ultimately show ?thesis by simp
  next
    case False
    then have "dget (b_capacity (end_run a b)) j = Some c"
      using j by (auto simp: f set_held [OF ok(1)])
    moreover have "length (held (end_run a b) j) \<le> length (held b j)"
      using sub by (intro held_le [OF ok]) auto
    ultimately show ?thesis by auto
  qed
qed

lemma slack_trans: "keeps_slack a b \<Longrightarrow> keeps_slack b c \<Longrightarrow> keeps_slack a c"
  unfolding keeps_slack_def
proof (intro allI impI)
  fix k x assume 1: "\<forall>k x. dget (b_capacity a) k = Some x \<longrightarrow>
      (\<exists>y. dget (b_capacity b) k = Some y \<and> cap_declared y = cap_declared x \<and>
         cap_in_flight x - int (length (held a k)) \<le> cap_in_flight y - int (length (held b k)))"
    and 2: "\<forall>k x. dget (b_capacity b) k = Some x \<longrightarrow>
      (\<exists>y. dget (b_capacity c) k = Some y \<and> cap_declared y = cap_declared x \<and>
         cap_in_flight x - int (length (held b k)) \<le> cap_in_flight y - int (length (held c k)))"
    and x: "dget (b_capacity a) k = Some x"
  from 1 x obtain y where y: "dget (b_capacity b) k = Some y" "cap_declared y = cap_declared x"
      "cap_in_flight x - int (length (held a k)) \<le> cap_in_flight y - int (length (held b k))"
    by blast
  from 2 y(1) obtain z where "dget (b_capacity c) k = Some z" "cap_declared z = cap_declared y"
      "cap_in_flight y - int (length (held b k)) \<le> cap_in_flight z - int (length (held c k))"
    by blast
  with y show "\<exists>z. dget (b_capacity c) k = Some z \<and> cap_declared z = cap_declared x \<and>
      cap_in_flight x - int (length (held a k)) \<le> cap_in_flight z - int (length (held c k))"
    by auto
qed

lemma slack_refl [simp]: "keeps_slack b b"
  by (simp add: keeps_slack_def)

lemma slack_move:
  "move s t \<Longrightarrow> broker_wf s \<Longrightarrow> covered s \<Longrightarrow> keeps_slack (fst s) (fst t)"
proof (induction rule: move.induct)
  case (m_calm b b' sw' sw)
  then have ok: "dict_ok (b_runs b)" using core_wf_facts(1) by (auto simp: broker_wf_def)
  then show ?case
    by (intro slack_step) (auto simp: calm_fields [OF m_calm(1)] held_def)
next
  case (m_enqueue i b sw now ag th inp pr h seq a b')
  then have w: "core_wf b" by (simp add: broker_wf_def)
  note r = enqueue_result [OF m_enqueue(2)]
  have ok: "dict_ok (b_runs b)" "dict_ok (b_runs b')" using core_wf_facts(1) [OF w] r(8) by auto
  have "r_claimed_by (obj b' x) = Some k \<Longrightarrow> x \<le> length (b_objs b) \<Longrightarrow>
      r_claimed_by (obj b x) = Some k \<and> x < length (b_objs b)" for x k
    using r(1,3,6) by (cases "x = a") auto
  then have "set (held b' k) \<subseteq> set (held b k)" for k
    using core_wf_facts(3) [OF w] r(1,6,8)
    by (auto simp: set_held [OF ok(1)] set_held [OF ok(2)] r(8) less_imp_le split: if_splits)
  with ok show ?case by (simp add: slack_step r(9))
next
  case (m_register m b sw)
  then show ?case
    by (auto simp: keeps_slack_def register_provider_def dget_default_capacity held_def obj_def)
next
  case (m_cancel b sw i)
  then have ok: "dict_ok (b_runs b)" using core_wf_facts(1) by (auto simp: broker_wf_def)
  then show ?case by (intro slack_step) (auto simp: held_def)
next
  case (m_late b i a p sw now)
  then have w: "core_wf b" by (simp add: broker_wf_def)
  note f = late_fields [OF core_wf_facts(3) [OF w m_late(1)]]
  have "keeps_slack b (late_claimed now a i p b)"
    by (rule slack_claim [OF w, where a = a and k = "c_public_key p"]) (simp_all add: f)
  then show ?case by (simp add: late_claimed_def)
next
  case (m_prune b b' sw' sw)
  then have ok: "dict_ok (b_runs b)" using core_wf_facts(1) by (auto simp: broker_wf_def)
  then show ?case
    using m_prune(1) pruned_obj [OF m_prune(1)] by (intro slack_step) (auto simp: held_def pruned_def)
next
  case (m_refused b ag a p here rest placed reason)
  then have ok: "dict_ok (b_runs b)" using core_wf_facts(1) by (auto simp: broker_wf_def)
  then show ?case by (intro slack_step) (auto simp: held_def)
next
  case (m_placed b ag a p here rest placed)
  then have w: "core_wf b" and a: "a < length (b_objs b)" by (auto simp: broker_wf_def sweep_ok_def)
  then show ?case
    by (intro slack_claim [where a = a and k = "c_public_key p"])
      (simp_all add: claim_run_obj dget_take_capacity)
next
  case (m_full b p c d ag a here rest placed)
  then have ok: "dict_ok (b_runs b)" using core_wf_facts(1) by (auto simp: broker_wf_def)
  then show ?case
    using m_full by (intro slack_step) (auto simp: held_def has_room_def split: if_splits)
next
  case (m_end t b b1 sw)
  then have w: "core_wf b" by (simp add: broker_wf_def)
  note f = calm_fields [OF m_end(2)]
  have w1: "core_wf b1" using core_wf_less_tasks [OF w] calm_wf [OF m_end(2)] by simp
  have "keeps_slack b b1"
    by (rule slack_step) (auto simp: f held_def core_wf_facts(1) [OF w])
  moreover have "covered (b1, sw)"
    using m_end(4) by (simp add: covered_def f held_def)
  ultimately show ?case using slack_end [OF w1] slack_trans by fastforce
qed

lemma new_key_move:
  assumes "move (b, sw) (b', sw')" "core_wf b" "\<not> known_key b k" "dget (b_capacity b') k = Some c"
  shows "cap_in_flight c = 0 \<and> held b' k = []"
proof -
  have none: "held b k = []"
  proof (rule ccontr)
    assume "held b k \<noteq> []"
    then have "set (held b k) \<noteq> {}" by simp
    then obtain i a where "dget (b_runs b) i = Some a" "r_claimed_by (obj b a) = Some k"
      unfolding set_held [OF core_wf_facts(1) [OF assms(2)]] by blast
    with core_wf_facts(3,7) [OF assms(2)] have "known_key b k" by blast
    with assms(3) show False by simp
  qed
  from assms(1) show ?thesis
  proof (cases rule: move.cases)
    case (m_enqueue run_id now agent thread inp protocol h seq a)
    with assms(3,4) show ?thesis by (auto simp: known_key_def enqueue_result(9))
  next
    case (m_end t b1)
    with assms(3,4) show ?thesis
      by (auto simp: known_key_def end_run_fields calm_fields split: if_splits)
  next
    case (m_register m)
    with assms(3,4) none show ?thesis
      by (auto simp: known_key_def register_provider_def dget_default_capacity held_def obj_def)
  qed (use assms(3,4) in \<open>auto simp: known_key_def calm_fields pruned_def
         dget_take_capacity split: option.splits if_splits\<close>)
qed

lemma covered_move:
  assumes "move s t" "broker_wf s" "covered s"
  shows "covered t"
  unfolding covered_def
proof (intro allI impI)
  fix k c' assume c': "dget (b_capacity (fst t)) k = Some c'"
  show "int (length (held (fst t) k)) \<le> cap_in_flight c'"
  proof (cases "dget (b_capacity (fst s)) k")
    case None
    then show ?thesis
      using new_key_move [of "fst s" "snd s" "fst t" "snd t" k c'] assms(1,2) c'
      by (simp add: broker_wf_def known_key_def)
  next
    case (Some c)
    with assms(3) have "int (length (held (fst s) k)) \<le> cap_in_flight c" by (simp add: covered_def)
    with keeps_slackE [OF slack_move [OF assms] Some] c' show ?thesis by fastforce
  qed
qed

lemma covered_init: "binit s \<Longrightarrow> covered s"
  by (auto simp: binit_def new_broker_def covered_def)

interpretation cover: relative_invariant binit move broker_wf covered
  by unfold_locales (auto intro: wf.inv_init wf.inv_step covered_init covered_move)

subsection \<open>The declared limit\<close>

lemma late_count_nonneg: "core_wf b \<Longrightarrow> 0 \<le> lr_count (b_live b) k e"
  using core_wf_facts(2) [of b] roster_count_nonneg by (auto simp: live_ok_def)

lemma bounded_step:
  assumes "bounded (b, sw)"
    and "\<And>k c'. dget (b_capacity b') k = Some c' \<Longrightarrow>
           (\<exists>c. dget (b_capacity b) k = Some c \<and> cap_declared c' = cap_declared c \<and>
              cap_in_flight c' + expected sw' k - lr_count (b_live b') k ''answered_late''
                \<le> cap_in_flight c + expected sw k - lr_count (b_live b) k ''answered_late'')"
  shows "bounded (b', sw')"
  unfolding bounded_def
proof (intro allI impI)
  fix k c' d
  assume c': "dget (b_capacity (fst (b', sw'))) k = Some c'" "cap_declared c' = Some d"
  then obtain c where c: "dget (b_capacity b) k = Some c" "cap_declared c' = cap_declared c"
      "cap_in_flight c' + expected sw' k - lr_count (b_live b') k ''answered_late''
         \<le> cap_in_flight c + expected sw k - lr_count (b_live b) k ''answered_late''"
    using assms(2) [of k c'] by auto
  moreover have "cap_in_flight c + expected sw k
      \<le> max 0 d + lr_count (b_live b) k ''answered_late''"
    using assms(1) c c'(2) unfolding bounded_def by auto
  ultimately show "cap_in_flight c' + expected (snd (b', sw')) k
      \<le> max 0 d + lr_count (b_live (fst (b', sw'))) k ''answered_late''"
    by simp
qed

lemma bounded_prune:
  assumes "pruned b b'" "offered b' sw'" "\<not> awaiting sw" "bounded (b, sw)" "core_wf b"
  shows "bounded (b', sw')"
  unfolding bounded_def
proof (intro allI impI)
  have same: "b_capacity b' = b_capacity b" "b_live b' = b_live b"
    using assms(1) by (simp_all add: pruned_def)
  fix k c d
  assume c: "dget (b_capacity (fst (b', sw'))) k = Some c" "cap_declared c = Some d"
  then have old: "cap_in_flight c \<le> max 0 d + lr_count (b_live b) k ''answered_late''"
    using assms(3,4) by (auto simp: bounded_def same)
  have nn: "0 \<le> lr_count (b_live b) k ''answered_late''" using late_count_nonneg [OF assms(5)] .
  show "cap_in_flight c + expected (snd (b', sw')) k
      \<le> max 0 d + lr_count (b_live (fst (b', sw'))) k ''answered_late''"
  proof (cases "expected sw' k = 0")
    case False
    then obtain ag a p here rest placed where "sw' = Awaiting ag a p here rest placed"
        "c_public_key p = k" "expected sw' k = 1"
      by (auto simp: expected_def split: sweep.splits if_splits)
    with assms(2) c have "has_room c" by (auto simp: same)
    with c nn \<open>expected sw' k = 1\<close> show ?thesis by (simp add: has_room_def same)
  qed (use old in \<open>simp add: same\<close>)
qed

lemma bounded_full:
  assumes "dget (b_capacity b) (c_public_key p) = Some c" "cap_declared c = Some d"
    and "bounded (b, Awaiting ag a p here rest placed)" "core_wf b"
  shows "bounded (b\<lparr>b_capacity := dset (c_public_key p) (c\<lparr>cap_in_flight := d\<rparr>) (b_capacity b)\<rparr>,
           Walking rest placed)"
  unfolding bounded_def
proof (intro allI impI)
  let ?b = "b\<lparr>b_capacity := dset (c_public_key p) (c\<lparr>cap_in_flight := d\<rparr>) (b_capacity b)\<rparr>"
  fix k c' e
  assume c': "dget (b_capacity (fst (?b, Walking rest placed))) k = Some c'" "cap_declared c' = Some e"
  have nn: "0 \<le> lr_count (b_live b) k ''answered_late''" using late_count_nonneg [OF assms(4)] .
  show "cap_in_flight c' + expected (snd (?b, Walking rest placed)) k
      \<le> max 0 e + lr_count (b_live (fst (?b, Walking rest placed))) k ''answered_late''"
  proof (cases "k = c_public_key p")
    case True
    with c' assms(2) nn show ?thesis by auto
  next
    case False
    with c' assms(3) have "cap_in_flight c' + expected (Awaiting ag a p here rest placed) k
        \<le> max 0 e + lr_count (b_live b) k ''answered_late''"
      unfolding bounded_def by simp
    with False show ?thesis by (simp add: expected_def)
  qed
qed

lemma bounded_register:
  assumes "bounded (b, sw)" "broker_wf (b, sw)"
  shows "bounded (register_provider m b, sw)"
  unfolding bounded_def
proof (intro allI impI)
  have w: "core_wf b" using assms(2) by (simp add: broker_wf_def)
  fix k c d
  assume c: "dget (b_capacity (fst (register_provider m b, sw))) k = Some c" "cap_declared c = Some d"
  then have "dget (b_capacity b) k = Some c \<or> \<not> known_key b k \<and> cap_in_flight c = 0"
    by (auto simp: register_provider_def dget_default_capacity known_key_def split: option.splits)
  moreover have "expected sw k = 0" if "\<not> known_key b k"
    using assms(2) that
    by (auto simp: broker_wf_def sweep_ok_def expected_def split: sweep.splits)
  ultimately show "cap_in_flight c + expected (snd (register_provider m b, sw)) k
      \<le> max 0 d + lr_count (b_live (fst (register_provider m b, sw))) k ''answered_late''"
    using assms(1) c(2) late_count_nonneg [OF w, of k "''answered_late''"]
    by (auto simp: bounded_def)
qed

lemma bounded_move: "move s t \<Longrightarrow> broker_wf s \<Longrightarrow> bounded s \<Longrightarrow> bounded t"
proof (induction rule: move.induct)
  case (m_calm b b' sw' sw)
  then have live: "live_ok b" using core_wf_facts(2) by (auto simp: broker_wf_def)
  then have up: "lr_count (b_live b) k e \<le> lr_count (b_live b') k e" for k e
    using m_calm(1) by (simp add: calm_def)
  have ex: "expected sw' k \<le> expected sw k" for k using m_calm(2) by auto
  from m_calm(4) show ?case
  proof (rule bounded_step)
    fix k c' assume "dget (b_capacity b') k = Some c'"
    with up [of k "''answered_late''"] ex [of k] show "\<exists>c. dget (b_capacity b) k = Some c \<and>
        cap_declared c' = cap_declared c \<and>
        cap_in_flight c' + expected sw' k - lr_count (b_live b') k ''answered_late''
          \<le> cap_in_flight c + expected sw k - lr_count (b_live b) k ''answered_late''"
      by (auto simp: calm_fields(3) [OF m_calm(1)])
  qed
next
  case (m_enqueue i b sw now ag th inp pr h seq a b')
  from m_enqueue(4) show ?case
    by (rule bounded_step) (simp add: enqueue_result(9,10) [OF m_enqueue(2)])
next
  case (m_register m b sw)
  then show ?case by (blast intro: bounded_register)
next
  case (m_cancel b sw i)
  from m_cancel(2) show ?case by (rule bounded_step) simp
next
  case (m_late b i a p sw now)
  then have w: "core_wf b" by (simp add: broker_wf_def)
  note f = late_fields [OF core_wf_facts(3) [OF w m_late(1)]]
  from m_late(5) have "bounded (late_claimed now a i p b, sw)"
    by (rule bounded_step) (auto simp: f core_wf_facts(2) [OF w] split: if_splits)
  then show ?case by (simp add: late_claimed_def)
next
  case (m_prune b b' sw' sw)
  then show ?case by (auto simp: broker_wf_def intro: bounded_prune)
next
  case (m_refused b ag a p here rest placed reason)
  from m_refused(2) show ?case by (rule bounded_step) simp
next
  case (m_placed b ag a p here rest placed)
  from m_placed(2) show ?case
    by (rule bounded_step) (auto simp: dget_take_capacity expected_def split: if_splits)
next
  case (m_full b p c d ag a here rest placed)
  then show ?case by (auto simp: broker_wf_def intro: bounded_full)
next
  case (m_end t b b1 sw)
  then have live: "live_ok b" using core_wf_facts(2) by (auto simp: broker_wf_def)
  note f = calm_fields [OF m_end(2)] end_run_fields [of "task_address t" b1]
  have up: "lr_count (b_live b) k e \<le> lr_count (b_live b1) k e" for k e
    using m_end(2) live by (simp add: calm_def)
  from m_end(4) show ?case
  proof (rule bounded_step)
    fix k c' assume "dget (b_capacity (end_run (task_address t) b1)) k = Some c'"
    with up [of k "''answered_late''"] show "\<exists>c. dget (b_capacity b) k = Some c \<and>
        cap_declared c' = cap_declared c \<and>
        cap_in_flight c' + expected sw k - lr_count (b_live (end_run (task_address t) b1)) k ''answered_late''
          \<le> cap_in_flight c + expected sw k - lr_count (b_live b) k ''answered_late''"
      by (auto simp: f room_freed_def split: if_splits)
  qed
qed

lemma bounded_init: "binit s \<Longrightarrow> bounded s"
  by (auto simp: binit_def new_broker_def bounded_def)

interpretation bound: relative_invariant binit move broker_wf bounded
  by unfold_locales (auto intro: wf.inv_init wf.inv_step bounded_init bounded_move)

subsection \<open>Queues are first in, first out\<close>

definition fifo :: "'h broker \<Rightarrow> 'h broker \<Rightarrow> agent_ref \<Rightarrow> bool" where
  "fifo b b' ag \<longleftrightarrow> subseq (queue_of b' ag) (queue_of b ag) \<or>
     (\<exists>i. queue_of b' ag = queue_of b ag @ [i])"

lemma queue_remove_fifo: "subseq (queue_of (queue_remove g i b) ag) (queue_of b ag)"
  by (auto simp: queue_of_remove)

lemma move_shrinks:
  assumes "move (b, sw) (b', sw')"
  shows "(\<forall>ag. subseq (queue_of b' ag) (queue_of b ag)) \<or>
     (\<exists>g i. queue_of b' = (queue_of b)(g := queue_of b g @ [i]))"
  using assms
proof (cases rule: move.cases)
  case (m_enqueue i now agent thread inp protocol h seq a)
  then show ?thesis using enqueue_result(13) [OF m_enqueue(3)] by blast
next
  case (m_end t b1)
  then show ?thesis by (simp add: end_run_fields calm_fields)
qed (auto simp: calm_fields pruned_def queue_of_remove)

end
