(* ===== verification/BrokerTraces.thy ===== *)
theory BrokerTraces
  imports BrokerCapacity
begin

text \<open>
  Concrete executions of the broker: one provider that declared room for a single run, one agent.
  They witness that the invariants speak about states that occur, and they are the executions
  behind the findings about places that are never given back.
\<close>

definition demo_agent :: agent_ref where
  "demo_agent = \<lparr>ar_provider_key = ''k'', ar_name = ''a''\<rparr>"

definition demo_link :: connection where
  "demo_link = \<lparr>c_id = 0, c_public_key = ''k'', c_max_concurrent_runs = Some 1\<rparr>"

definition enqueued :: "string \<Rightarrow> unit broker \<Rightarrow> unit broker" where
  "enqueued i b = (case enqueue_run 0 i demo_agent ''t'' PNone ''ag-ui'' (Some ()) 0 b of
     Inl e \<Rightarrow> b | Inr (a, b') \<Rightarrow> b')"

text \<open>Started and registered; a run queued; the sweep awake; the offer out.\<close>

definition demo_ready :: "unit broker" where
  "demo_ready = register_provider [(demo_agent, demo_link)] (start (new_broker (Some 3)))"

definition demo_queued :: "unit broker" where
  "demo_queued = enqueued ''r1'' demo_ready"

definition demo_walking :: "unit broker" where
  "demo_walking = snd (sweep_begin 0 30 demo_queued)"

definition demo_offering :: "unit broker" where
  "demo_offering = snd (walk_agent demo_agent False [] False demo_walking)"

abbreviation demo_await :: sweep where
  "demo_await \<equiv> Awaiting demo_agent 0 demo_link False [] False"

definition demo_claimed :: "unit broker" where
  "demo_claimed = snd (sweep_answer 1 demo_agent 0 demo_link False [] False (Answered True) demo_offering)"

lemma demo_link_served: "own_mapping [(demo_agent, demo_link)]"
  by (simp add: own_mapping_def demo_agent_def demo_link_def)

lemma demo_steps:
  "sweep_begin 0 30 demo_queued = (Walking [demo_agent] False, demo_walking)"
  "walk_agent demo_agent False [] False demo_walking = (demo_await, demo_offering)"
  "sweep_answer 1 demo_agent 0 demo_link False [] False (Answered True) demo_offering =
     (Walking [] True, demo_claimed)"
  by code_simp+

lemma demo_enqueue:
  "enqueue_run 0 ''r1'' demo_agent ''t'' PNone ''ag-ui'' (Some ()) 0 demo_ready = Inr (0, demo_queued)"
  by code_simp

lemma demo_fresh: "unreferenced ''r1'' (demo_ready, Sleeping)"
proof -
  have "b_runs demo_ready = []" "b_pending demo_ready = []" "b_tasks demo_ready = []"
    by code_simp+
  then show ?thesis by (simp add: unreferenced_def queue_of_def)
qed

lemma reach_ready: "reach binit (bstep 30) (demo_ready, Sleeping)"
proof -
  have "reach binit (bstep 30) (new_broker (Some 3) :: unit broker, Sleeping)"
    by (rule reach.reach_init) (auto simp: binit_def)
  then have "reach binit (bstep 30) (start (new_broker (Some 3)) :: unit broker, Sleeping)"
    by (rule reach.reach_step) (rule s_start)
  then show ?thesis
    unfolding demo_ready_def by (rule reach.reach_step) (rule s_register [OF demo_link_served])
qed

lemma reach_queued: "reach binit (bstep 30) (demo_queued, Sleeping)"
  by (rule reach.reach_step [OF reach_ready s_enqueue [OF demo_fresh demo_enqueue]])

lemma reach_offering: "reach binit (bstep 30) (demo_offering, demo_await)"
proof -
  have "reach binit (bstep 30) (demo_walking, Walking [demo_agent] False)"
    by (rule reach.reach_step [OF reach_queued s_sweep_begin [OF demo_steps(1)]])
  then show ?thesis by (rule reach.reach_step) (rule s_walk [OF demo_steps(2)])
qed

lemma reach_claimed: "reach binit (bstep 30) (demo_claimed, Walking [] True)"
  by (rule reach.reach_step [OF reach_offering s_answer [OF demo_steps(3)]])

subsection \<open>A cancel while the offer is out\<close>

definition cancel_one_shot :: "unit broker" where
  "cancel_one_shot = snd (request_cancel ''r1'' demo_offering)"

definition cancel_ended :: "unit broker" where
  "cancel_ended = end_run 0
     (cancel_one_shot\<lparr>b_tasks := remove1 (OneShotTask 0 RequestCancel) (b_tasks cancel_one_shot)\<rparr>)"

definition cancel_leaked :: "unit broker" where
  "cancel_leaked = snd (sweep_answer 1 demo_agent 0 demo_link False [] False (Answered True) cancel_ended)"

lemma cancel_steps:
  "OneShotTask 0 RequestCancel \<in> set (b_tasks cancel_one_shot)"
  "sweep_answer 1 demo_agent 0 demo_link False [] False (Answered True) cancel_ended =
     (Walking [] True, cancel_leaked)"
  by code_simp+

lemma reach_leaked: "reach binit (bstep 30) (cancel_leaked, Walking [] True)"
proof -
  have "reach binit (bstep 30) (cancel_one_shot, demo_await)"
    unfolding cancel_one_shot_def by (rule reach.reach_step [OF reach_offering s_cancel])
  then have "reach binit (bstep 30) (cancel_ended, demo_await)"
    unfolding cancel_ended_def
    by (rule reach.reach_step) (rule s_one_shot [OF cancel_steps(1) eff_none])
  then show ?thesis by (rule reach.reach_step) (rule s_answer [OF cancel_steps(2)])
qed

lemma leaked_state:
  "active_run_ids cancel_leaked = []" "b_tasks cancel_leaked = []" "held cancel_leaked ''k'' = []"
  "dget (b_capacity cancel_leaked) ''k'' = Some \<lparr>cap_declared = Some 1, cap_in_flight = 1\<rparr>"
  by code_simp+

subsection \<open>A late answer while the next offer of the same run is out\<close>

text \<open>The broker between the two answers, written out.\<close>

definition late_acked :: "unit broker" where
  "late_acked = \<lparr>
     b_objs = [\<lparr>r_run_id = ''r1'', r_agent = demo_agent, r_thread_id = ''t'', r_input_json = PNone,
       r_protocol = ''ag-ui'', r_queued_at = 0, r_seq = 0, r_round_starting_seq = 0,
       r_pause_payload = None, r_claimed_by = Some ''k'', r_cancel_notify = Some demo_link,
       r_cancel_requested = False, r_saw_run_finished = False, r_saw_run_error = False,
       r_in_queue = [Claim], r_out_queue = []\<rparr>],
     b_runs = [(''r1'', 0)],
     b_pending = [(demo_agent, [])],
     b_live = \<lparr>lr_links = [(demo_agent, demo_link)], lr_counter_names = COUNTERS,
       lr_counters = [(''k'', [(''misdeclared'', 0), (''abandoned'', 0), (''unanswered'', 0),
                             (''answered_late'', 1)])]\<rparr>,
     b_unserved_since = [],
     b_capacity = [(''k'', \<lparr>cap_declared = Some 1, cap_in_flight = 1\<rparr>)],
     b_handlers = [(''r1'', ())], b_tasks = [PipelineTask 0 ()],
     b_work_to_do = False, b_is_running = True, b_quality_tolerance = Some 3,
     b_forget_calls = []\<rparr>"

definition late_twice :: "unit broker" where
  "late_twice = snd (sweep_answer 2 demo_agent 0 demo_link False [] False (Answered True) late_acked)"

lemma late_steps:
  "snd (accept_late_ack 1 ''r1'' ''k'' demo_offering) = late_acked"
  "sweep_answer 2 demo_agent 0 demo_link False [] False (Answered True) late_acked =
     (Walking [] True, late_twice)"
  by code_simp+

lemma reach_late_twice: "reach binit (bstep 30) (late_twice, Walking [] True)"
proof -
  have "reach binit (bstep 30) (late_acked, demo_await)"
    using reach.reach_step [OF reach_offering s_late_ack, of 1 "''r1''" "''k''"]
    by (simp add: late_steps(1))
  then show ?thesis by (rule reach.reach_step) (rule s_answer [OF late_steps(2)])
qed

lemma late_twice_state:
  "active_run_ids late_twice = [''r1'']"
  "b_tasks late_twice = [PipelineTask 0 (), PipelineTask 0 ()]" "held late_twice ''k'' = [''r1'']"
  "dget (b_capacity late_twice) ''k'' = Some \<lparr>cap_declared = Some 1, cap_in_flight = 2\<rparr>"
  by code_simp+

end
