(* ===== verification/BrokerExpiry.thy ===== *)
theory BrokerExpiry
  imports BrokerMoves
begin

text \<open>
  \<open>expire_queued\<close> as a specification: which runs it gives up on, what it leaves in the queues and
  which tasks it starts.  The loop removes ids from the queue it walks a copy of; the result is a
  partition of the queue by \<open>overdue\<close>.
\<close>

definition overdue :: "'h broker \<Rightarrow> int \<Rightarrow> agent_ref \<Rightarrow> string \<Rightarrow> bool" where
  "overdue b cutoff ag i =
     (case dget (b_runs b) i of
        None \<Rightarrow> False
      | Some a \<Rightarrow> (case dget (b_unserved_since b) ag of
                    None \<Rightarrow> r_queued_at (obj b a)
                  | Some since \<Rightarrow> max (r_queued_at (obj b a)) since) \<le> cutoff)"

definition expiry_task :: "'h broker \<Rightarrow> string \<Rightarrow> 'h task" where
  "expiry_task b i = OneShotTask (the (dget (b_runs b) i)) (Fail ''no_provider_took_it'')"

definition remove_each :: "string list \<Rightarrow> string list \<Rightarrow> string list" where
  "remove_each = fold remove1"

lemma remove_each_absent: "x \<notin> set ys \<Longrightarrow> remove_each ys (x # zs) = x # remove_each ys zs"
  unfolding remove_each_def by (induction ys arbitrary: zs) auto

text \<open>Removing every entry that satisfies \<open>P\<close>, one by one, leaves the entries that do not.\<close>

lemma remove_each_filter: "remove_each (filter P q) q = filter (\<lambda>x. \<not> P x) q"
proof (induction q)
  case (Cons x q)
  show ?case
  proof (cases "P x")
    case True
    with Cons show ?thesis by (simp add: remove_each_def)
  next
    case False
    then have "x \<notin> set (filter P q)" by simp
    with Cons False show ?thesis by (simp add: remove_each_absent)
  qed
qed (simp add: remove_each_def)

text \<open>What the walk over one agent's ids reads does not change on the way.\<close>

definition same_reads :: "'h broker \<Rightarrow> 'h broker \<Rightarrow> bool" where
  "same_reads b b' \<longleftrightarrow> b_runs b' = b_runs b \<and> b_objs b' = b_objs b \<and> b_live b' = b_live b \<and>
     b_unserved_since b' = b_unserved_since b \<and> b_capacity b' = b_capacity b \<and>
     b_handlers b' = b_handlers b"

lemma same_reads_overdue:
  assumes "same_reads b b'"
  shows "overdue b' = overdue b" "expiry_task b' = expiry_task b" "serving b' = serving b"
proof -
  have o: "obj b' = obj b" using assms by (simp add: same_reads_def obj_def fun_eq_iff)
  show "overdue b' = overdue b"
    using assms o by (intro ext) (simp add: same_reads_def overdue_def split: option.split)
qed (use assms in \<open>simp_all add: same_reads_def expiry_task_def serving_def fun_eq_iff\<close>)

lemma same_reads_refl [simp]: "same_reads b b"
  by (simp add: same_reads_def)

lemma same_reads_trans: "same_reads b b' \<Longrightarrow> same_reads b' b'' \<Longrightarrow> same_reads b b''"
  by (simp add: same_reads_def)

lemma same_reads_expired:
  "same_reads b (spawn t (queue_remove ag i b))"
  by (simp add: same_reads_def)

lemma expire_agent_result:
  "expire_agent now cutoff ag ids b = (es, b') \<Longrightarrow>
     es = filter (overdue b cutoff ag) ids \<and> same_reads b b' \<and>
     b_tasks b' = b_tasks b @ map (expiry_task b) es \<and>
     queue_of b' = (queue_of b)(ag := remove_each es (queue_of b ag))"
proof (induction now cutoff ag ids b arbitrary: es b' rule: expire_agent.induct)
  case (1 now cutoff ag b)
  then show ?case by (auto simp: remove_each_def)
next
  case (2 now cutoff ag i ids b)
  show ?case
  proof (cases "overdue b cutoff ag i")
    case False
    with 2(4) have e: "expire_agent now cutoff ag ids b = (es, b')"
      by (auto simp: overdue_def Let_def split: option.splits if_splits prod.splits)
    have "es = filter (overdue b cutoff ag) ids \<and> same_reads b b' \<and>
        b_tasks b' = b_tasks b @ map (expiry_task b) es \<and>
        queue_of b' = (queue_of b)(ag := remove_each es (queue_of b ag))"
    proof (cases "dget (b_runs b) i")
      case None
      from 2(1) [OF None e] show ?thesis .
    next
      case (Some a)
      with False have "cutoff < (case dget (b_unserved_since b) ag of
          None \<Rightarrow> r_queued_at (obj b a) | Some since \<Rightarrow> max (r_queued_at (obj b a)) since)"
        by (simp add: overdue_def not_le)
      from 2(2) [OF Some refl this e] show ?thesis .
    qed
    with False show ?thesis by simp
  next
    case True
    then obtain a where a: "dget (b_runs b) i = Some a"
      by (auto simp: overdue_def split: option.splits)
    let ?b = "spawn (OneShotTask a (Fail ''no_provider_took_it'')) (queue_remove ag i b)"
    have late: "\<not> cutoff < (case dget (b_unserved_since b) ag of
        None \<Rightarrow> r_queued_at (obj b a) | Some since \<Rightarrow> max (r_queued_at (obj b a)) since)"
      using True a by (simp add: overdue_def not_less)
    obtain es1 b1 where e: "expire_agent now cutoff ag ids ?b = (es1, b1)"
      by (cases "expire_agent now cutoff ag ids ?b")
    with 2(4) a late have r: "es = i # es1" "b' = b1" by (auto simp: Let_def)
    have sr: "same_reads b ?b" by (rule same_reads_expired)
    from 2(3) [OF a refl late e]
    have IH: "es1 = filter (overdue ?b cutoff ag) ids" "same_reads ?b b1"
        "b_tasks b1 = b_tasks ?b @ map (expiry_task ?b) es1"
        "queue_of b1 = (queue_of ?b)(ag := remove_each es1 (queue_of ?b ag))"
      by blast+
    have t: "expiry_task b i = OneShotTask a (Fail ''no_provider_took_it'')"
      using a by (simp add: expiry_task_def)
    show ?thesis
    proof (intro conjI)
      show "es = filter (overdue b cutoff ag) (i # ids)"
        using r IH(1) True same_reads_overdue(1) [OF sr] by simp
      show "same_reads b b'" using same_reads_trans [OF sr IH(2)] r by simp
      show "b_tasks b' = b_tasks b @ map (expiry_task b) es"
        using IH(3) r t same_reads_overdue(2) [OF sr] by simp
      show "queue_of b' = (queue_of b)(ag := remove_each es (queue_of b ag))"
        using IH(4) r by (auto simp: queue_of_remove remove_each_def fun_eq_iff)
    qed
  qed
qed

lemma expire_agents_result:
  "expire_agents now cutoff ags b = (es, b') \<Longrightarrow> distinct ags \<Longrightarrow>
     es = concat (map (\<lambda>ag. filter (overdue b cutoff ag) (queue_of b ag))
                    (filter (\<lambda>ag. serving b ag = None) ags)) \<and>
     same_reads b b' \<and> b_tasks b' = b_tasks b @ map (expiry_task b) es \<and>
     (\<forall>ag. queue_of b' ag =
        (if ag \<in> set ags \<and> serving b ag = None
         then filter (\<lambda>i. \<not> overdue b cutoff ag i) (queue_of b ag) else queue_of b ag))"
proof (induction now cutoff ags b arbitrary: es b' rule: expire_agents.induct)
  case (2 now cutoff ag ags b)
  show ?case
  proof (cases "serving b ag")
    case (Some p)
    with 2(1,3,4) show ?thesis by auto
  next
    case None
    obtain e1 b1 where 1: "expire_agent now cutoff ag (queue_of b ag) b = (e1, b1)"
      by (cases "expire_agent now cutoff ag (queue_of b ag) b")
    obtain e2 b2 where e2: "expire_agents now cutoff ags b1 = (e2, b2)"
      by (cases "expire_agents now cutoff ags b1")
    from 2(3) None 1 e2 have r: "es = e1 @ e2" "b' = b2" by auto
    note A = expire_agent_result [OF 1]
    then have sr: "same_reads b b1" by blast
    have q1: "queue_of b1 = (queue_of b)(ag := filter (\<lambda>i. \<not> overdue b cutoff ag i) (queue_of b ag))"
      using A remove_each_filter by metis
    have same: "overdue b1 = overdue b" "serving b1 = serving b" "expiry_task b1 = expiry_task b"
      using same_reads_overdue [OF sr] by auto
    from 2(2) [of "(e1, b1)", OF _ _ _ e2] None 1 2(4)
    have B: "e2 = concat (map (\<lambda>ag. filter (overdue b cutoff ag) (queue_of b1 ag))
                (filter (\<lambda>ag. serving b ag = None) ags))"
        "same_reads b1 b2" "b_tasks b2 = b_tasks b1 @ map (expiry_task b) e2"
        "\<And>g. queue_of b2 g = (if g \<in> set ags \<and> serving b g = None
           then filter (\<lambda>i. \<not> overdue b cutoff g i) (queue_of b1 g) else queue_of b1 g)"
      by (simp_all add: same)
    have "map (\<lambda>ag. filter (overdue b cutoff ag) (queue_of b1 ag))
              (filter (\<lambda>ag. serving b ag = None) ags) =
          map (\<lambda>ag. filter (overdue b cutoff ag) (queue_of b ag))
              (filter (\<lambda>ag. serving b ag = None) ags)"
      using 2(4) by (intro map_cong) (auto simp: q1)
    note same_map = this
    have e1: "e1 = filter (overdue b cutoff ag) (queue_of b ag)"
        "b_tasks b1 = b_tasks b @ map (expiry_task b) e1"
      using A by blast+
    show ?thesis
    proof (intro conjI allI)
      show "es = concat (map (\<lambda>ag. filter (overdue b cutoff ag) (queue_of b ag))
              (filter (\<lambda>ag. serving b ag = None) (ag # ags)))"
        using r e1(1) B(1) None by (simp add: same_map)
      show "same_reads b b'" using same_reads_trans [OF sr B(2)] r by simp
      show "b_tasks b' = b_tasks b @ map (expiry_task b) es" using r e1(2) B(3) by simp
      fix g
      show "queue_of b' g = (if g \<in> set (ag # ags) \<and> serving b g = None
          then filter (\<lambda>i. \<not> overdue b cutoff g i) (queue_of b g) else queue_of b g)"
        using r B(4) [of g] None 2(4) by (auto simp: q1)
    qed
  qed
qed simp

end
