(* ===== verification/BrokerClaims.thy ===== *)
theory BrokerClaims
  imports BrokerTraces BrokerExpiry
begin

text \<open>
  What the broker guarantees, stated for every state that some interleaving of callers, sweep and
  tasks reaches (\<open>reach binit (bstep timeout)\<close>), and what the two places it loses lead to.
\<close>

subsection \<open>Invariants\<close>



text \<open>C4: Only the agent's own provider ever holds its run. In every reachable state a claimed run is
  claimed by the key of its own agent, the agent's connection is a connection of that key, an agent's
  queue lists runs of that agent only, and an outstanding offer of a run goes to the connection that
  has the key of the run's agent.\<close>

theorem runs_are_held_by_their_own_provider:
  assumes "reach binit (bstep timeout) (b, sw)"
  shows "(a < length (b_objs b) \<longrightarrow> r_claimed_by (obj b a) = Some k \<longrightarrow>
            k = ar_provider_key (r_agent (obj b a)))
    \<and> (serving b ag = Some p \<longrightarrow> c_public_key p = ar_provider_key ag)
    \<and> (i \<in> set (queue_of b ag) \<longrightarrow> dget (b_runs b) i = Some a \<longrightarrow> r_agent (obj b a) = ag)
    \<and> (sw = Awaiting ag a p here rest placed \<longrightarrow>
         r_agent (obj b a) = ag \<and> c_public_key p = ar_provider_key ag)"
proof -
  have "broker_wf (b, sw)" "own_ok (b, sw)"
    using own.both.holds [OF reach_move [OF assms(1)]] by simp_all
  then show ?thesis
    using served_okD(1) [of b ag p]
    by (auto simp: broker_wf_def core_wf_def own_ok_def claims_own_def queues_own_def offer_own_def Let_def)
qed

lemma runs_are_held_by_their_own_provider_witness:
  "0 < length (b_objs demo_claimed) \<and> r_claimed_by (obj demo_claimed 0) = Some ''k'' \<and>
     ''k'' = ar_provider_key (r_agent (obj demo_claimed 0))"
proof -
  have "0 < length (b_objs demo_claimed)" "r_claimed_by (obj demo_claimed 0) = Some ''k''"
    by code_simp+
  with runs_are_held_by_their_own_provider [OF reach_claimed, of 0 "''k''"] show ?thesis by blast
qed

text \<open>C3: A provider's in-flight figure is at least the number of tracked runs it holds, and, for a
  provider with a declared limit, it exceeds that limit by no more than the number of late answers
  the provider gave, one place being kept free while an offer to it is outstanding. So the runs
  a provider holds at once are bounded by what it declared and its own late answers.\<close>

theorem in_flight_within_declared:
  assumes "reach binit (bstep timeout) (b, sw)" "dget (b_capacity b) k = Some c"
  shows "0 \<le> cap_in_flight c \<and> int (length (held b k)) \<le> cap_in_flight c
    \<and> (cap_declared c = Some d \<longrightarrow>
         cap_in_flight c + expected sw k \<le> max 0 d + lr_count (b_live b) k ''answered_late'')"
proof -
  have "broker_wf (b, sw)" "covered (b, sw)" "bounded (b, sw)"
    using cover.both.holds [OF reach_move [OF assms(1)]] bound.both.holds [OF reach_move [OF assms(1)]]
    by simp_all
  with assms(2) core_wf_facts(5) [of b k c] show ?thesis
    by (auto simp: broker_wf_def covered_def bounded_def)
qed

lemma in_flight_within_declared_witness:
  "int (length (held demo_claimed ''k'')) \<le> 1 \<and>
     1 + expected (Walking [] True) ''k'' \<le> max 0 1 + lr_count (b_live demo_claimed) ''k'' ''answered_late''"
proof -
  have "dget (b_capacity demo_claimed) ''k'' = Some \<lparr>cap_declared = Some 1, cap_in_flight = 1\<rparr>"
    by code_simp
  from in_flight_within_declared [OF reach_claimed this, of 1] show ?thesis by simp
qed

subsection \<open>Offers and queues\<close>

text \<open>The loop of \<open>_offer_pending\<close> up to its \<open>await\<close> computes the following: the dead heads of the
  agent's queue (ids no longer tracked, runs cancelled while queued) are dropped, nothing else
  changes, and the first live run is offered exactly when the agent is served and its provider has
  room.\<close>

theorem offer_loop_drops_dead_heads:
  "scan agent b =
     (case serving b agent of
        None \<Rightarrow> (ScanReturn, b)
      | Some provider \<Rightarrow>
          (let q = dropWhile (dead b) (queue_of b agent);
               b' = (if q = queue_of b agent then b else set_queue agent q b)
           in case q of
                [] \<Rightarrow> (ScanReturn, b')
              | run_id # _ \<Rightarrow>
                  (case (dget (b_runs b) run_id, dget (b_capacity b) (c_public_key provider)) of
                     (Some a, Some c) \<Rightarrow>
                       if has_room c then (ScanOffer a provider, b') else (ScanReturn, b')
                   | (Some a, None) \<Rightarrow> (ScanOffer a provider, b')
                   | (None, _) \<Rightarrow> (ScanReturn, b'))))"
  by (rule scan_drops_dead_heads)

lemma offer_answer_queue: "queue_of (snd (offer_answer now a p ans b)) = queue_of b"
  by (auto simp: offer_answer_def Let_def split: answer.split option.split)

lemma walk_queue:
  "walk_agent ag here rest placed b = (sw', b') \<Longrightarrow> subseq (queue_of b' g) (queue_of b g)"
  using pruned_scan [of b ag]
  by (auto simp: walk_agent_def pruned_def split: prod.splits scan_result.splits)

lemma queue_start_stop: "queue_of (start b) = queue_of b" "queue_of (stop b) = queue_of b"
  by (simp_all add: start_def stop_def queue_of_def fun_eq_iff)

lemma sweep_begin_queue:
  "sweep_begin now timeout b = (sw', b') \<Longrightarrow> subseq (queue_of b' g) (queue_of b g)"
  using pruned_expire_agents [of b now "now - timeout" "dkeys (b_pending b)"]
  by (auto simp: sweep_begin_def expire_queued_def Let_def pruned_def queue_of_def)

lemma sweep_answer_queue:
  assumes "sweep_answer now ag a p here rest placed ans b = (sw', b')"
  shows "subseq (queue_of b' g) (queue_of b g)"
proof -
  obtain out b1 where o: "offer_answer now a p ans b = (out, b1)"
    by (cases "offer_answer now a p ans b")
  then have q: "queue_of b1 = queue_of b" using offer_answer_queue [of now a p ans b] by simp
  let ?b = "queue_remove ag (r_run_id (obj b a)) b1"
  have "subseq (queue_of ?b g) (queue_of b g)" by (auto simp: queue_of_remove q)
  moreover have "subseq (queue_of b' g) (queue_of ?b g) \<or> b' = b1"
    using assms o walk_queue [of ag _ rest placed ?b sw' b' g]
    by (auto simp: sweep_answer_def Let_def split: outcome.splits)
  ultimately show ?thesis using q by (auto intro: subseq_order.trans)
qed

text \<open>Queues are first in, first out. A step of the broker either appends one new, unreferenced
  run id at the end of one agent's queue, or leaves every queue a subsequence of what it was:
  nothing is reordered, duplicated, moved to another agent or put back.\<close>

theorem queues_are_fifo:
  assumes "bstep timeout (b, sw) (b', sw')"
  shows "(\<forall>ag. subseq (queue_of b' ag) (queue_of b ag))
    \<or> (\<exists>ag i. unreferenced i (b, sw) \<and> queue_of b' = (queue_of b)(ag := queue_of b ag @ [i]))"
  using assms
proof (cases rule: bstep.cases)
  case (s_enqueue run_id now agent thread inp protocol h seq a)
  then show ?thesis using enqueue_result(13) [OF s_enqueue(3)] by blast
next
  case (s_late_ack now run_id key)
  then show ?thesis by (auto simp: accept_late_ack_def queue_of_remove split: option.split)
next
  case (s_sweep_begin now)
  then show ?thesis by (simp add: sweep_begin_queue)
next
  case (s_pipeline a h cmd cmds b1)
  have "queue_of b1 = queue_of b"
    using calm_fields(2) [OF calm_handler_effect [OF s_pipeline(4)]] by simp
  with s_pipeline show ?thesis by (simp add: end_run_fields)
next
  case (s_one_shot a cmd b1)
  have "queue_of b1 = queue_of b"
    using calm_fields(2) [OF calm_handler_effect [OF s_one_shot(4)]] by simp
  with s_one_shot show ?thesis by (simp add: end_run_fields)
qed (auto simp: queue_start_stop calm_fields(2) [OF calm_push] calm_fields(2) [OF calm_unregister] walk_queue sweep_answer_queue)

lemma queues_are_fifo_witness:
  "\<exists>ag i. unreferenced i (demo_ready, Sleeping) \<and>
     queue_of demo_queued = (queue_of demo_ready)(ag := queue_of demo_ready ag @ [i])"
proof -
  have q: "queue_of demo_queued demo_agent = [''r1'']" "queue_of demo_ready demo_agent = []"
    by code_simp+
  have "\<not> (\<forall>ag. subseq (queue_of demo_queued ag) (queue_of demo_ready ag))"
    by (rule notI, drule spec [of _ demo_agent]) (simp add: q)
  with queues_are_fifo [OF s_enqueue [OF demo_fresh demo_enqueue]] show ?thesis by blast
qed

text \<open>What \<open>expire_queued\<close> gives up on. For every agent without a provider it removes exactly the
  queued runs whose clock (the later of their enqueueing and the moment the agent lost its
  provider) is not after the cutoff, in queue order, starts for each one task that fails it with
  \<open>no_provider_took_it\<close>, and leaves the rest of that queue and every served agent's queue alone,
  although the loop edits the queue it walks.\<close>

theorem expiry_partitions_the_queues:
  assumes "expire_queued now timeout b = (expired, b')" "dict_ok (b_pending b)"
  shows "expired = concat (map (\<lambda>ag. filter (overdue b (now - timeout) ag) (queue_of b ag))
                    (filter (\<lambda>ag. serving b ag = None) (dkeys (b_pending b))))
    \<and> b_tasks b' = b_tasks b @ map (expiry_task b) expired
    \<and> (\<forall>ag. queue_of b' ag =
         (if serving b ag = None then filter (\<lambda>i. \<not> overdue b (now - timeout) ag i) (queue_of b ag)
          else queue_of b ag))
    \<and> b_runs b' = b_runs b \<and> b_capacity b' = b_capacity b \<and> b_handlers b' = b_handlers b"
proof -
  have none: "ag \<notin> set (dkeys (b_pending b)) \<Longrightarrow> queue_of b ag = []" for ag
    by (auto simp: queue_of_def split: option.split dest: dget_Some_in_keys)
  have r: "expired = concat (map (\<lambda>ag. filter (overdue b (now - timeout) ag) (queue_of b ag))
              (filter (\<lambda>ag. serving b ag = None) (dkeys (b_pending b))))"
      "same_reads b b'" "b_tasks b' = b_tasks b @ map (expiry_task b) expired"
      "\<And>ag. queue_of b' ag =
         (if ag \<in> set (dkeys (b_pending b)) \<and> serving b ag = None
          then filter (\<lambda>i. \<not> overdue b (now - timeout) ag i) (queue_of b ag) else queue_of b ag)"
    using expire_agents_result [of now "now - timeout" "dkeys (b_pending b)" b expired b'] assms
    by (simp_all add: expire_queued_def)
  have "queue_of b' ag = (if serving b ag = None
      then filter (\<lambda>i. \<not> overdue b (now - timeout) ag i) (queue_of b ag) else queue_of b ag)" for ag
    using r(4) [of ag] none [of ag] by auto
  with r(1-3) show ?thesis by (simp add: same_reads_def)
qed

lemma expiry_partitions_the_queues_witness:
  "queue_of (snd (expire_queued 100 30 (unregister_provider 1 [demo_agent] demo_queued))) demo_agent = []"
proof -
  let ?b = "unregister_provider 1 [demo_agent] demo_queued"
  have "dict_ok (b_pending ?b)" "serving ?b demo_agent = None" "queue_of ?b demo_agent = [''r1'']"
      "overdue ?b 70 demo_agent ''r1''"
    by code_simp+
  with expiry_partitions_the_queues [of 100 30 ?b "fst (expire_queued 100 30 ?b)"
      "snd (expire_queued 100 30 ?b)"]
  show ?thesis by simp
qed

text \<open>The quality allowance. An abnormal event of any of the four kinds adds one to that kind's
  counter of that provider and to no other, and the provider is taken out of service, for all its
  agents at once, exactly when the count has reached the tolerance; without a tolerance, below
  it, and for other providers, what is served does not change.\<close>

theorem abnormal_event_spends_the_allowance:
  assumes "live_ok b" "ev \<in> set COUNTERS"
  shows "lr_count (b_live (note_abnormal now k ev b)) j c =
           lr_count (b_live b) j c + (if j = k \<and> c = ev then 1 else 0)
    \<and> serving (note_abnormal now k ev b) ag =
           (case b_quality_tolerance b of
              None \<Rightarrow> serving b ag
            | Some tolerance \<Rightarrow>
                if tolerance \<le> lr_count (b_live b) k ev + 1 \<and> ar_provider_key ag = k then None
                else serving b ag)
    \<and> queue_of (note_abnormal now k ev b) = queue_of b \<and> b_runs (note_abnormal now k ev b) = b_runs b"
  using note_abnormal_counts(2,3) [OF assms] by simp

lemma abnormal_event_spends_the_allowance_witness:
  "lr_count (b_live (note_abnormal 5 ''k'' ''unanswered'' demo_claimed)) ''k'' ''unanswered'' =
     lr_count (b_live demo_claimed) ''k'' ''unanswered'' + 1"
proof -
  have "live_ok demo_claimed"
    using wf.holds [OF reach_move [OF reach_claimed]] core_wf_facts(2) by (auto simp: broker_wf_def)
  from abnormal_event_spends_the_allowance [OF this counter_names(3)] show ?thesis by simp
qed

subsection \<open>Places that are never given back\<close>

lemma slack_moves:
  assumes "moves s t" "broker_wf s" "covered s"
  shows "broker_wf t \<and> covered t \<and> keeps_slack (fst s) (fst t)"
  using assms unfolding moves_def
proof (induction rule: rtranclp_induct)
  case (step t u)
  then show ?case
    using slack_move [OF step(2)] slack_trans cover.both.inv_step [of t u] by blast
qed simp

lemma slack_steps:
  assumes "(bstep timeout)\<^sup>*\<^sup>* s t" "broker_wf s" "covered s"
  shows "broker_wf t \<and> covered t \<and> keeps_slack (fst s) (fst t)"
  using assms
proof (induction rule: rtranclp_induct)
  case (step t u)
  then show ?case using slack_moves [OF bstep_moves [OF step(2)]] slack_trans by blast
qed simp

text \<open>A place is lost for good. Once a provider's in-flight figure exceeds the runs it holds by its
  declared limit, no later state reachable by any steps (including its registering again) has room
  for it, and no later sweep offers any run to a connection with its key.\<close>

theorem lost_places_stay_lost:
  assumes "reach binit (bstep timeout) (b, sw)" "(bstep timeout)\<^sup>*\<^sup>* (b, sw) (b', sw')"
    and "dget (b_capacity b) k = Some c" "cap_declared c = Some d"
    and "d \<le> cap_in_flight c - int (length (held b k))"
  shows "(\<exists>c'. dget (b_capacity b') k = Some c' \<and> \<not> has_room c')
    \<and> (walk_agent ag here rest placed b' = (Awaiting ag' a p here' rest' placed', b'')
         \<longrightarrow> c_public_key p \<noteq> k)"
proof -
  have "broker_wf (b, sw)" "covered (b, sw)"
    using cover.both.holds [OF reach_move [OF assms(1)]] by simp_all
  from slack_steps [OF assms(2) this] have "keeps_slack b b'" by simp
  from this assms(3) obtain c' where
    c': "dget (b_capacity b') k = Some c'" "cap_declared c' = cap_declared c"
    "cap_in_flight c - int (length (held b k)) \<le> cap_in_flight c' - int (length (held b' k))"
    by (rule keeps_slackE)
  from c'(3) assms(5) have "d \<le> cap_in_flight c'" by linarith
  with c'(2) assms(4) have full: "\<not> has_room c'" by (simp add: has_room_def)
  moreover have "c_public_key p \<noteq> k"
    if w: "walk_agent ag here rest placed b' = (Awaiting ag' a p here' rest' placed', b'')"
  proof -
    from w have "scan ag b' = (ScanOffer a p, b'')"
      by (auto simp: walk_agent_def split: prod.splits scan_result.splits)
    from scan_offer(4) [OF this] c'(1) full show ?thesis by auto
  qed
  ultimately show ?thesis using c'(1) by blast
qed

lemma lost_places_stay_lost_witness:
  "\<exists>c'. dget (b_capacity (register_provider [(demo_agent, demo_link)] cancel_leaked)) ''k'' = Some c' \<and>
     \<not> has_room c'"
proof -
  have "(bstep 30)\<^sup>*\<^sup>* (cancel_leaked, Walking [] True)
      (register_provider [(demo_agent, demo_link)] cancel_leaked, Walking [] True)"
    by (rule r_into_rtranclp) (rule s_register [OF demo_link_served])
  from lost_places_stay_lost [OF reach_leaked this leaked_state(4)] leaked_state(3)
  show ?thesis by simp
qed

text \<open>A run cancelled while its offer is outstanding loses its provider's place. From a broker with
  one provider that declared room for one run, there is an execution (enqueue, offer, cancel, the
  provider then accepts) that ends with no tracked run and no task, and with the provider's figure
  still at its limit.\<close>

theorem cancel_during_an_offer_loses_a_place:
  "\<exists>b :: unit broker. reach binit (bstep 30) (b, Walking [] True) \<and> active_run_ids b = [] \<and>
     b_tasks b = [] \<and> held b ''k'' = [] \<and>
     dget (b_capacity b) ''k'' = Some \<lparr>cap_declared = Some 1, cap_in_flight = 1\<rparr>"
  using reach_leaked leaked_state by blast

text \<open>A late ack that arrives while the same run is on offer again is counted twice. There is an
  execution after which one tracked run has two pipeline tasks and its provider, which declared
  room for one run, is counted with two in flight.\<close>

theorem late_ack_during_an_offer_claims_twice:
  "\<exists>b :: unit broker. reach binit (bstep 30) (b, Walking [] True) \<and> active_run_ids b = [''r1''] \<and>
     b_tasks b = [PipelineTask 0 (), PipelineTask 0 ()] \<and> held b ''k'' = [''r1''] \<and>
     dget (b_capacity b) ''k'' = Some \<lparr>cap_declared = Some 1, cap_in_flight = 2\<rparr>"
  using reach_late_twice late_twice_state by blast

end
