(* ===== verification/Text.thy ===== *)
theory Text
  imports PyVal
begin

text \<open>
  The Python text operations the signing payloads and certificates use: \<open>f"{n}"\<close> of an integer,
  \<open>int(x)\<close>, \<open>','.join(xs)\<close> and \<open>sorted(xs)\<close>.  A payload is represented by the text whose
  \<open>.encode()\<close> is signed; UTF-8 encoding loses nothing.
\<close>

subsection \<open>Integers as text\<close>

definition digit_char :: "nat \<Rightarrow> char" where
  "digit_char d = char_of (48 + d)"

fun render_nat :: "nat \<Rightarrow> string" where
  "render_nat n =
     (if n < 10 then [digit_char n] else render_nat (n div 10) @ [digit_char (n mod 10)])"

declare render_nat.simps [simp del]

definition render_int :: "int \<Rightarrow> string" where
  "render_int n = (if n < 0 then CHR ''-'' # render_nat (nat (- n)) else render_nat (nat n))"

definition is_digit :: "char \<Rightarrow> bool" where
  "is_digit c = (48 \<le> (of_char c :: nat) \<and> (of_char c :: nat) \<le> 57)"

definition digit_val :: "char \<Rightarrow> int" where
  "digit_val c = int (of_char c) - 48"

definition is_blank :: "char \<Rightarrow> bool" where
  "is_blank c = ((of_char c :: nat) \<in> {9, 10, 11, 12, 13, 28, 29, 30, 31, 32, 133, 160})"

text \<open>The digits of a number literal: single underscores may stand between digits.\<close>

fun digits :: "int \<Rightarrow> bool \<Rightarrow> string \<Rightarrow> int option" where
  "digits acc after_digit [] = (if after_digit then Some acc else None)"
| "digits acc after_digit (c # cs) =
     (if is_digit c then digits (10 * acc + digit_val c) True cs
      else if c = CHR ''_'' \<and> after_digit then digits acc False cs
      else None)"

definition strip :: "string \<Rightarrow> string" where
  "strip s = rev (dropWhile is_blank (rev (dropWhile is_blank s)))"

text \<open>\<open>int(s)\<close> of a string, and \<open>int(x)\<close> of a JSON value.\<close>

definition int_of_string :: "string \<Rightarrow> int option" where
  "int_of_string s =
     (case strip s of
        [] \<Rightarrow> None
      | c # cs \<Rightarrow>
          if c = CHR ''-'' then map_option uminus (digits 0 False cs)
          else if c = CHR ''+'' then digits 0 False cs
          else digits 0 False (c # cs))"

fun py_int :: "pyval \<Rightarrow> int result" where
  "py_int (PInt n) = Inr n"
| "py_int (PBool b) = Inr (if b then 1 else 0)"
| "py_int (PStr s) = (case int_of_string s of None \<Rightarrow> Inl ValueError | Some n \<Rightarrow> Inr n)"
| "py_int _ = Inl TypeError"

lemma of_digit_char: "d < 10 \<Longrightarrow> of_char (digit_char d) = 48 + (d :: nat)"
  by (simp add: digit_char_def)

lemma digit_char_not:
  "d < 10 \<Longrightarrow> (of_char c :: nat) < 48 \<or> 57 < (of_char c :: nat) \<Longrightarrow> digit_char d \<noteq> c"
  using of_digit_char by fastforce

lemma digit_char_facts:
  assumes "d < 10"
  shows "is_digit (digit_char d)" "digit_val (digit_char d) = int d" "\<not> is_blank (digit_char d)"
    "digit_char d \<noteq> CHR ''-''" "digit_char d \<noteq> CHR '':''" "digit_char d \<noteq> CHR '',''"
    "digit_char d \<noteq> CHR ''+''"
  using assms of_digit_char [OF assms]
  by (auto simp: is_digit_def digit_val_def is_blank_def intro: digit_char_not [OF assms])

lemma render_nat_digits: "c \<in> set (render_nat n) \<Longrightarrow> \<exists>d < 10. c = digit_char d"
proof (induction n rule: render_nat.induct)
  case (1 n)
  show ?case
  proof (cases "n < 10")
    case True
    with 1(2) show ?thesis by (subst (asm) render_nat.simps) auto
  next
    case False
    with 1(2) have "c \<in> set (render_nat (n div 10)) \<or> c = digit_char (n mod 10)"
      by (subst (asm) render_nat.simps) auto
    with 1(1) False show ?thesis by (auto intro: exI [of _ "n mod 10"])
  qed
qed

lemma render_nat_nonempty [simp]: "render_nat n \<noteq> []"
  by (subst render_nat.simps) simp

lemma digits_digit:
  assumes "\<And>c. c \<in> set xs \<Longrightarrow> \<exists>d < 10. c = digit_char d" "xs \<noteq> [] \<or> ok"
  shows "digits acc ok (xs @ ys) =
     digits (foldl (\<lambda>v c. 10 * v + digit_val c) acc xs) True ys"
  using assms
proof (induction xs arbitrary: acc ok)
  case (Cons c xs)
  from Cons.prems(1) [of c] obtain d where "d < 10" "c = digit_char d" by auto
  with Cons show ?case by (simp add: digit_char_facts)
qed (cases ys; simp)

lemma fold_render: "foldl (\<lambda>v c. 10 * v + digit_val c) 0 (render_nat n) = int n"
proof (induction n rule: render_nat.induct)
  case (1 n)
  show ?case
  proof (cases "n < 10")
    case True
    then show ?thesis by (subst render_nat.simps) (simp add: digit_char_facts)
  next
    case False
    have "n mod 10 < 10" "10 * int (n div 10) + int (n mod 10) = int n" by presburger+
    with 1 False show ?thesis
      by (subst render_nat.simps) (simp add: digit_char_facts)
  qed
qed

lemma digits_render: "digits 0 False (render_nat n) = Some (int n)"
  using digits_digit [of "render_nat n" False 0 "[]"] render_nat_digits fold_render by simp

lemma strip_id: "s \<noteq> [] \<Longrightarrow> \<not> is_blank (hd s) \<Longrightarrow> \<not> is_blank (last s) \<Longrightarrow> strip s = s"
proof -
  assume s: "s \<noteq> []" "\<not> is_blank (hd s)" "\<not> is_blank (last s)"
  have "dropWhile is_blank s = s" using s(1,2) by (cases s) auto
  moreover have "dropWhile is_blank (rev s) = rev s" using s(1,3) by (cases s rule: rev_cases) auto
  ultimately show ?thesis by (simp add: strip_def)
qed

lemma render_nat_ends:
  "\<not> is_blank (hd (render_nat n))" "\<not> is_blank (last (render_nat n))"
  using render_nat_digits [of "hd (render_nat n)" n] render_nat_digits [of "last (render_nat n)" n]
  by (auto simp: digit_char_facts)

lemma hd_render_nat: "hd (render_nat n) \<noteq> CHR ''-''" "hd (render_nat n) \<noteq> CHR ''+''"
  using render_nat_digits [of "hd (render_nat n)" n] digit_char_facts(4,7)
  by (metis list.set_sel(1) render_nat_nonempty)+

text \<open>Reading back a rendered integer gives the integer; so rendering is injective.\<close>

lemma int_of_render [simp]: "int_of_string (render_int n) = Some n"
proof -
  have nn: "strip (render_nat m) = render_nat m" for m
    by (simp add: strip_id render_nat_ends)
  show ?thesis
  proof (cases "n < 0")
    case True
    have "\<not> is_blank (CHR ''-'')" by (simp add: is_blank_def)
    then have "strip (CHR ''-'' # render_nat (nat (- n))) = CHR ''-'' # render_nat (nat (- n))"
      by (simp add: strip_id render_nat_ends)
    with True show ?thesis by (simp add: int_of_string_def render_int_def digits_render)
  next
    case False
    obtain c cs where r: "render_nat (nat n) = c # cs" by (cases "render_nat (nat n)") simp_all
    with hd_render_nat [of "nat n"] have "c \<noteq> CHR ''-''" "c \<noteq> CHR ''+''" by auto
    with False r nn [of "nat n"] digits_render [of "nat n"] show ?thesis
      by (simp add: int_of_string_def render_int_def)
  qed
qed

lemma render_int_inj [simp]: "render_int m = render_int n \<longleftrightarrow> m = n"
  by (metis int_of_render option.inject)

lemma render_nat_plain: "CHR '':'' \<notin> set (render_nat n)" "CHR '','' \<notin> set (render_nat n)"
  using render_nat_digits digit_char_facts(5,6) by metis+

lemma render_int_plain: "CHR '':'' \<notin> set (render_int n)" "CHR '','' \<notin> set (render_int n)"
  by (simp_all add: render_int_def render_nat_plain)

subsection \<open>Joining\<close>

fun join :: "string \<Rightarrow> string list \<Rightarrow> string" where
  "join sep [] = []"
| "join sep [x] = x"
| "join sep (x # y # zs) = x @ sep @ join sep (y # zs)"

lemma join_Cons: "join sep (x # xs) = x @ (if xs = [] then [] else sep @ join sep xs)"
  by (cases xs) simp_all

lemma set_join: "set (join sep xs) \<subseteq> set sep \<union> (\<Union>x \<in> set xs. set x)"
  by (induction sep xs rule: join.induct) auto

text \<open>Two texts cut at their first separator are equal part by part.\<close>

lemma cut_at:
  "c \<notin> set xs \<Longrightarrow> c \<notin> set xs' \<Longrightarrow> xs @ c # ys = xs' @ c # ys' \<longleftrightarrow> xs = xs' \<and> ys = ys'"
proof (induction xs arbitrary: xs')
  case Nil
  then show ?case by (cases xs') auto
next
  case (Cons x xs)
  then show ?case by (cases xs') auto
qed

lemma join_inj:
  assumes "\<forall>x \<in> set xs. x \<noteq> [] \<and> c \<notin> set x" "\<forall>y \<in> set ys. y \<noteq> [] \<and> c \<notin> set y"
    and "join [c] xs = join [c] ys"
  shows "xs = ys"
  using assms
proof (induction xs arbitrary: ys)
  case Nil
  then show ?case by (cases ys) (auto simp: join_Cons)
next
  case (Cons x xs)
  then obtain y ys' where ys: "ys = y # ys'" by (cases ys) (auto simp: join_Cons)
  have j: "x @ (if xs = [] then [] else c # join [c] xs) = y @ (if ys' = [] then [] else c # join [c] ys')"
    using Cons.prems(3) by (simp add: join_Cons ys split: if_splits)
  have c: "c \<notin> set x" "c \<notin> set y" using Cons.prems ys by auto
  have "(xs = []) = (ys' = [])"
  proof (rule ccontr)
    assume "(xs = []) \<noteq> (ys' = [])"
    with j have "c \<in> set x \<or> c \<in> set y" by (auto split: if_splits)
    with c show False by simp
  qed
  with j c have "x = y" "join [c] xs = join [c] ys'"
    by (auto simp: cut_at split: if_splits)
  with Cons.IH [of ys'] Cons.prems ys show ?case by simp
qed

subsection \<open>Values as text\<close>

text \<open>\<open>repr(s)\<close> of a string of characters below 256: single quotes unless only double ones help,
  backslash escapes, and \<open>\\xNN\<close> for what is not printable.\<close>

definition hex_digit :: "nat \<Rightarrow> char" where
  "hex_digit n = (if n < 10 then char_of (48 + n) else char_of (87 + n))"

definition printable :: "char \<Rightarrow> bool" where
  "printable c =
     (let n = (of_char c :: nat) in 32 \<le> n \<and> n < 127 \<or> 161 \<le> n \<and> n \<noteq> 173)"

definition repr_char :: "char \<Rightarrow> char \<Rightarrow> string" where
  "repr_char quote c =
     (let n = (of_char c :: nat) in
      if c = quote \<or> n = 92 then [char_of (92 :: nat), c]
      else if n = 10 then [char_of (92 :: nat), CHR ''n'']
      else if n = 13 then [char_of (92 :: nat), CHR ''r'']
      else if n = 9 then [char_of (92 :: nat), CHR ''t'']
      else if printable c then [c]
      else [char_of (92 :: nat), CHR ''x'', hex_digit (n div 16), hex_digit (n mod 16)])"

definition repr_string :: "string \<Rightarrow> string" where
  "repr_string s =
     (let quote = (if char_of (39 :: nat) \<in> set s \<and> char_of (34 :: nat) \<notin> set s
                   then char_of (34 :: nat) else char_of (39 :: nat))
      in quote # concat (map (repr_char quote) s) @ [quote])"

fun py_repr :: "pyval \<Rightarrow> string" where
  "py_repr PNone = ''None''"
| "py_repr (PBool b) = (if b then ''True'' else ''False'')"
| "py_repr (PInt n) = render_int n"
| "py_repr (PStr s) = repr_string s"
| "py_repr (PList xs) = ''['' @ join '', '' (map py_repr xs) @ '']''"
| "py_repr (PDict kvs) =
     ''{'' @ join '', '' (map (\<lambda>(k, v). repr_string k @ '': '' @ py_repr v) kvs) @ ''}''"

text \<open>\<open>f"{x}"\<close>\<close>

fun py_str :: "pyval \<Rightarrow> string" where
  "py_str (PStr s) = s"
| "py_str v = py_repr v"

subsection \<open>Hexadecimal\<close>

text \<open>\<open>bytes.hex()\<close> and \<open>bytes.fromhex(s)\<close>; a byte is a character.  Blanks may stand between bytes.\<close>

definition to_hex :: "string \<Rightarrow> string" where
  "to_hex bs = concat (map (\<lambda>b. let n = (of_char b :: nat) in
                                  [hex_digit (n div 16), hex_digit (n mod 16)]) bs)"

definition hex_val :: "char \<Rightarrow> nat option" where
  "hex_val c =
     (let n = (of_char c :: nat) in
      if 48 \<le> n \<and> n \<le> 57 then Some (n - 48)
      else if 97 \<le> n \<and> n \<le> 102 then Some (n - 87)
      else if 65 \<le> n \<and> n \<le> 70 then Some (n - 55)
      else None)"

definition hex_blank :: "char \<Rightarrow> bool" where
  "hex_blank c = ((of_char c :: nat) \<in> {9, 10, 11, 12, 13, 32})"

fun from_hex :: "string \<Rightarrow> string option" where
  "from_hex [] = Some []"
| "from_hex [c] = (if hex_blank c then Some [] else None)"
| "from_hex (c # d # cs) =
     (if hex_blank c then from_hex (d # cs)
      else case (hex_val c, hex_val d) of
             (Some h, Some l) \<Rightarrow> map_option (\<lambda>bs. char_of (16 * h + l) # bs) (from_hex cs)
           | _ \<Rightarrow> None)"

lemma hex_digit_facts:
  assumes "n < 16"
  shows "hex_val (hex_digit n) = Some n" "\<not> hex_blank (hex_digit n)"
  using assms by (auto simp: hex_digit_def hex_val_def hex_blank_def Let_def)

lemma from_to_hex [simp]: "from_hex (to_hex bs) = Some bs"
proof (induction bs)
  case (Cons b bs)
  have n: "(of_char b :: nat) div 16 < 16" "(of_char b :: nat) mod 16 < 16"
    by (rule less_mult_imp_div_less, simp, simp)
  have "char_of (16 * ((of_char b :: nat) div 16) + of_char b mod 16) = b" by simp
  with Cons n show ?case by (simp add: to_hex_def Let_def hex_digit_facts)
qed (simp add: to_hex_def)

end
