(* ===== verification/Payloads.thy ===== *)
theory Payloads
  imports Text "HOL-Library.Multiset"
begin

text \<open>
  The bytes that are signed: \<open>funduq/identity.py\<close>, and the independent computations of the same
  payloads in \<open>funduq_provider_sdk/identity.py\<close> and \<open>funduq_llm_provider_sdk/identity.py\<close>.
\<close>

subsection \<open>funduq's side\<close>

definition colon :: string where "colon = '':''"

definition REGISTER :: string where "REGISTER = ''funduq-register''"
definition REGISTER_LLM :: string where "REGISTER_LLM = ''funduq-register-llm''"
definition DELETE_AGENT :: string where "DELETE_AGENT = ''funduq-delete-agent''"
definition DELETE_LLM :: string where "DELETE_LLM = ''funduq-delete-llm''"
definition KYOK_CALL :: string where "KYOK_CALL = ''funduq-kyok-call''"
definition CONNECT_PROVIDER :: string where "CONNECT_PROVIDER = ''funduq-connect-provider''"
definition CONNECT_FUNDUQ :: string where "CONNECT_FUNDUQ = ''funduq-connect-funduq''"
definition DELEGATE :: string where "DELEGATE = ''funduq-delegate''"
definition RESOLVE :: string where "RESOLVE = ''funduq-resolve''"

definition roster_registration_signing_payload :: "string \<Rightarrow> string list \<Rightarrow> int \<Rightarrow> string" where
  "roster_registration_signing_payload tag names timestamp =
     tag @ colon @ join '','' (sort names) @ colon @ render_int timestamp"

definition registration_signing_payload :: "string list \<Rightarrow> int \<Rightarrow> string" where
  "registration_signing_payload = roster_registration_signing_payload REGISTER"

definition llm_registration_signing_payload :: "string list \<Rightarrow> int \<Rightarrow> string" where
  "llm_registration_signing_payload = roster_registration_signing_payload REGISTER_LLM"

definition agent_deletion_signing_payload :: "string \<Rightarrow> int \<Rightarrow> string" where
  "agent_deletion_signing_payload agent_name timestamp =
     DELETE_AGENT @ colon @ agent_name @ colon @ render_int timestamp"

definition llm_deletion_signing_payload :: "string \<Rightarrow> int \<Rightarrow> string" where
  "llm_deletion_signing_payload name timestamp =
     DELETE_LLM @ colon @ name @ colon @ render_int timestamp"

definition provider_connect_signing_payload ::
    "string \<Rightarrow> string \<Rightarrow> string \<Rightarrow> string list \<Rightarrow> string" where
  "provider_connect_signing_payload funduq_public_key funduq_nonce provider_nonce names =
     CONNECT_PROVIDER @ colon @ funduq_public_key @ colon @ funduq_nonce @ colon @
       provider_nonce @ colon @ join '','' (sort names)"

definition funduq_connect_signing_payload :: "string \<Rightarrow> string \<Rightarrow> string" where
  "funduq_connect_signing_payload funduq_nonce provider_nonce =
     CONNECT_FUNDUQ @ colon @ funduq_nonce @ colon @ provider_nonce"

definition kyok_call_signing_payload :: "string \<Rightarrow> int \<Rightarrow> string \<Rightarrow> string" where
  "kyok_call_signing_payload bearer timestamp body_hash =
     KYOK_CALL @ colon @ bearer @ colon @ render_int timestamp @ colon @ body_hash"

definition delegation_signing_payload :: "string \<Rightarrow> int \<Rightarrow> string" where
  "delegation_signing_payload delegate_public_key expires_at =
     DELEGATE @ colon @ delegate_public_key @ colon @ render_int expires_at"

definition resolve_signing_payload :: "string \<Rightarrow> int \<Rightarrow> string" where
  "resolve_signing_payload run_id timestamp =
     RESOLVE @ colon @ run_id @ colon @ render_int timestamp"

subsection \<open>The provider SDKs' side\<close>

definition sdk_roster_registration_payload :: "string \<Rightarrow> string list \<Rightarrow> int \<Rightarrow> string" where
  "sdk_roster_registration_payload tag names timestamp =
     tag @ '':'' @ join '','' (sort names) @ '':'' @ render_int timestamp"

definition sdk_registration_payload :: "string list \<Rightarrow> int \<Rightarrow> string" where
  "sdk_registration_payload agent_names timestamp =
     sdk_roster_registration_payload ''funduq-register'' agent_names timestamp"

definition sdk_deletion_payload :: "string \<Rightarrow> int \<Rightarrow> string" where
  "sdk_deletion_payload agent_name timestamp =
     ''funduq-delete-agent'' @ '':'' @ agent_name @ '':'' @ render_int timestamp"

definition sdk_kyok_call_payload :: "string \<Rightarrow> int \<Rightarrow> string \<Rightarrow> string" where
  "sdk_kyok_call_payload bearer timestamp body_hash =
     ''funduq-kyok-call'' @ '':'' @ bearer @ '':'' @ render_int timestamp @ '':'' @ body_hash"

definition sdk_provider_connect_payload ::
    "string \<Rightarrow> string \<Rightarrow> string \<Rightarrow> string list \<Rightarrow> string" where
  "sdk_provider_connect_payload funduq_public_key funduq_nonce provider_nonce names =
     ''funduq-connect-provider'' @ '':'' @ funduq_public_key @ '':'' @ funduq_nonce @ '':'' @
       provider_nonce @ '':'' @ join '','' (sort names)"

definition sdk_delegation_payload :: "string \<Rightarrow> int \<Rightarrow> string" where
  "sdk_delegation_payload delegate_public_key expires_at =
     ''funduq-delegate:'' @ delegate_public_key @ '':'' @ render_int expires_at"

definition sdk_resolve_payload :: "string \<Rightarrow> int \<Rightarrow> string" where
  "sdk_resolve_payload run_id timestamp =
     ''funduq-resolve:'' @ run_id @ '':'' @ render_int timestamp"

definition sdk_funduq_connect_payload :: "string \<Rightarrow> string \<Rightarrow> string" where
  "sdk_funduq_connect_payload funduq_nonce provider_nonce =
     ''funduq-connect-funduq'' @ '':'' @ funduq_nonce @ '':'' @ provider_nonce"

definition llm_sdk_registration_payload :: "string list \<Rightarrow> int \<Rightarrow> string" where
  "llm_sdk_registration_payload names timestamp =
     sdk_roster_registration_payload ''funduq-register-llm'' names timestamp"

definition llm_sdk_deletion_payload :: "string \<Rightarrow> int \<Rightarrow> string" where
  "llm_sdk_deletion_payload name timestamp =
     ''funduq-delete-llm'' @ '':'' @ name @ '':'' @ render_int timestamp"

lemmas payload_defs = roster_registration_signing_payload_def registration_signing_payload_def
  llm_registration_signing_payload_def agent_deletion_signing_payload_def
  llm_deletion_signing_payload_def provider_connect_signing_payload_def
  funduq_connect_signing_payload_def kyok_call_signing_payload_def delegation_signing_payload_def
  resolve_signing_payload_def

lemmas sdk_payload_defs = sdk_roster_registration_payload_def sdk_registration_payload_def
  sdk_deletion_payload_def sdk_kyok_call_payload_def sdk_provider_connect_payload_def
  sdk_delegation_payload_def sdk_resolve_payload_def sdk_funduq_connect_payload_def
  llm_sdk_registration_payload_def llm_sdk_deletion_payload_def

lemmas tag_defs = colon_def REGISTER_def REGISTER_LLM_def DELETE_AGENT_def DELETE_LLM_def
  KYOK_CALL_def CONNECT_PROVIDER_def CONNECT_FUNDUQ_def DELEGATE_def RESOLVE_def

subsection \<open>Properties\<close>

text \<open>The payloads the two provider SDKs compute on their own are, for all inputs, byte for byte the
  ones funduq verifies: registrations and deletions of agents and of LLM offerings, both link-open
  proofs, the KYOK call, the delegation certificate and the resolution.\<close>

theorem sdk_payloads_agree:
  "sdk_registration_payload names ts = registration_signing_payload names ts
   \<and> llm_sdk_registration_payload names ts = llm_registration_signing_payload names ts
   \<and> sdk_deletion_payload name ts = agent_deletion_signing_payload name ts
   \<and> llm_sdk_deletion_payload name ts = llm_deletion_signing_payload name ts
   \<and> sdk_provider_connect_payload key fn pn names = provider_connect_signing_payload key fn pn names
   \<and> sdk_funduq_connect_payload fn pn = funduq_connect_signing_payload fn pn
   \<and> sdk_kyok_call_payload bearer ts body = kyok_call_signing_payload bearer ts body
   \<and> sdk_delegation_payload delegate ts = delegation_signing_payload delegate ts
   \<and> sdk_resolve_payload run ts = resolve_signing_payload run ts"
  by (simp add: payload_defs sdk_payload_defs tag_defs)

text \<open>Everything before a payload's first colon.\<close>

definition payload_domain :: "string \<Rightarrow> string" where
  "payload_domain p = takeWhile (\<lambda>c. c \<noteq> CHR '':'') p"

lemma payload_domain_cut:
  "CHR '':'' \<notin> set tag \<Longrightarrow> payload_domain (tag @ '':'' @ rest) = tag"
  unfolding payload_domain_def by (induction tag) auto

text \<open>No two kinds of signature share bytes. The nine kinds of signed payload have nine different
  domains, whatever names, nonces, keys and times are in them, so a signature made for one kind of
  statement (say a registration) never verifies as another (say a deletion or the answer to a paused
  run).\<close>

theorem payload_domains_are_disjoint:
  "map payload_domain
     [registration_signing_payload n1 t1, llm_registration_signing_payload n2 t2,
      agent_deletion_signing_payload n3 t3, llm_deletion_signing_payload n4 t4,
      provider_connect_signing_payload k5 a5 b5 n5, funduq_connect_signing_payload a6 b6,
      kyok_call_signing_payload r7 t7 h7, delegation_signing_payload d8 t8,
      resolve_signing_payload r9 t9]
   = [REGISTER, REGISTER_LLM, DELETE_AGENT, DELETE_LLM, CONNECT_PROVIDER, CONNECT_FUNDUQ,
      KYOK_CALL, DELEGATE, RESOLVE]
   \<and> distinct [REGISTER, REGISTER_LLM, DELETE_AGENT, DELETE_LLM, CONNECT_PROVIDER, CONNECT_FUNDUQ,
      KYOK_CALL, DELEGATE, RESOLVE]"
  by (simp add: payload_defs tag_defs payload_domain_def)

lemma cut_last:
  assumes "c \<notin> set ys" "c \<notin> set ys'" "xs @ c # ys = xs' @ c # ys'"
  shows "xs = xs' \<and> ys = ys'"
proof -
  from assms(3) have "rev ys @ c # rev xs = rev ys' @ c # rev xs'"
    by (metis append.assoc append_Cons append_Nil rev.simps(2) rev_append)
  with assms(1,2) show ?thesis by (simp add: cut_at)
qed

text \<open>A signature over a single name is for that name and that time only: the payloads of agent and
  LLM deletions, delegation certificates and resolutions determine the name (or key, or run id) and
  the timestamp they were built from, even when the name contains colons.\<close>

theorem single_name_payloads_bind:
  "(agent_deletion_signing_payload n t = agent_deletion_signing_payload n' t' \<longleftrightarrow> n = n' \<and> t = t')
   \<and> (llm_deletion_signing_payload n t = llm_deletion_signing_payload n' t' \<longleftrightarrow> n = n' \<and> t = t')
   \<and> (delegation_signing_payload n t = delegation_signing_payload n' t' \<longleftrightarrow> n = n' \<and> t = t')
   \<and> (resolve_signing_payload n t = resolve_signing_payload n' t' \<longleftrightarrow> n = n' \<and> t = t')"
proof -
  have "n @ CHR '':'' # render_int t = n' @ CHR '':'' # render_int t' \<longleftrightarrow> n = n' \<and> t = t'"
    using cut_last [of "CHR '':''" "render_int t" "render_int t'" n n'] render_int_plain by auto
  then show ?thesis by (simp add: payload_defs tag_defs)
qed

text \<open>A name that its payload can carry unambiguously.\<close>

definition plain_name :: "string \<Rightarrow> bool" where
  "plain_name n \<longleftrightarrow> n \<noteq> [] \<and> CHR '':'' \<notin> set n \<and> CHR '','' \<notin> set n"

lemma joined_names_inj:
  assumes "\<forall>n \<in> set ns. plain_name n" "\<forall>n \<in> set ns'. plain_name n"
  shows "join '','' (sort ns) = join '','' (sort ns') \<longleftrightarrow> mset ns = mset ns'"
proof
  assume "join '','' (sort ns) = join '','' (sort ns')"
  then have "sort ns = sort ns'"
    using assms by (intro join_inj [of "sort ns" "CHR '',''"]) (auto simp: plain_name_def)
  then show "mset ns = mset ns'" by (metis mset_sort)
next
  assume "mset ns = mset ns'"
  then have "sort ns = sort ns'" by (metis properties_for_sort mset_sort sorted_sort)
  then show "join '','' (sort ns) = join '','' (sort ns')" by simp
qed

lemma joined_names_plain:
  assumes "\<forall>n \<in> set ns. plain_name n"
  shows "CHR '':'' \<notin> set (join '','' (sort ns))"
  using assms set_join [of "'',''" "sort ns"] by (auto simp: plain_name_def)

text \<open>What a roster signature binds. When the served names are non-empty and contain neither colon
  nor comma, two registration payloads are equal exactly when tag, timestamp and the names, taken as a
  multiset, are: the order of the names does not matter, and nothing can be added, dropped or
  altered. The same holds for the names, nonces and recipient of a link-open proof.\<close>

theorem roster_payloads_bind:
  assumes "\<forall>n \<in> set ns. plain_name n" "\<forall>n \<in> set ns'. plain_name n"
    and "CHR '':'' \<notin> set tag" "CHR '':'' \<notin> set tag'"
    and "\<forall>x \<in> set [k, fn, pn, k', fn', pn']. CHR '':'' \<notin> set x"
  shows "(roster_registration_signing_payload tag ns t = roster_registration_signing_payload tag' ns' t'
           \<longleftrightarrow> tag = tag' \<and> mset ns = mset ns' \<and> t = t')
    \<and> (provider_connect_signing_payload k fn pn ns = provider_connect_signing_payload k' fn' pn' ns'
           \<longleftrightarrow> k = k' \<and> fn = fn' \<and> pn = pn' \<and> mset ns = mset ns')"
proof -
  have "roster_registration_signing_payload tag ns t = roster_registration_signing_payload tag' ns' t'
      \<longleftrightarrow> tag = tag' \<and> mset ns = mset ns' \<and> t = t'"
    using assms(3,4) joined_names_plain [OF assms(1)] joined_names_plain [OF assms(2)]
    by (simp add: payload_defs tag_defs cut_at joined_names_inj [OF assms(1,2)])
  moreover have "provider_connect_signing_payload k fn pn ns = provider_connect_signing_payload k' fn' pn' ns'
      \<longleftrightarrow> k = k' \<and> fn = fn' \<and> pn = pn' \<and> mset ns = mset ns'"
    using assms(5) by (simp add: payload_defs tag_defs cut_at joined_names_inj [OF assms(1,2)])
  ultimately show ?thesis by blast
qed

lemma roster_payloads_bind_witness:
  "roster_registration_signing_payload REGISTER [''b'', ''a''] 7
     = roster_registration_signing_payload REGISTER [''a'', ''b''] 7
   \<and> provider_connect_signing_payload ''k'' ''f'' ''p'' [''b'', ''a'']
       \<noteq> provider_connect_signing_payload ''k'' ''f'' ''p'' [''a'', ''c'']"
proof -
  have p: "\<forall>n \<in> set [''b'', ''a'']. plain_name n" "\<forall>n \<in> set [''a'', ''b'']. plain_name n"
      "\<forall>n \<in> set [''a'', ''c'']. plain_name n" "CHR '':'' \<notin> set REGISTER"
    by (simp_all add: plain_name_def REGISTER_def)
  have k: "\<forall>x \<in> set [''k'', ''f'', ''p'', ''k'', ''f'', ''p'']. CHR '':'' \<notin> set x" by simp
  from roster_payloads_bind [OF p(1,2) p(4,4) k, of 7 7]
    roster_payloads_bind [OF p(1,3) p(4,4) k, of 7 7]
  show ?thesis by (simp add: add_mset_commute)
qed

text \<open>Names with a comma are not bound: the registration of one agent named \<open>a,b\<close> and that of two
  agents \<open>a\<close> and \<open>b\<close> have the same payload, and so have the link-open proofs for them, at any time
  and with any nonces; likewise no name at all and one empty name.\<close>

theorem comma_names_collide:
  "registration_signing_payload [''a,b''] t = registration_signing_payload [''a'', ''b''] t
   \<and> provider_connect_signing_payload k fn pn [''a,b''] = provider_connect_signing_payload k fn pn [''a'', ''b'']
   \<and> registration_signing_payload [] t = registration_signing_payload [''''] t"
proof -
  have "sort [''a'', ''b''] = [''a'', ''b'']" by code_simp
  then show ?thesis by (simp add: payload_defs)
qed

end
