(* ===== verification/Signatures.thy ===== *)
theory Signatures
  imports Payloads
begin

text \<open>
  Keys, certificates and proofs: the rest of \<open>funduq/identity.py\<close> but for the actor chains, and the
  signing half in the provider SDKs.  Ed25519 and SHA-256 are third-party code: the record \<open>crypto\<close>
  holds them as functions, on bytes, and \<open>crypto_ok\<close> states what their documentation promises.
  Clocks are arguments (\<open>now\<close> is \<open>time.time()\<close>).
\<close>

record 's crypto =
  ed_public :: "'s \<Rightarrow> string"
  ed_sign :: "'s \<Rightarrow> string \<Rightarrow> string"
  ed_key_ok :: "string \<Rightarrow> bool"
  ed_verify :: "string \<Rightarrow> string \<Rightarrow> string \<Rightarrow> bool"
  seed_key :: "string \<Rightarrow> 's"
  sha256_hex :: "string \<Rightarrow> string"

text \<open>A key pair's public key is a key, its signatures verify, and digests are lower-case hex.\<close>

definition crypto_ok :: "('s, 'z) crypto_scheme \<Rightarrow> bool" where
  "crypto_ok C \<longleftrightarrow>
     (\<forall>s m. ed_key_ok C (ed_public C s) \<and> ed_verify C (ed_public C s) (ed_sign C s m) m)"

subsection \<open>Fingerprints and freshness\<close>

definition FINGERPRINT_HEX_LENGTH :: nat where "FINGERPRINT_HEX_LENGTH = 16"
definition SIGNATURE_FRESHNESS_WINDOW_SECONDS :: rat where
  "SIGNATURE_FRESHNESS_WINDOW_SECONDS = 60"

definition provider_fingerprint :: "('s, 'z) crypto_scheme \<Rightarrow> string \<Rightarrow> string result" where
  "provider_fingerprint C public_key =
     (case from_hex public_key of
        None \<Rightarrow> Inl ValueError
      | Some bs \<Rightarrow> Inr (take FINGERPRINT_HEX_LENGTH (sha256_hex C bs)))"

definition is_fingerprint :: "string \<Rightarrow> bool" where
  "is_fingerprint value = (length value = FINGERPRINT_HEX_LENGTH)"

definition is_timestamp_fresh :: "rat \<Rightarrow> int \<Rightarrow> bool" where
  "is_timestamp_fresh now timestamp =
     (\<bar>now - of_int timestamp\<bar> \<le> SIGNATURE_FRESHNESS_WINDOW_SECONDS)"

text \<open>\<open>int(time.time())\<close>\<close>

definition int_time :: "rat \<Rightarrow> int" where
  "int_time now = (if 0 \<le> now then \<lfloor>now\<rfloor> else \<lceil>now\<rceil>)"

subsection \<open>Signatures\<close>

definition verify_signature :: "('s, 'z) crypto_scheme \<Rightarrow> string \<Rightarrow> string \<Rightarrow> string \<Rightarrow> bool" where
  "verify_signature C public_key_hex signature_hex payload =
     (case from_hex public_key_hex of
        None \<Rightarrow> False
      | Some key \<Rightarrow>
          ed_key_ok C key \<and>
          (case from_hex signature_hex of
             None \<Rightarrow> False | Some sig \<Rightarrow> ed_verify C key sig payload))"

text \<open>The same call on values taken from JSON: \<open>bytes.fromhex\<close> of anything but a string raises
  \<open>TypeError\<close>, which \<open>verify_signature\<close> does not catch; a bad key is found before the signature is
  looked at.\<close>

fun verify_signature_value ::
    "('s, 'z) crypto_scheme \<Rightarrow> pyval \<Rightarrow> pyval \<Rightarrow> string \<Rightarrow> bool result" where
  "verify_signature_value C (PStr k) (PStr s) payload = Inr (verify_signature C k s payload)"
| "verify_signature_value C (PStr k) _ payload =
     (case from_hex k of
        None \<Rightarrow> Inr False
      | Some key \<Rightarrow> if ed_key_ok C key then Inl TypeError else Inr False)"
| "verify_signature_value C _ _ payload = Inl TypeError"

text \<open>\<open>FunduqIdentity\<close> and \<open>ProviderIdentity\<close>: a private key and the hex of its public key.\<close>

record 's identity =
  id_private_key :: 's
  id_public_key :: string

definition identity_of :: "('s, 'z) crypto_scheme \<Rightarrow> 's \<Rightarrow> 's identity" where
  "identity_of C s = \<lparr>id_private_key = s, id_public_key = to_hex (ed_public C s)\<rparr>"

definition identity_from_hex :: "('s, 'z) crypto_scheme \<Rightarrow> string \<Rightarrow> 's identity result" where
  "identity_from_hex C private_key_hex =
     (case from_hex private_key_hex of
        None \<Rightarrow> Inl ValueError
      | Some raw \<Rightarrow> if length raw \<noteq> 32 then Inl ValueError else Inr (identity_of C (seed_key C raw)))"

definition sign :: "('s, 'z) crypto_scheme \<Rightarrow> 's identity \<Rightarrow> string \<Rightarrow> string" where
  "sign C idt payload = to_hex (ed_sign C (id_private_key idt) payload)"

subsection \<open>Delegation certificates\<close>

definition certificate_fields :: "pyval \<Rightarrow> (pyval \<times> pyval \<times> int \<times> pyval) result" where
  "certificate_fields certificate =
     bindR (pindex certificate ''authorityPublicKey'') (\<lambda>authority.
     bindR (pindex certificate ''delegatePublicKey'') (\<lambda>delegate.
     bindR (bindR (pindex certificate ''expiresAt'') py_int) (\<lambda>expires_at.
     bindR (pindex certificate ''signature'') (\<lambda>signature.
       Inr (authority, delegate, expires_at, signature)))))"

definition verify_delegation ::
    "('s, 'z) crypto_scheme \<Rightarrow> rat \<Rightarrow> pyval \<Rightarrow> pyval result" where
  "verify_delegation C now certificate =
     (case certificate_fields certificate of
        Inl _ \<Rightarrow> Inl InvalidDelegation
      | Inr (authority, delegate, expires_at, signature) \<Rightarrow>
          if of_int expires_at < now then Inl InvalidDelegation
          else bindR (verify_signature_value C authority signature
                        (delegation_signing_payload (py_str delegate) expires_at))
                 (\<lambda>ok. if ok then Inr authority else Inl InvalidDelegation))"

subsection \<open>Resolutions\<close>

definition resolution_fields :: "pyval \<Rightarrow> (pyval \<times> int \<times> pyval) result" where
  "resolution_fields resolution =
     bindR (pindex resolution ''publicKey'') (\<lambda>signer.
     bindR (bindR (pindex resolution ''timestamp'') py_int) (\<lambda>timestamp.
     bindR (pindex resolution ''signature'') (\<lambda>signature.
       Inr (signer, timestamp, signature))))"

text \<open>Whom the signer stands for.\<close>

definition effective_key ::
    "('s, 'z) crypto_scheme \<Rightarrow> rat \<Rightarrow> pyval \<Rightarrow> pyval option \<Rightarrow> pyval result" where
  "effective_key C now signer delegation =
     (case delegation of
        None \<Rightarrow> Inr signer
      | Some certificate \<Rightarrow>
          bindR (verify_delegation C now certificate) (\<lambda>authority.
            Inr (if pget certificate ''delegatePublicKey'' = signer then authority else signer)))"

text \<open>\<open>x not in allowed_keys\<close> for a set of strings: an unhashable \<open>x\<close> raises \<open>TypeError\<close>.\<close>

definition in_keys :: "pyval \<Rightarrow> string set \<Rightarrow> bool result" where
  "in_keys x keys =
     (if \<not> hashable x then Inl TypeError
      else Inr (case x of PStr k \<Rightarrow> k \<in> keys | _ \<Rightarrow> False))"

definition verify_resolution ::
    "('s, 'z) crypto_scheme \<Rightarrow> rat \<Rightarrow> pyval \<Rightarrow> string \<Rightarrow> string set \<Rightarrow> pyval option \<Rightarrow> pyval result" where
  "verify_resolution C now resolution run_id allowed_keys delegation =
     (case resolution_fields resolution of
        Inl _ \<Rightarrow> Inl InvalidResolution
      | Inr (signer, timestamp, signature) \<Rightarrow>
          bindR (effective_key C now signer delegation) (\<lambda>effective.
          bindR (in_keys effective allowed_keys) (\<lambda>allowed.
            if \<not> allowed then Inl InvalidResolution
            else if \<not> is_timestamp_fresh now timestamp then Inl InvalidResolution
            else bindR (verify_signature_value C signer signature
                          (resolve_signing_payload run_id timestamp))
                   (\<lambda>ok. if ok then Inr effective else Inl InvalidResolution))))"

subsection \<open>What the SDKs sign\<close>

definition timestamp_or_now :: "rat \<Rightarrow> int option \<Rightarrow> int" where
  "timestamp_or_now now timestamp = (case timestamp of None \<Rightarrow> int_time now | Some t \<Rightarrow> t)"

definition sign_roster_registration ::
    "('s, 'z) crypto_scheme \<Rightarrow> rat \<Rightarrow> 's identity \<Rightarrow> string \<Rightarrow> string list \<Rightarrow> int option \<Rightarrow> string \<times> int" where
  "sign_roster_registration C now idt tag names timestamp =
     (let t = timestamp_or_now now timestamp in
      (sign C idt (sdk_roster_registration_payload tag names t), t))"

definition sign_registration ::
    "('s, 'z) crypto_scheme \<Rightarrow> rat \<Rightarrow> 's identity \<Rightarrow> string list \<Rightarrow> int option \<Rightarrow> string \<times> int" where
  "sign_registration C now idt agent_names timestamp =
     sign_roster_registration C now idt ''funduq-register'' agent_names timestamp"

definition sign_deletion ::
    "('s, 'z) crypto_scheme \<Rightarrow> rat \<Rightarrow> 's identity \<Rightarrow> string \<Rightarrow> int option \<Rightarrow> string \<times> int" where
  "sign_deletion C now idt agent_name timestamp =
     (let t = timestamp_or_now now timestamp in (sign C idt (sdk_deletion_payload agent_name t), t))"

definition sign_connect ::
    "('s, 'z) crypto_scheme \<Rightarrow> 's identity \<Rightarrow> string \<Rightarrow> string \<Rightarrow> string \<Rightarrow> string list \<Rightarrow> string" where
  "sign_connect C idt funduq_public_key funduq_nonce provider_nonce names =
     sign C idt (sdk_provider_connect_payload funduq_public_key funduq_nonce provider_nonce names)"

definition sign_llm_registration ::
    "('s, 'z) crypto_scheme \<Rightarrow> rat \<Rightarrow> 's identity \<Rightarrow> string list \<Rightarrow> int option \<Rightarrow> string \<times> int" where
  "sign_llm_registration C now idt names timestamp =
     sign_roster_registration C now idt ''funduq-register-llm'' names timestamp"

definition sign_llm_deletion ::
    "('s, 'z) crypto_scheme \<Rightarrow> rat \<Rightarrow> 's identity \<Rightarrow> string \<Rightarrow> int option \<Rightarrow> string \<times> int" where
  "sign_llm_deletion C now idt name timestamp =
     (let t = timestamp_or_now now timestamp in (sign C idt (llm_sdk_deletion_payload name t), t))"

definition sign_delegation ::
    "('s, 'z) crypto_scheme \<Rightarrow> rat \<Rightarrow> 's identity \<Rightarrow> string \<Rightarrow> int \<Rightarrow> pyval" where
  "sign_delegation C now idt delegate_public_key ttl_seconds =
     (let expires_at = int_time now + ttl_seconds in
      PDict [(''authorityPublicKey'', PStr (id_public_key idt)),
             (''delegatePublicKey'', PStr delegate_public_key),
             (''expiresAt'', PInt expires_at),
             (''signature'', PStr (sign C idt (sdk_delegation_payload delegate_public_key expires_at)))])"

definition sign_resolution ::
    "('s, 'z) crypto_scheme \<Rightarrow> rat \<Rightarrow> 's identity \<Rightarrow> string \<Rightarrow> int option \<Rightarrow> string \<times> int" where
  "sign_resolution C now idt run_id timestamp =
     (let t = timestamp_or_now now timestamp in (sign C idt (sdk_resolve_payload run_id t), t))"

end
