(* ===== verification/ActorChains.thy ===== *)
theory ActorChains
  imports Signatures
begin

text \<open>
  Actor chains: \<open>_sign_hop\<close>, \<open>new_actor_chain\<close>, \<open>extend_actor_chain\<close> and \<open>verify_actor_chain\<close> of
  \<open>funduq/identity.py\<close>, and \<open>sign_hop\<close>, \<open>new_chain\<close>, \<open>extend_chain\<close> and \<open>verify_chain\<close> of
  \<open>funduq_provider_sdk/identity.py\<close>.  PyJWT is third-party code: a scheme that extends
  \<open>crypto\<close> holds \<open>jwt.encode\<close>, \<open>jwt.decode\<close> without verification, and \<open>jwt.decode\<close> under a key
  with \<open>verify_exp\<close> on or off; \<open>jwt_ok\<close> states its documented behaviour.
\<close>

record 's jwt_crypto = "'s crypto" +
  jwt_encode :: "pyval \<Rightarrow> 's \<Rightarrow> string"
  jwt_peek :: "string \<Rightarrow> pyval option"
  jwt_verified :: "string \<Rightarrow> bool \<Rightarrow> rat \<Rightarrow> string \<Rightarrow> pyval option"

definition ACTOR_CHAIN_TTL_SECONDS :: int where "ACTOR_CHAIN_TTL_SECONDS = 300"

definition hop_hash :: "('s, 'z) crypto_scheme \<Rightarrow> string \<Rightarrow> string" where
  "hop_hash C token = sha256_hex C token"

definition prev_claim :: "('s, 'z) crypto_scheme \<Rightarrow> string option \<Rightarrow> pyval" where
  "prev_claim C prev_token = (case prev_token of None \<Rightarrow> PNone | Some t \<Rightarrow> PStr (hop_hash C t))"

definition hop_claims :: "string \<Rightarrow> pyval \<Rightarrow> int \<Rightarrow> int \<Rightarrow> pyval" where
  "hop_claims key prev iat expiry =
     PDict [(''actorPublicKey'', PStr key), (''prevHash'', prev), (''iat'', PInt iat), (''exp'', PInt expiry)]"

subsection \<open>funduq\<close>

definition sign_hop :: "('s, 'z) jwt_crypto_scheme \<Rightarrow> rat \<Rightarrow> 's \<Rightarrow> string option \<Rightarrow> string" where
  "sign_hop C now private_key prev_token =
     (let t = int_time now in
      jwt_encode C
        (hop_claims (to_hex (ed_public C private_key)) (prev_claim C prev_token)
           t (t + ACTOR_CHAIN_TTL_SECONDS))
        private_key)"

definition new_actor_chain :: "('s, 'z) jwt_crypto_scheme \<Rightarrow> rat \<Rightarrow> 's \<Rightarrow> string list" where
  "new_actor_chain C now private_key = [sign_hop C now private_key None]"

definition extend_actor_chain ::
    "('s, 'z) jwt_crypto_scheme \<Rightarrow> rat \<Rightarrow> 's \<Rightarrow> string list \<Rightarrow> string list result" where
  "extend_actor_chain C now private_key prev_chain =
     (if prev_chain = [] then Inl ValueError
      else Inr (prev_chain @ [sign_hop C now private_key (Some (last prev_chain))]))"

text \<open>One turn of the loop of \<open>verify_actor_chain\<close>: the hop's key, or the exception.\<close>

definition check_hop ::
    "('s, 'z) jwt_crypto_scheme \<Rightarrow> rat \<Rightarrow> bool \<Rightarrow> string option \<Rightarrow> string \<Rightarrow> string result" where
  "check_hop C now is_last_hop prev_token token =
     (case jwt_peek C token of
        None \<Rightarrow> Inl InvalidActorChain
      | Some unverified \<Rightarrow>
          (case pget unverified ''actorPublicKey'' of
             PStr actor_public_key \<Rightarrow>
               (case from_hex actor_public_key of
                  None \<Rightarrow> Inl InvalidActorChain
                | Some public_key \<Rightarrow>
                    if \<not> ed_key_ok C public_key then Inl InvalidActorChain
                    else
                      (case jwt_verified C public_key is_last_hop now token of
                         None \<Rightarrow> Inl InvalidActorChain
                       | Some payload \<Rightarrow>
                           if pget payload ''prevHash'' \<noteq> prev_claim C prev_token
                           then Inl InvalidActorChain
                           else Inr actor_public_key))
           | _ \<Rightarrow> Inl InvalidActorChain))"

fun verify_hops ::
    "('s, 'z) jwt_crypto_scheme \<Rightarrow> rat \<Rightarrow> string option \<Rightarrow> string list \<Rightarrow> string list result" where
  "verify_hops C now prev_token [] = Inr []"
| "verify_hops C now prev_token (token # tokens) =
     bindR (check_hop C now (tokens = []) prev_token token) (\<lambda>key.
     bindR (verify_hops C now (Some token) tokens) (\<lambda>keys. Inr (key # keys)))"

definition verify_actor_chain ::
    "('s, 'z) jwt_crypto_scheme \<Rightarrow> rat \<Rightarrow> string list \<Rightarrow> string list result" where
  "verify_actor_chain C now chain =
     (if chain = [] then Inl InvalidActorChain else verify_hops C now None chain)"

text \<open>\<open>ChainResult.head\<close>\<close>

definition chain_head :: "string list \<Rightarrow> string" where
  "chain_head actor_public_keys = hd actor_public_keys"

subsection \<open>The provider SDK\<close>

definition sdk_sign_hop ::
    "('s, 'z) jwt_crypto_scheme \<Rightarrow> rat \<Rightarrow> 's identity \<Rightarrow> string option \<Rightarrow> int \<Rightarrow> string" where
  "sdk_sign_hop C now idt prev_token ttl =
     jwt_encode C
       (PDict [(''actorPublicKey'', PStr (id_public_key idt)),
               (''prevHash'', case prev_token of None \<Rightarrow> PNone | Some t \<Rightarrow> PStr (sha256_hex C t)),
               (''iat'', PInt (int_time now)),
               (''exp'', PInt (int_time now + ttl))])
       (id_private_key idt)"

definition sdk_new_chain :: "('s, 'z) jwt_crypto_scheme \<Rightarrow> rat \<Rightarrow> 's identity \<Rightarrow> string list" where
  "sdk_new_chain C now idt = [sdk_sign_hop C now idt None ACTOR_CHAIN_TTL_SECONDS]"

definition sdk_extend_chain ::
    "('s, 'z) jwt_crypto_scheme \<Rightarrow> rat \<Rightarrow> 's identity \<Rightarrow> string list \<Rightarrow> string list result" where
  "sdk_extend_chain C now idt prev_chain =
     (if prev_chain = [] then Inl ValueError
      else Inr (prev_chain @
             [sdk_sign_hop C now idt (Some (last prev_chain)) ACTOR_CHAIN_TTL_SECONDS]))"

fun sdk_verify_loop ::
    "('s, 'z) jwt_crypto_scheme \<Rightarrow> rat \<Rightarrow> nat \<Rightarrow> nat \<Rightarrow> string option \<Rightarrow> string list \<Rightarrow> string list
       \<Rightarrow> string list result" where
  "sdk_verify_loop C now hops i prev_token keys [] = Inr keys"
| "sdk_verify_loop C now hops i prev_token keys (token # tokens) =
     (case jwt_peek C token of
        None \<Rightarrow> Inl InvalidChain
      | Some unverified \<Rightarrow>
          if \<not> is_str (pget unverified ''actorPublicKey'') then Inl InvalidChain
          else
            let actor_public_key = py_str (pget unverified ''actorPublicKey'');
                is_last_hop = (Suc i = hops)
            in case from_hex actor_public_key of
                 None \<Rightarrow> Inl InvalidChain
               | Some public_key \<Rightarrow>
                   if \<not> ed_key_ok C public_key then Inl InvalidChain
                   else
                     (case jwt_verified C public_key is_last_hop now token of
                        None \<Rightarrow> Inl InvalidChain
                      | Some payload \<Rightarrow>
                          if pget payload ''prevHash''
                               \<noteq> (case prev_token of None \<Rightarrow> PNone | Some t \<Rightarrow> PStr (sha256_hex C t))
                          then Inl InvalidChain
                          else sdk_verify_loop C now hops (Suc i) (Some token)
                                 (keys @ [actor_public_key]) tokens))"

definition sdk_verify_chain ::
    "('s, 'z) jwt_crypto_scheme \<Rightarrow> rat \<Rightarrow> string list \<Rightarrow> string list result" where
  "sdk_verify_chain C now chain =
     (if chain = [] then Inl InvalidChain else sdk_verify_loop C now (length chain) 0 None [] chain)"

subsection \<open>What the libraries promise\<close>

text \<open>PyJWT: a verified decode returns the token's claims; leaving out the expiry check only accepts
  more; a token just encoded verifies under its key from its \<open>iat\<close> up to before its \<open>exp\<close>.\<close>

definition jwt_ok :: "('s, 'z) jwt_crypto_scheme \<Rightarrow> bool" where
  "jwt_ok C \<longleftrightarrow>
     (\<forall>s. ed_key_ok C (ed_public C s)) \<and>
     (\<forall>k e now t c. jwt_verified C k e now t = Some c \<longrightarrow> jwt_peek C t = Some c) \<and>
     (\<forall>k now t c. jwt_verified C k True now t = Some c \<longrightarrow> jwt_verified C k False now t = Some c) \<and>
     (\<forall>s prev iat expiry now. of_int iat \<le> now \<and> now < of_int expiry \<longrightarrow>
        (let c = hop_claims (to_hex (ed_public C s)) (prev_claim C prev) iat expiry in
         jwt_verified C (ed_public C s) True now (jwt_encode C c s) = Some c))"

lemma jwt_okD:
  assumes "jwt_ok C"
  shows "ed_key_ok C (ed_public C s)"
    "jwt_verified C k e now t = Some c \<Longrightarrow> jwt_peek C t = Some c"
    "jwt_verified C k True now t = Some c \<Longrightarrow> jwt_verified C k e now t = Some c"
    "of_int iat \<le> now \<Longrightarrow> now < of_int expiry \<Longrightarrow>
       jwt_verified C (ed_public C s) True now
         (jwt_encode C (hop_claims (to_hex (ed_public C s)) (prev_claim C prev) iat expiry) s) =
       Some (hop_claims (to_hex (ed_public C s)) (prev_claim C prev) iat expiry)"
  using assms unfolding jwt_ok_def by (auto simp: Let_def) (cases e; simp)

end
