(* ===== verification/ChainClaims.thy ===== *)
theory ChainClaims
  imports ActorChains
begin

text \<open>
  What a verified actor chain guarantees, that extending keeps it verified, and that the provider
  SDK's verifier is the same function.
\<close>

subsection \<open>What verification means\<close>

text \<open>One good hop: its token decodes, under the key it carries, to claims that link it to the hop
  before it.\<close>

definition hop_ok ::
    "('s, 'z) jwt_crypto_scheme \<Rightarrow> rat \<Rightarrow> bool \<Rightarrow> string option \<Rightarrow> string \<Rightarrow> string \<Rightarrow> bool" where
  "hop_ok C now is_last prev token key \<longleftrightarrow>
     (\<exists>unverified kb payload. jwt_peek C token = Some unverified \<and>
        pget unverified ''actorPublicKey'' = PStr key \<and>
        from_hex key = Some kb \<and> ed_key_ok C kb \<and>
        jwt_verified C kb is_last now token = Some payload \<and>
        pget payload ''prevHash'' = prev_claim C prev)"

lemma check_hop_iff: "check_hop C now l prev token = Inr key \<longleftrightarrow> hop_ok C now l prev token key"
  by (auto simp: check_hop_def hop_ok_def split: option.splits pyval.splits if_splits)

lemma verify_hops_Cons:
  "verify_hops C now prev (t # ts) = Inr ks \<longleftrightarrow>
     (\<exists>k ks'. ks = k # ks' \<and> hop_ok C now (ts = []) prev t k \<and> verify_hops C now (Some t) ts = Inr ks')"
  by (auto simp: check_hop_iff)

definition prev_of :: "string option \<Rightarrow> string list \<Rightarrow> nat \<Rightarrow> string option" where
  "prev_of prev chain i = (if i = 0 then prev else Some (chain ! (i - 1)))"

lemma verify_hops_iff:
  "verify_hops C now prev chain = Inr ks \<longleftrightarrow>
     length ks = length chain \<and>
     (\<forall>i < length chain. hop_ok C now (Suc i = length chain) (prev_of prev chain i) (chain ! i) (ks ! i))"
proof (induction chain arbitrary: prev ks)
  case (Cons t ts)
  have prev: "prev_of prev (t # ts) (Suc i) = prev_of (Some t) ts i" if "i < length ts" for i
    using that by (cases i) (simp_all add: prev_of_def)
  show ?case
    unfolding verify_hops_Cons Cons
    by (cases ks) (auto simp: All_less_Suc2 prev, simp_all add: prev_of_def)
qed auto

subsection \<open>The SDK's loop\<close>

definition chain_error :: "string list result \<Rightarrow> string list result" where
  "chain_error r = (case r of Inl e \<Rightarrow> Inl InvalidChain | Inr x \<Rightarrow> Inr x)"

lemma sdk_loop:
  "i + length tokens = n \<Longrightarrow>
   sdk_verify_loop C now n i prev keys tokens =
     (case verify_hops C now prev tokens of
        Inl e \<Rightarrow> Inl InvalidChain | Inr ks \<Rightarrow> Inr (keys @ ks))"
proof (induction tokens arbitrary: i prev keys)
  case (Cons t ts)
  have l: "(Suc i = n) = (ts = [])" using Cons.prems by auto
  have IH: "sdk_verify_loop C now n (Suc i) (Some t) ks ts =
      (case verify_hops C now (Some t) ts of Inl e \<Rightarrow> Inl InvalidChain | Inr ks' \<Rightarrow> Inr (ks @ ks'))" for ks
    using Cons by simp
  show ?case
    by (auto simp: IH l check_hop_def prev_claim_def hop_hash_def Let_def
        split: option.split pyval.split sum.split)
qed simp

text \<open>C18: The SDK's \<open>verify_chain\<close> and funduq's \<open>verify_actor_chain\<close>, written independently, accept the same
  chains at the same time with the same keys, and reject the same, for every behaviour of the
  signature, hash and token libraries.\<close>

theorem chain_verifiers_agree:
  "sdk_verify_chain C now chain =
     (case verify_actor_chain C now chain of Inl e \<Rightarrow> Inl InvalidChain | Inr ks \<Rightarrow> Inr ks)"
  using sdk_loop [of 0 chain "length chain" C now None "[]"]
  by (simp add: sdk_verify_chain_def verify_actor_chain_def split: sum.split)

lemma verify_actor_chain_iff:
  "verify_actor_chain C now chain = Inr ks \<longleftrightarrow>
      chain \<noteq> [] \<and> length ks = length chain \<and>
      (\<forall>i < length chain. hop_ok C now (Suc i = length chain)
         (if i = 0 then None else Some (chain ! (i - 1))) (chain ! i) (ks ! i))"
  using verify_hops_iff [of C now None chain ks]
  by (auto simp: verify_actor_chain_def prev_of_def)

text \<open>C19: What \<open>verify_actor_chain\<close> accepts. It returns a list of keys exactly when the chain is not
  empty and, for every hop, the token verifies under the key it carries, its expiry being checked on
  the last hop only, and its \<open>prevHash\<close> is the hash of the token before it (none for the first); the
  keys are returned in hop order, the head first. Every other chain is \<open>InvalidActorChain\<close>.\<close>

theorem actor_chain_meaning:
  "(verify_actor_chain C now chain = Inr ks \<longleftrightarrow>
      chain \<noteq> [] \<and> length ks = length chain \<and>
      (\<forall>i < length chain. hop_ok C now (Suc i = length chain)
         (if i = 0 then None else Some (chain ! (i - 1))) (chain ! i) (ks ! i)))
   \<and> (\<forall>e. verify_actor_chain C now chain = Inl e \<longrightarrow> e = InvalidActorChain)"
proof
  show "verify_actor_chain C now chain = Inr ks \<longleftrightarrow>
      chain \<noteq> [] \<and> length ks = length chain \<and>
      (\<forall>i < length chain. hop_ok C now (Suc i = length chain)
         (if i = 0 then None else Some (chain ! (i - 1))) (chain ! i) (ks ! i))"
    by (rule verify_actor_chain_iff)
  have "verify_hops C now prev ts = Inl e \<Longrightarrow> e = InvalidActorChain" for prev ts e
    by (induction ts arbitrary: prev)
      (auto simp: check_hop_def bindR_Inl_iff split: option.splits pyval.splits if_splits)
  then show "\<forall>e. verify_actor_chain C now chain = Inl e \<longrightarrow> e = InvalidActorChain"
    by (auto simp: verify_actor_chain_def)
qed

subsection \<open>Extending\<close>

lemma hop_ok_signed:
  assumes "jwt_ok C" "of_int (int_time issued) \<le> now"
    and "now < of_int (int_time issued + ACTOR_CHAIN_TTL_SECONDS)"
  shows "hop_ok C now True prev (sign_hop C issued s prev) (to_hex (ed_public C s))"
proof -
  let ?c = "hop_claims (to_hex (ed_public C s)) (prev_claim C prev) (int_time issued)
              (int_time issued + ACTOR_CHAIN_TTL_SECONDS)"
  have v: "jwt_verified C (ed_public C s) True now (jwt_encode C ?c s) = Some ?c"
    using jwt_okD(4) [OF assms(1,2,3)] .
  have p: "jwt_peek C (jwt_encode C ?c s) = Some ?c"
    using jwt_okD(2) [OF assms(1) v] .
  show ?thesis
    unfolding hop_ok_def sign_hop_def Let_def
    using v p jwt_okD(1) [OF assms(1)]
    by (auto simp: hop_claims_def pget_def pget_or_def)
qed

lemma hop_ok_unexpired: "jwt_ok C \<Longrightarrow> hop_ok C now True prev t k \<Longrightarrow> hop_ok C now False prev t k"
  unfolding hop_ok_def using jwt_okD(3) [of C _ _ _ _ False] by blast

lemma verify_hops_snoc:
  assumes "jwt_ok C" "verify_hops C now prev chain = Inr ks" "chain \<noteq> []"
    and "hop_ok C now True (Some (last chain)) t k"
  shows "verify_hops C now prev (chain @ [t]) = Inr (ks @ [k])"
  using assms(2-4)
proof (induction chain arbitrary: prev ks)
  case (Cons x xs)
  from Cons.prems(1) obtain k' ks' where k': "ks = k' # ks'" "hop_ok C now (xs = []) prev x k'"
      "verify_hops C now (Some x) xs = Inr ks'"
    unfolding verify_hops_Cons by blast
  have h: "hop_ok C now False prev x k'"
    using k'(2) hop_ok_unexpired [OF assms(1)] by (cases "xs = []") auto
  have "verify_hops C now (Some x) (xs @ [t]) = Inr (ks' @ [k])"
  proof (cases "xs = []")
    case True
    with k'(3) Cons.prems(3) show ?thesis by (simp add: check_hop_iff)
  next
    case False
    with Cons k'(3) show ?thesis by simp
  qed
  with h k'(1) show ?case by (simp add: check_hop_iff)
qed simp

text \<open>Extending is provenance. When a chain verifies and somebody extends it with
  \<open>extend_actor_chain\<close> or the SDK's \<open>extend_chain\<close>, the longer chain verifies, until the new hop
  expires, to the same keys followed by the extender's; in particular the head, the segment's
  authority, stays. A chain started by \<open>new_actor_chain\<close> verifies with its signer as head, and no
  empty chain can be extended.\<close>

theorem extending_keeps_the_head:
  assumes "jwt_ok C" "verify_actor_chain C now chain = Inr ks"
    and "of_int (int_time issued) \<le> now" "now < of_int (int_time issued + ACTOR_CHAIN_TTL_SECONDS)"
  shows "(\<exists>chain'. extend_actor_chain C issued s chain = Inr chain' \<and>
           sdk_extend_chain C issued (identity_of C s) chain = Inr chain' \<and>
           verify_actor_chain C now chain' = Inr (ks @ [to_hex (ed_public C s)]) \<and>
           chain_head (ks @ [to_hex (ed_public C s)]) = chain_head ks)
    \<and> verify_actor_chain C now (new_actor_chain C issued s) = Inr [to_hex (ed_public C s)]
    \<and> extend_actor_chain C issued s [] = Inl ValueError"
proof -
  let ?t = "sign_hop C issued s (Some (last chain))"
  from assms(2) have ne: "chain \<noteq> []" "verify_hops C now None chain = Inr ks"
    by (auto simp: verify_actor_chain_def split: if_splits)
  have "verify_hops C now None (chain @ [?t]) = Inr (ks @ [to_hex (ed_public C s)])"
    by (rule verify_hops_snoc [OF assms(1) ne(2,1) hop_ok_signed [OF assms(1,3,4)]])
  moreover have "ks \<noteq> []" using verify_hops_iff [THEN iffD1, OF ne(2)] ne(1) by auto
  moreover have "sdk_sign_hop C issued (identity_of C s) (Some (last chain)) ACTOR_CHAIN_TTL_SECONDS = ?t"
    by (simp add: sdk_sign_hop_def sign_hop_def identity_of_def hop_claims_def prev_claim_def
        hop_hash_def Let_def)
  moreover have "verify_actor_chain C now (new_actor_chain C issued s) = Inr [to_hex (ed_public C s)]"
    using hop_ok_signed [OF assms(1,3,4), of None]
    by (simp add: verify_actor_chain_def new_actor_chain_def check_hop_iff)
  ultimately show ?thesis
    using ne(1)
    by (simp add: extend_actor_chain_def sdk_extend_chain_def verify_actor_chain_def chain_head_def)
qed

subsection \<open>The last token fixes the chain\<close>

lemma prev_claim_inj:
  "inj (sha256_hex C) \<Longrightarrow> prev_claim C p = prev_claim C q \<longleftrightarrow> p = q"
  by (auto simp: prev_claim_def hop_hash_def inj_eq split: option.splits)

lemma hop_ok_prev:
  assumes "jwt_ok C" "inj (sha256_hex C)" "hop_ok C n1 l1 p1 t k1" "hop_ok C n2 l2 p2 t k2"
  shows "p1 = p2 \<and> k1 = k2"
proof -
  from assms(3) obtain u1 kb1 c1 where 1: "jwt_peek C t = Some u1" "pget u1 ''actorPublicKey'' = PStr k1"
      "jwt_verified C kb1 l1 n1 t = Some c1" "pget c1 ''prevHash'' = prev_claim C p1"
    unfolding hop_ok_def by blast
  from assms(4) obtain u2 kb2 c2 where 2: "jwt_peek C t = Some u2" "pget u2 ''actorPublicKey'' = PStr k2"
      "jwt_verified C kb2 l2 n2 t = Some c2" "pget c2 ''prevHash'' = prev_claim C p2"
    unfolding hop_ok_def by blast
  have "u1 = u2" "c1 = u1" "c2 = u2"
    using 1 2 jwt_okD(2) [OF assms(1) 1(3)] jwt_okD(2) [OF assms(1) 2(3)] by auto
  with 1 2 prev_claim_inj [OF assms(2)] show ?thesis by auto
qed

text \<open>Read from the back: a chain is determined by its last token.\<close>

lemma verify_hops_last:
  assumes "jwt_ok C" "inj (sha256_hex C)"
    and "verify_hops C n1 None (xs @ [t]) = Inr ks" "verify_hops C n2 None (ys @ [t]) = Inr js"
  shows "xs = ys"
proof -
  have at: "\<exists>k. hop_ok C n l (if i = 0 then None else Some (zs ! (i - 1))) (zs ! i) k"
    if "verify_hops C n None zs = Inr hs" "i < length zs" "l = (Suc i = length zs)" for n zs hs i l
    using that unfolding verify_hops_iff prev_of_def by blast
  have "j \<le> length xs \<Longrightarrow> j \<le> length ys \<and> (xs @ [t]) ! (length xs - j) = (ys @ [t]) ! (length ys - j)" for j
  proof (induction j)
    case 0
    then show ?case by (simp add: nth_append)
  next
    case (Suc j)
    then have IH: "j \<le> length ys" "(xs @ [t]) ! (length xs - j) = (ys @ [t]) ! (length ys - j)" by auto
    let ?i = "length xs - j" and ?i' = "length ys - j"
    have "?i < length (xs @ [t])" "?i' < length (ys @ [t])" by simp_all
    with at [OF assms(3) _ refl] at [OF assms(4) _ refl] obtain l k l' k' where
      h1: "hop_ok C n1 l (if ?i = 0 then None else Some ((xs @ [t]) ! (?i - 1))) ((xs @ [t]) ! ?i) k"
      and h2: "hop_ok C n2 l' (if ?i' = 0 then None else Some ((ys @ [t]) ! (?i' - 1))) ((ys @ [t]) ! ?i') k'"
      by blast
    from hop_ok_prev [OF assms(1,2) h1 [unfolded IH(2)] h2] Suc.prems
    have "?i' \<noteq> 0" "(xs @ [t]) ! (?i - 1) = (ys @ [t]) ! (?i' - 1)"
      by (auto split: if_splits)
    with Suc.prems show ?case by (auto simp: Suc_diff_Suc diff_Suc split: nat.splits)
  qed
  note walk = this
  have same: "length xs = length ys"
  proof (rule ccontr)
    assume "length xs \<noteq> length ys"
    with walk [of "length xs"] have lt: "length xs < length ys" by auto
    from walk [of "length xs"] have e: "(xs @ [t]) ! 0 = (ys @ [t]) ! (length ys - length xs)" by auto
    have "0 < length (xs @ [t])" "length ys - length xs < length (ys @ [t])" by simp_all
    with at [OF assms(3) _ refl] at [OF assms(4) _ refl] obtain l k l' k' where
      "hop_ok C n1 l (if (0::nat) = 0 then None else Some ((xs @ [t]) ! (0 - 1))) ((xs @ [t]) ! 0) k"
      and "hop_ok C n2 l' (if length ys - length xs = 0 then None
        else Some ((ys @ [t]) ! (length ys - length xs - 1))) ((ys @ [t]) ! (length ys - length xs)) k'"
      by blast
    with lt obtain p where h1: "hop_ok C n1 l None ((xs @ [t]) ! 0) k"
      and h2: "hop_ok C n2 l' (Some p) ((ys @ [t]) ! (length ys - length xs)) k'"
      by auto
    from hop_ok_prev [OF assms(1,2) h1 [unfolded e] h2] show False by simp
  qed
  show ?thesis
  proof (rule nth_equalityI [OF same])
    fix i assume i: "i < length xs"
    with walk [of "length xs - i"] same show "xs ! i = ys ! i"
      by (simp add: nth_append)
  qed
qed

text \<open>A chain cannot be reordered, spliced or shortened in front: with a collision-free hash, any two
  chains that verify (at whatever times) and end in the same token are the same chain.\<close>

theorem last_token_fixes_the_chain:
  assumes "jwt_ok C" "inj (sha256_hex C)"
    and "verify_actor_chain C n1 chain1 = Inr ks1" "verify_actor_chain C n2 chain2 = Inr ks2"
    and "last chain1 = last chain2"
  shows "chain1 = chain2 \<and> ks1 = ks2"
proof -
  have ne: "chain1 \<noteq> []" "chain2 \<noteq> []"
      "verify_hops C n1 None chain1 = Inr ks1" "verify_hops C n2 None chain2 = Inr ks2"
    using assms(3,4) by (auto simp: verify_actor_chain_def split: if_splits)
  then have "butlast chain1 = butlast chain2"
    by (intro verify_hops_last [OF assms(1,2), of n1 "butlast chain1" "last chain1" ks1 n2 "butlast chain2" ks2])
      (simp_all, simp add: assms(5))
  then have c: "chain1 = chain2" using ne assms(5) by (metis append_butlast_last_id)
  have "ks1 = ks2"
  proof (rule nth_equalityI)
    show "length ks1 = length ks2" using ne c by (simp add: verify_hops_iff)
    fix i assume "i < length ks1"
    with ne c show "ks1 ! i = ks2 ! i"
      unfolding verify_hops_iff using hop_ok_prev [OF assms(1,2)] by metis
  qed
  with c show ?thesis by simp
qed

text \<open>Hops can be dropped at the end. Any non-empty front part of a chain that verifies is itself a
  chain that verifies, with the same keys, as long as its own last hop has not expired: \<open>prevHash\<close>
  only points backwards.\<close>

theorem a_front_part_verifies:
  assumes "jwt_ok C" "verify_actor_chain C now chain = Inr ks" "0 < n" "n \<le> length chain"
    and "hop_ok C now True (if n = 1 then None else Some (chain ! (n - 2))) (chain ! (n - 1)) (ks ! (n - 1))"
  shows "verify_actor_chain C now (take n chain) = Inr (take n ks)"
proof -
  have ok: "length ks = length chain" "chain \<noteq> []"
      "\<And>i. i < length chain \<Longrightarrow> hop_ok C now (Suc i = length chain)
         (if i = 0 then None else Some (chain ! (i - 1))) (chain ! i) (ks ! i)"
    using assms(2) verify_actor_chain_iff [of C now chain ks] by auto
  have "hop_ok C now (Suc i = length (take n chain))
      (if i = 0 then None else Some (take n chain ! (i - 1))) (take n chain ! i) (take n ks ! i)"
    if i: "i < length (take n chain)" for i
  proof (cases "Suc i = n")
    case True
    then have "i = n - 1" "i - 1 = n - 2" "(i = 0) = (n = 1)" by auto
    with assms(3-5) i ok(1) True show ?thesis by auto
  next
    case False
    with ok(3) [of i] i assms(4) hop_ok_unexpired [OF assms(1)]
    have "hop_ok C now False (if i = 0 then None else Some (chain ! (i - 1))) (chain ! i) (ks ! i)"
      by (cases "Suc i = length chain") auto
    with False i assms(4) show ?thesis by auto
  qed
  then show ?thesis
    using verify_actor_chain_iff [of C now "take n chain" "take n ks"] assms(3) ok(1,2) by auto
qed

subsection \<open>Witnesses\<close>

text \<open>A concrete token format: the four claims of a hop as text, joined by colons.\<close>

fun split_colon :: "string \<Rightarrow> string list" where
  "split_colon [] = [[]]"
| "split_colon (c # cs) =
     (if c = CHR '':'' then [] # split_colon cs
      else case split_colon cs of [] \<Rightarrow> [[c]] | x # xs \<Rightarrow> (c # x) # xs)"

lemma split_colon_plain: "CHR '':'' \<notin> set x \<Longrightarrow> split_colon x = [x]"
  by (induction x) auto

lemma split_colon_cut: "CHR '':'' \<notin> set x \<Longrightarrow> split_colon (x @ CHR '':'' # y) = x # split_colon y"
  by (induction x) auto

definition prev_text :: "pyval \<Rightarrow> string" where
  "prev_text v = (case v of PStr h \<Rightarrow> CHR ''h'' # h | _ \<Rightarrow> ''-'')"

definition text_prev :: "string \<Rightarrow> pyval" where
  "text_prev s = (case s of c # h \<Rightarrow> if c = CHR ''h'' then PStr h else PNone | [] \<Rightarrow> PNone)"

definition toy_encode :: "pyval \<Rightarrow> string \<Rightarrow> string" where
  "toy_encode c secret =
     py_str (pget c ''actorPublicKey'') @ '':'' @ prev_text (pget c ''prevHash'') @ '':'' @
     py_str (pget c ''iat'') @ '':'' @ py_str (pget c ''exp'')"

definition toy_parts :: "string \<Rightarrow> (string \<times> pyval \<times> int \<times> int) option" where
  "toy_parts t = (case split_colon t of
     [k, p, i, e] \<Rightarrow> (case (int_of_string i, int_of_string e) of
                        (Some i', Some e') \<Rightarrow> Some (k, text_prev p, i', e') | _ \<Rightarrow> None)
   | _ \<Rightarrow> None)"

definition toy_peek :: "string \<Rightarrow> pyval option" where
  "toy_peek t = map_option (\<lambda>(k, p, i, e). hop_claims k p i e) (toy_parts t)"

definition toy_verified :: "string \<Rightarrow> bool \<Rightarrow> rat \<Rightarrow> string \<Rightarrow> pyval option" where
  "toy_verified key check_exp now t = (case toy_parts t of
     None \<Rightarrow> None
   | Some (k, p, i, e) \<Rightarrow>
       if k = to_hex key \<and> of_int i \<le> now \<and> (check_exp \<longrightarrow> now < of_int e)
       then Some (hop_claims k p i e) else None)"

definition toy_jwt :: "string jwt_crypto" where
  "toy_jwt = \<lparr>ed_public = (\<lambda>s. s), ed_sign = (\<lambda>s m. s @ m), ed_key_ok = (\<lambda>k. True),
     ed_verify = (\<lambda>k sig m. sig = k @ m), seed_key = (\<lambda>s. s), sha256_hex = to_hex,
     jwt_encode = toy_encode, jwt_peek = toy_peek, jwt_verified = toy_verified\<rparr>"

lemma hex_no_colon: "CHR '':'' \<notin> set (to_hex bs)"
proof -
  have "hex_digit n \<noteq> CHR '':''" if "n < 16" for n
    using hex_digit_facts(1) [OF that] by (auto simp: hex_val_def)
  moreover have "(of_char b :: nat) div 16 < 16" for b
    by (rule less_mult_imp_div_less) simp
  ultimately show ?thesis by (auto simp: to_hex_def Let_def) (metis mod_less_divisor zero_less_numeral)+
qed

lemma toy_parts_encode:
  "toy_parts (toy_encode (hop_claims (to_hex k) (prev_claim toy_jwt p) i e) s) =
     Some (to_hex k, prev_claim toy_jwt p, i, e)"
proof -
  have "CHR '':'' \<notin> set (prev_text (prev_claim toy_jwt p))"
    using hex_no_colon by (auto simp: prev_text_def prev_claim_def hop_hash_def toy_jwt_def
        split: option.split)
  moreover have "text_prev (prev_text (prev_claim toy_jwt p)) = prev_claim toy_jwt p"
    by (auto simp: text_prev_def prev_text_def prev_claim_def split: option.split)
  ultimately show ?thesis
    by (simp add: toy_parts_def toy_encode_def hop_claims_def pget_def pget_or_def hex_no_colon
        split_colon_cut split_colon_plain render_int_plain)
qed

lemma toy_jwt_ok: "jwt_ok toy_jwt"
proof -
  have "jwt_verified toy_jwt = toy_verified" "jwt_peek toy_jwt = toy_peek"
      "jwt_encode toy_jwt = toy_encode" "ed_public toy_jwt = (\<lambda>s. s)" "ed_key_ok toy_jwt = (\<lambda>k. True)"
    by (simp_all add: toy_jwt_def)
  then show ?thesis
    by (auto simp: jwt_ok_def Let_def toy_verified_def toy_peek_def toy_parts_encode
        split: option.splits if_splits)
qed

lemma toy_hash_inj: "inj (sha256_hex toy_jwt)"
  by (rule injI) (metis from_to_hex option.inject toy_jwt_def jwt_crypto.simps crypto.simps)

definition toy_chain :: "string list" where
  "toy_chain = new_actor_chain toy_jwt 0 ''a''"

definition toy_chain2 :: "string list" where
  "toy_chain2 = toy_chain @ [sign_hop toy_jwt 0 ''b'' (Some (last toy_chain))]"

lemma toy_chain_verifies: "verify_actor_chain toy_jwt 5 toy_chain = Inr [to_hex ''a'']"
  by code_simp

lemma toy_chain2_verifies: "verify_actor_chain toy_jwt 5 toy_chain2 = Inr [to_hex ''a'', to_hex ''b'']"
  by code_simp

lemma extending_keeps_the_head_witness:
  "\<exists>chain'. extend_actor_chain toy_jwt 10 ''b'' toy_chain = Inr chain' \<and>
     verify_actor_chain toy_jwt 11 chain' = Inr [to_hex ''a'', to_hex ''b'']"
proof -
  have "verify_actor_chain toy_jwt 11 toy_chain = Inr [to_hex ''a'']" by code_simp
  from extending_keeps_the_head [OF toy_jwt_ok this, of 10 "''b''"] show ?thesis
    by (auto simp: int_time_def ACTOR_CHAIN_TTL_SECONDS_def toy_jwt_def)
qed

lemma last_token_fixes_the_chain_witness:
  "\<exists>ks1 ks2. verify_actor_chain toy_jwt 5 toy_chain2 = Inr ks1 \<and>
     verify_actor_chain toy_jwt 9 toy_chain2 = Inr ks2 \<and> ks1 = ks2"
proof -
  have "verify_actor_chain toy_jwt 9 toy_chain2 = Inr [to_hex ''a'', to_hex ''b'']" by code_simp
  with last_token_fixes_the_chain [OF toy_jwt_ok toy_hash_inj toy_chain2_verifies this refl]
    toy_chain2_verifies show ?thesis by blast
qed

lemma a_front_part_verifies_witness:
  "verify_actor_chain toy_jwt 5 (take 1 toy_chain2) = Inr (take 1 [to_hex ''a'', to_hex ''b''])"
proof -
  have c: "toy_chain2 ! 0 = sign_hop toy_jwt 0 ''a'' None" "length toy_chain2 = 2"
    by (simp_all add: toy_chain2_def toy_chain_def new_actor_chain_def)
  have "hop_ok toy_jwt 5 True None (sign_hop toy_jwt 0 ''a'' None) (to_hex (ed_public toy_jwt ''a''))"
    by (rule hop_ok_signed [OF toy_jwt_ok]) (simp_all add: int_time_def ACTOR_CHAIN_TTL_SECONDS_def)
  then have "hop_ok toy_jwt 5 True (if (1::nat) = 1 then None else Some (toy_chain2 ! (1 - 2)))
      (toy_chain2 ! (1 - 1)) ([to_hex ''a'', to_hex ''b''] ! (1 - 1))"
    by (simp add: c(1)) (simp add: toy_jwt_def)
  from a_front_part_verifies [OF toy_jwt_ok toy_chain2_verifies _ _ this] c(2) show ?thesis by simp
qed

lemma actor_chain_meaning_witness:
  "length toy_chain2 = 2 \<and> hop_ok toy_jwt 5 True (Some (toy_chain2 ! 0)) (toy_chain2 ! 1) (to_hex ''b'')"
proof -
  have c: "length toy_chain2 = 2"
    by (simp add: toy_chain2_def toy_chain_def new_actor_chain_def)
  have "\<forall>i < length toy_chain2. hop_ok toy_jwt 5 (Suc i = length toy_chain2)
      (if i = 0 then None else Some (toy_chain2 ! (i - 1))) (toy_chain2 ! i) ([to_hex ''a'', to_hex ''b''] ! i)"
    using actor_chain_meaning [of toy_jwt 5 toy_chain2 "[to_hex ''a'', to_hex ''b'']"] toy_chain2_verifies
    by blast
  then have "hop_ok toy_jwt 5 (Suc 1 = length toy_chain2)
      (if (1::nat) = 0 then None else Some (toy_chain2 ! (1 - 1))) (toy_chain2 ! 1) ([to_hex ''a'', to_hex ''b''] ! 1)"
    using c by (metis one_less_numeral_iff semiring_norm(76))
  with c show ?thesis by simp
qed

end
