(* ===== verification/Events.thy ===== *)
theory Events
  imports PyVal
begin

text \<open>
  What funduq reads in an AG-UI event: \<open>funduq/pause.py\<close>, \<open>rewrite_message_ids\<close> of \<open>funduq/agui.py\<close>,
  and \<open>funduq/agui_reduce.py\<close>, which folds a run's events into the messages of its thread.  Message
  and tool-call ids are whatever the events carry; a list or a dictionary there raises \<open>TypeError\<close>
  when it is used as a key.
\<close>

subsection \<open>Pauses\<close>

definition event_type :: "pyval \<Rightarrow> pyval" where
  "event_type event = pget event ''type''"

definition interrupt_outcome_of :: "pyval \<Rightarrow> pyval option" where
  "interrupt_outcome_of event =
     (if event_type event \<noteq> PStr ''RUN_FINISHED'' then None
      else let outcome = pget event ''outcome'' in
           if \<not> is_dict outcome \<or> pget outcome ''type'' \<noteq> PStr ''interrupt'' then None
           else Some (por (pget outcome ''interrupts'') (PList [])))"

subsection \<open>Message ids on the way out\<close>

definition MESSAGE_ID_EVENT_TYPES :: "string list" where
  "MESSAGE_ID_EVENT_TYPES =
     [''TEXT_MESSAGE_START'', ''TEXT_MESSAGE_CONTENT'', ''TEXT_MESSAGE_CHUNK'', ''TEXT_MESSAGE_END'']"

text \<open>\<open>fresh\<close> is the id that \<open>new_id("msg")\<close> mints, whether or not \<open>setdefault\<close> takes it.\<close>

definition rewrite_message_ids ::
    "string \<Rightarrow> pyval \<Rightarrow> (pyval, string) dict \<Rightarrow> (pyval \<times> (pyval, string) dict) result" where
  "rewrite_message_ids fresh event id_map =
     (case event_type event of
        PStr t \<Rightarrow>
          if t \<notin> set MESSAGE_ID_EVENT_TYPES then Inr (event, id_map)
          else let original = pget event ''messageId'' in
               if \<not> truthy original then Inr (event, id_map)
               else if \<not> hashable original then Inl TypeError
               else let id_map' = dsetdefault original fresh id_map in
                    (case dget id_map' original of
                       None \<Rightarrow> Inl KeyError
                     | Some funduq_id \<Rightarrow> Inr (pset ''messageId'' (PStr funduq_id) event, id_map'))
      | tag \<Rightarrow> if hashable tag then Inr (event, id_map) else Inl TypeError)"

subsection \<open>Folding events into messages\<close>

record reduction =
  rd_messages :: "(pyval, pyval) dict"
  rd_order :: "pyval list"
  rd_parents :: "(pyval, pyval) dict"

definition new_reduction :: reduction where
  "new_reduction = \<lparr>rd_messages = [], rd_order = [], rd_parents = []\<rparr>"

definition assistant_message :: "pyval \<Rightarrow> pyval \<Rightarrow> reduction \<Rightarrow> reduction result" where
  "assistant_message message_id role st =
     (if \<not> hashable message_id then Inl TypeError
      else if dget (rd_messages st) message_id \<noteq> None then Inr st
      else Inr (st\<lparr>rd_messages := dset message_id
                     (PDict [(''id'', message_id), (''role'', role), (''content'', PStr [])]) (rd_messages st),
                   rd_order := rd_order st @ [message_id]\<rparr>))"

text \<open>The stored message with an id, changed by \<open>f\<close>.\<close>

definition change_message :: "pyval \<Rightarrow> (pyval \<Rightarrow> pyval result) \<Rightarrow> reduction \<Rightarrow> reduction result" where
  "change_message message_id f st =
     (case dget (rd_messages st) message_id of
        None \<Rightarrow> Inl KeyError
      | Some m \<Rightarrow> bindR (f m) (\<lambda>m'. Inr (st\<lparr>rd_messages := dset message_id m' (rd_messages st)\<rparr>)))"

definition append_content :: "pyval \<Rightarrow> pyval \<Rightarrow> pyval result" where
  "append_content delta m =
     bindR (pindex m ''content'') (\<lambda>c. bindR (padd c delta) (\<lambda>c'. Inr (pset ''content'' c' m)))"

definition append_tool_call :: "pyval \<Rightarrow> pyval \<Rightarrow> pyval result" where
  "append_tool_call call m =
     (case pget_or m ''toolCalls'' (PList []) of
        PList calls \<Rightarrow> Inr (pset ''toolCalls'' (PList (calls @ [call])) m)
      | _ \<Rightarrow> Inl AttributeError)"

text \<open>\<open>tool_call["function"]["arguments"] += delta\<close> on the first call with the id.\<close>

fun append_arguments :: "pyval \<Rightarrow> pyval \<Rightarrow> pyval list \<Rightarrow> pyval list result" where
  "append_arguments tool_call_id delta [] = Inr []"
| "append_arguments tool_call_id delta (call # calls) =
     bindR (pindex call ''id'') (\<lambda>i.
       if i = tool_call_id
       then bindR (pindex call ''function'') (\<lambda>f.
            bindR (pindex f ''arguments'') (\<lambda>a.
            bindR (padd a delta) (\<lambda>a'.
              Inr (pset ''function'' (pset ''arguments'' a' f) call # calls))))
       else bindR (append_arguments tool_call_id delta calls) (\<lambda>calls'. Inr (call # calls')))"

definition extend_tool_call :: "pyval \<Rightarrow> pyval \<Rightarrow> pyval \<Rightarrow> pyval result" where
  "extend_tool_call tool_call_id delta m =
     (case pget_or m ''toolCalls'' (PList []) of
        PList [] \<Rightarrow> Inr m
      | PList calls \<Rightarrow> bindR (append_arguments tool_call_id delta calls)
                         (\<lambda>calls'. Inr (pset ''toolCalls'' (PList calls') m))
      | _ \<Rightarrow> Inl TypeError)"

definition reduce_tool_call_start :: "pyval \<Rightarrow> reduction \<Rightarrow> reduction result" where
  "reduce_tool_call_start event st =
     bindR (pindex event ''toolCallId'') (\<lambda>tool_call_id.
       let parent_id = por (pget event ''parentMessageId'') tool_call_id in
       if \<not> hashable tool_call_id then Inl TypeError
       else bindR (assistant_message parent_id (PStr ''assistant'')
                     (st\<lparr>rd_parents := dset tool_call_id parent_id (rd_parents st)\<rparr>)) (\<lambda>st1.
            bindR (pindex event ''toolCallName'') (\<lambda>name.
              change_message parent_id
                (append_tool_call (PDict [(''id'', tool_call_id), (''type'', PStr ''function''),
                   (''function'', PDict [(''name'', name), (''arguments'', PStr [])])])) st1)))"

definition reduce_tool_call_args :: "pyval \<Rightarrow> reduction \<Rightarrow> reduction result" where
  "reduce_tool_call_args event st =
     bindR (pindex event ''toolCallId'') (\<lambda>tool_call_id.
       if \<not> hashable tool_call_id then Inl TypeError
       else case dget (rd_parents st) tool_call_id of
              None \<Rightarrow> Inr st
            | Some parent_id \<Rightarrow>
                if parent_id = PNone then Inr st
                else change_message parent_id
                       (extend_tool_call tool_call_id (pget_or event ''delta'' (PStr []))) st)"

definition reduce_tool_call_result :: "pyval \<Rightarrow> reduction \<Rightarrow> reduction result" where
  "reduce_tool_call_result event st =
     bindR (pindex event ''messageId'') (\<lambda>message_id.
     bindR (pindex event ''toolCallId'') (\<lambda>tool_call_id.
       if \<not> hashable message_id then Inl TypeError
       else Inr (st\<lparr>rd_messages := dset message_id
                      (PDict [(''id'', message_id), (''role'', PStr ''tool''),
                              (''content'', pget_or event ''content'' (PStr [])),
                              (''toolCallId'', tool_call_id)]) (rd_messages st),
                    rd_order := rd_order st @ [message_id]\<rparr>)))"

definition reduce_event :: "pyval \<Rightarrow> reduction \<Rightarrow> reduction result" where
  "reduce_event event st =
     (let etype = event_type event in
      if etype = PStr ''TEXT_MESSAGE_START'' then
        bindR (pindex event ''messageId'') (\<lambda>message_id.
          assistant_message message_id (pget_or event ''role'' (PStr ''assistant'')) st)
      else if etype = PStr ''TEXT_MESSAGE_CONTENT'' then
        bindR (pindex event ''messageId'') (\<lambda>message_id.
        bindR (assistant_message message_id (PStr ''assistant'') st) (\<lambda>st1.
          change_message message_id (append_content (pget_or event ''delta'' (PStr []))) st1))
      else if etype = PStr ''TOOL_CALL_START'' then reduce_tool_call_start event st
      else if etype = PStr ''TOOL_CALL_ARGS'' then reduce_tool_call_args event st
      else if etype = PStr ''TOOL_CALL_RESULT'' then reduce_tool_call_result event st
      else Inr st)"

fun reduce_loop :: "pyval list \<Rightarrow> reduction \<Rightarrow> reduction result" where
  "reduce_loop [] st = Inr st"
| "reduce_loop (event # events) st = bindR (reduce_event event st) (reduce_loop events)"

definition reduce_events_to_messages :: "pyval list \<Rightarrow> pyval list result" where
  "reduce_events_to_messages events =
     bindR (reduce_loop events new_reduction) (\<lambda>st.
       Inr (map (\<lambda>i. case dget (rd_messages st) i of None \<Rightarrow> PNone | Some m \<Rightarrow> m) (rd_order st)))"

end
