(* ===== verification/EventClaims.thy ===== *)
theory EventClaims
  imports Events
begin

text \<open>
  What the fold of events into thread messages yields: for text events the reference is written
  down per message, and the fold is shown equal to it; the fold never loses a message it lists.
\<close>

subsection \<open>Every listed message exists\<close>

definition reduction_ok :: "reduction \<Rightarrow> bool" where
  "reduction_ok st \<longleftrightarrow> set (rd_order st) \<subseteq> set (dkeys (rd_messages st))"

lemma assistant_message_ok:
  "assistant_message i role st = Inr st' \<Longrightarrow> reduction_ok st \<Longrightarrow> reduction_ok st'"
  by (auto simp: assistant_message_def reduction_ok_def split: if_splits)

lemma change_message_ok: "change_message i f st = Inr st' \<Longrightarrow> reduction_ok st \<Longrightarrow> reduction_ok st'"
  by (auto simp: change_message_def reduction_ok_def split: option.splits)

lemma reduce_event_ok: "reduce_event e st = Inr st' \<Longrightarrow> reduction_ok st \<Longrightarrow> reduction_ok st'"
  by (auto simp: reduce_event_def Let_def reduce_tool_call_start_def reduce_tool_call_args_def
      reduce_tool_call_result_def split: if_splits option.splits
      dest!: assistant_message_ok change_message_ok)
    (auto simp: reduction_ok_def)

lemma reduce_loop_ok: "reduce_loop es st = Inr st' \<Longrightarrow> reduction_ok st \<Longrightarrow> reduction_ok st'"
  by (induction es arbitrary: st) (auto dest: reduce_event_ok)

lemma reduce_loop_snoc: "reduce_loop (es @ [e]) st = bindR (reduce_loop es st) (reduce_event e)"
proof (induction es arbitrary: st)
  case Nil
  then show ?case by (cases "reduce_event e st") auto
next
  case (Cons x es)
  then show ?case by (cases "reduce_event x st") auto
qed

subsection \<open>Text messages\<close>

text \<open>The events that open or continue a text message, and those the fold passes over.\<close>

definition text_event :: "pyval \<Rightarrow> bool" where
  "text_event e \<longleftrightarrow> event_type e \<in> {PStr ''TEXT_MESSAGE_START'', PStr ''TEXT_MESSAGE_CONTENT''}
     \<and> is_str (pget e ''messageId'') \<and> is_str (pget_or e ''delta'' (PStr []))"

definition passed_over :: "pyval \<Rightarrow> bool" where
  "passed_over e \<longleftrightarrow> event_type e \<notin> {PStr ''TEXT_MESSAGE_START'', PStr ''TEXT_MESSAGE_CONTENT'',
     PStr ''TOOL_CALL_START'', PStr ''TOOL_CALL_ARGS'', PStr ''TOOL_CALL_RESULT''}"

definition starts :: "pyval \<Rightarrow> bool" where
  "starts e \<longleftrightarrow> event_type e = PStr ''TEXT_MESSAGE_START''"

text \<open>The reference: ids in order of first appearance; the role of the first event; the deltas joined.\<close>

definition ids_of :: "pyval list \<Rightarrow> pyval list" where
  "ids_of es = rev (remdups (rev (map (\<lambda>e. pget e ''messageId'') (filter text_event es))))"

definition role_of :: "pyval list \<Rightarrow> pyval \<Rightarrow> pyval" where
  "role_of es i =
     (case filter (\<lambda>e. text_event e \<and> pget e ''messageId'' = i) es of
        e # _ \<Rightarrow> if starts e then pget_or e ''role'' (PStr ''assistant'') else PStr ''assistant''
      | [] \<Rightarrow> PStr ''assistant'')"

definition delta_of :: "pyval \<Rightarrow> string" where
  "delta_of e = (case pget_or e ''delta'' (PStr []) of PStr s \<Rightarrow> s | _ \<Rightarrow> [])"

definition text_of :: "pyval list \<Rightarrow> pyval \<Rightarrow> string" where
  "text_of es i = concat (map delta_of
     (filter (\<lambda>e. text_event e \<and> \<not> starts e \<and> pget e ''messageId'' = i) es))"

definition message_of :: "pyval list \<Rightarrow> pyval \<Rightarrow> pyval" where
  "message_of es i = PDict [(''id'', i), (''role'', role_of es i), (''content'', PStr (text_of es i))]"

lemma ids_of_snoc:
  "ids_of (es @ [e]) = (if text_event e \<and> pget e ''messageId'' \<notin> set (ids_of es)
     then ids_of es @ [pget e ''messageId''] else ids_of es)"
  by (auto simp: ids_of_def)

lemma distinct_ids_of [simp]: "distinct (ids_of es)"
  by (simp add: ids_of_def)

lemma set_ids_of: "i \<in> set (ids_of es) \<longleftrightarrow> (\<exists>e \<in> set es. text_event e \<and> pget e ''messageId'' = i)"
  by (auto simp: ids_of_def)

lemma role_of_snoc:
  "i \<in> set (ids_of es) \<Longrightarrow> role_of (es @ [e]) i = role_of es i"
  "i \<notin> set (ids_of es) \<Longrightarrow> text_event e \<Longrightarrow> pget e ''messageId'' = i \<Longrightarrow>
     role_of (es @ [e]) i = (if starts e then pget_or e ''role'' (PStr ''assistant'') else PStr ''assistant'')"
proof -
  assume "i \<in> set (ids_of es)"
  then obtain x xs where "filter (\<lambda>e. text_event e \<and> pget e ''messageId'' = i) es = x # xs"
    unfolding set_ids_of by (cases "filter (\<lambda>e. text_event e \<and> pget e ''messageId'' = i) es")
      (auto simp: filter_empty_conv)
  then show "role_of (es @ [e]) i = role_of es i" by (simp add: role_of_def)
next
  assume "i \<notin> set (ids_of es)" "text_event e" "pget e ''messageId'' = i"
  then have "filter (\<lambda>e. text_event e \<and> pget e ''messageId'' = i) es = []"
    by (auto simp: set_ids_of filter_empty_conv)
  with \<open>text_event e\<close> \<open>pget e ''messageId'' = i\<close>
  show "role_of (es @ [e]) i = (if starts e then pget_or e ''role'' (PStr ''assistant'') else PStr ''assistant'')"
    by (simp add: role_of_def)
qed

lemma text_of_snoc:
  "text_of (es @ [e]) i = text_of es i @
     (if text_event e \<and> \<not> starts e \<and> pget e ''messageId'' = i then delta_of e else [])"
  by (simp add: text_of_def)

lemma text_of_new: "i \<notin> set (ids_of es) \<Longrightarrow> text_of es i = []"
  by (auto simp: text_of_def set_ids_of filter_empty_conv)

definition text_state :: "pyval list \<Rightarrow> reduction" where
  "text_state es = \<lparr>rd_messages = map (\<lambda>i. (i, message_of es i)) (ids_of es), rd_order = ids_of es, rd_parents = []\<rparr>"

lemma dget_text_state: "dget (rd_messages (text_state es)) i =
    (if i \<in> set (ids_of es) then Some (message_of es i) else None)"
  by (auto simp: text_state_def map_of_map_restrict restrict_map_def)

lemma dset_map_keys:
  "distinct xs \<Longrightarrow> dset k v (map (\<lambda>i. (i, f i)) xs) =
     (if k \<in> set xs then map (\<lambda>i. (i, if i = k then v else f i)) xs else map (\<lambda>i. (i, f i)) xs @ [(k, v)])"
  by (induction xs) auto

text \<open>The message with an id is there, with no text when it is new; its place is kept.\<close>

lemma assistant_message_text:
  assumes "text_event e" "pget e ''messageId'' = i"
  shows "assistant_message i (if starts e then pget_or e ''role'' (PStr ''assistant'') else PStr ''assistant'')
      (text_state es) =
    Inr \<lparr>rd_messages = map (\<lambda>j. (j, PDict [(''id'', j), (''role'', role_of (es @ [e]) j),
           (''content'', PStr (text_of es j))])) (ids_of (es @ [e])),
         rd_order = ids_of (es @ [e]), rd_parents = []\<rparr>"
proof -
  have h: "hashable i" using assms by (cases i) (auto simp: text_event_def)
  show ?thesis
  proof (cases "i \<in> set (ids_of es)")
    case True
    with assms have ids: "ids_of (es @ [e]) = ids_of es" by (simp add: ids_of_snoc)
    have "map (\<lambda>j. (j, message_of es j)) (ids_of es) = map (\<lambda>j. (j, PDict [(''id'', j),
        (''role'', role_of (es @ [e]) j), (''content'', PStr (text_of es j))])) (ids_of es)"
      by (simp add: message_of_def role_of_snoc(1))
    with True h ids show ?thesis
      by (simp add: assistant_message_def dget_text_state) (simp add: text_state_def)
  next
    case False
    with assms have ids: "ids_of (es @ [e]) = ids_of es @ [i]" by (simp add: ids_of_snoc)
    have "map (\<lambda>j. (j, message_of es j)) (ids_of es) = map (\<lambda>j. (j, PDict [(''id'', j),
        (''role'', role_of (es @ [e]) j), (''content'', PStr (text_of es j))])) (ids_of es)"
      by (simp add: message_of_def role_of_snoc(1))
    with False h ids assms show ?thesis
      by (simp add: assistant_message_def dget_text_state)
        (simp add: text_state_def dset_map_keys role_of_snoc(2) text_of_new)
  qed
qed

lemma reduce_text_event:
  assumes "text_event e"
  shows "reduce_event e (text_state es) = Inr (text_state (es @ [e]))"
proof -
  let ?i = "pget e ''messageId''"
  from assms obtain s where s: "?i = PStr s" by (cases ?i) (auto simp: text_event_def)
  then have ix: "pindex e ''messageId'' = Inr ?i"
    by (cases e) (auto simp: pget_def pget_or_def split: option.splits)
  obtain dl where dl: "pget_or e ''delta'' (PStr []) = PStr dl"
    using assms by (cases "pget_or e ''delta'' (PStr [])") (auto simp: text_event_def)
  let ?mid = "\<lambda>j. PDict [(''id'', j), (''role'', role_of (es @ [e]) j), (''content'', PStr (text_of es j))]"
  show ?thesis
  proof (cases "starts e")
    case True
    then have "event_type e = PStr ''TEXT_MESSAGE_START''" by (simp add: starts_def)
    with ix assistant_message_text [OF assms refl, of es] True show ?thesis
      by (simp add: reduce_event_def) (simp add: text_state_def message_of_def text_of_snoc)
  next
    case False
    with assms have t: "event_type e = PStr ''TEXT_MESSAGE_CONTENT''" by (auto simp: starts_def text_event_def)
    have here: "?i \<in> set (ids_of (es @ [e]))" using assms by (simp add: ids_of_snoc)
    have "dget (map (\<lambda>j. (j, ?mid j)) (ids_of (es @ [e]))) ?i = Some (?mid ?i)"
      using here by (simp add: map_of_map_restrict)
    moreover have "append_content (PStr dl) (?mid ?i) =
        Inr (PDict [(''id'', ?i), (''role'', role_of (es @ [e]) ?i), (''content'', PStr (text_of es ?i @ dl))])"
      by (simp add: append_content_def)
    moreover have "text_of (es @ [e]) j = text_of es j @ (if j = ?i then dl else [])" for j
      using assms False dl by (auto simp: text_of_snoc delta_of_def)
    ultimately show ?thesis
      using t ix assistant_message_text [OF assms refl, of es] False here dl
      by (simp add: reduce_event_def change_message_def)
        (auto simp: text_state_def message_of_def dset_map_keys)
  qed
qed

lemma reduce_passed_over:
  assumes "passed_over e"
  shows "reduce_event e (text_state es) = Inr (text_state (es @ [e]))"
proof -
  have n: "\<not> text_event e" using assms by (auto simp: passed_over_def text_event_def)
  have "text_state (es @ [e]) = text_state es"
    using n by (simp add: text_state_def message_of_def ids_of_snoc text_of_snoc role_of_snoc(1) cong: map_cong)
  with assms show ?thesis by (simp add: passed_over_def reduce_event_def Let_def)
qed

lemma reduce_text_loop:
  "\<forall>e \<in> set es. text_event e \<or> passed_over e \<Longrightarrow> reduce_loop es new_reduction = Inr (text_state es)"
proof (induction es rule: rev_induct)
  case Nil
  then show ?case by (simp add: new_reduction_def text_state_def ids_of_def)
next
  case (snoc e es)
  then show ?case by (auto simp: reduce_loop_snoc reduce_text_event reduce_passed_over)
qed


definition demo_text_events :: "pyval list" where
  "demo_text_events =
     [PDict [(''type'', PStr ''TEXT_MESSAGE_CONTENT''), (''messageId'', PStr ''m2''), (''delta'', PStr ''b'')],
      PDict [(''type'', PStr ''TEXT_MESSAGE_START''), (''messageId'', PStr ''m1''), (''role'', PStr ''user'')],
      PDict [(''type'', PStr ''STATE_DELTA'')],
      PDict [(''type'', PStr ''TEXT_MESSAGE_CONTENT''), (''messageId'', PStr ''m2''), (''delta'', PStr ''c'')]]"


subsection \<open>Tool results\<close>

definition result_event :: "string \<Rightarrow> string \<Rightarrow> string \<Rightarrow> pyval" where
  "result_event i call text = PDict [(''type'', PStr ''TOOL_CALL_RESULT''), (''messageId'', PStr i),
     (''toolCallId'', PStr call), (''content'', PStr text)]"

text \<open>A tool result whose message id was seen before takes that message's place and is listed again:
  two results under one id become two copies of the later one, and the earlier is lost.\<close>

theorem a_repeated_result_is_listed_twice:
  "reduce_events_to_messages [result_event i c1 t1, result_event i c2 t2] =
     (let m = PDict [(''id'', PStr i), (''role'', PStr ''tool''), (''content'', PStr t2), (''toolCallId'', PStr c2)]
      in Inr [m, m])"
  by (simp add: reduce_events_to_messages_def result_event_def reduce_event_def event_type_def pget_def
      pget_or_def reduce_tool_call_result_def new_reduction_def Let_def)

end
