(* ===== verification/Kyok.thy ===== *)
theory Kyok
  imports Signatures Broker
begin

text \<open>
  \<open>funduq/kyok.py\<close>: the bearer token of a KYOK run, the opt-in and forwarded-props readers, and the
  relay that knows which offering a run is bound to.  HMAC-SHA256, JSON, base64 and the pydantic
  validators are not part of the repository; the record \<open>codec\<close> holds them as functions and
  \<open>codec_ok\<close> states what the token relies on.
\<close>

record codec =
  cd_hmac_hex :: "string \<Rightarrow> string \<Rightarrow> string"
  cd_b64_json :: "pyval \<Rightarrow> string"
  cd_unb64_json :: "string \<Rightarrow> pyval option"

text \<open>\<open>cd_unb64_json\<close> is \<open>None\<close> where decoding or parsing raises a \<open>ValueError\<close>.  What a token with
  payload \<open>v\<close> relies on: decoding undoes encoding, the URL-safe alphabet has no full stop, and hex
  digests are ASCII.\<close>

definition is_ascii :: "string \<Rightarrow> bool" where
  "is_ascii s = (\<forall>c \<in> set s. (of_char c :: nat) < 128)"

definition codec_ok :: "codec \<Rightarrow> pyval \<Rightarrow> bool" where
  "codec_ok K v \<longleftrightarrow>
     cd_unb64_json K (cd_b64_json K v) = Some v \<and> CHR ''.'' \<notin> set (cd_b64_json K v) \<and>
     (\<forall>k m. is_ascii (cd_hmac_hex K k m))"

subsection \<open>Tokens\<close>

definition KYOK_TOKEN_TTL_SECONDS :: int where "KYOK_TOKEN_TTL_SECONDS = 3600"

record kyok_token =
  kt_run_id :: string
  kt_agent :: agent_ref

definition token_payload :: "rat \<Rightarrow> string \<Rightarrow> agent_ref \<Rightarrow> pyval" where
  "token_payload now run_id agent = PDict
     [(''runId'', PStr run_id), (''providerKey'', PStr (ar_provider_key agent)),
      (''agentName'', PStr (ar_name agent)), (''exp'', PInt (int_time now + KYOK_TOKEN_TTL_SECONDS))]"

definition issue_kyok_token :: "codec \<Rightarrow> rat \<Rightarrow> string \<Rightarrow> agent_ref \<Rightarrow> string \<Rightarrow> string" where
  "issue_kyok_token K now run_id agent signing_secret =
     (let body = cd_b64_json K (token_payload now run_id agent)
      in body @ ''.'' @ cd_hmac_hex K signing_secret body)"

text \<open>\<open>token.split(".", 1)\<close> into two parts; without a full stop the unpacking raises \<open>ValueError\<close>.\<close>

fun split_dot :: "string \<Rightarrow> (string \<times> string) option" where
  "split_dot [] = None"
| "split_dot (c # cs) =
     (if c = CHR ''.'' then Some ([], cs)
      else map_option (\<lambda>(a, b). (c # a, b)) (split_dot cs))"

text \<open>\<open>hmac.compare_digest\<close> takes two strings only when both are ASCII.\<close>

definition compare_digest :: "string \<Rightarrow> string \<Rightarrow> bool result" where
  "compare_digest a b = (if is_ascii a \<and> is_ascii b then Inr (a = b) else Inl TypeError)"

text \<open>\<open>payload.get("exp", 0) < time.time()\<close>; only numbers compare.\<close>

definition expired :: "rat \<Rightarrow> pyval \<Rightarrow> bool result" where
  "expired now v =
     (case v of
        PInt n \<Rightarrow> Inr (of_int n < now)
      | PBool b \<Rightarrow> Inr ((if b then 1 else 0) < now)
      | _ \<Rightarrow> Inl TypeError)"

definition token_of_payload :: "pyval \<Rightarrow> kyok_token option" where
  "token_of_payload payload =
     (case (pget payload ''runId'', pget payload ''providerKey'', pget payload ''agentName'') of
        (PStr r, PStr k, PStr n) \<Rightarrow>
          Some \<lparr>kt_run_id = r, kt_agent = \<lparr>ar_provider_key = k, ar_name = n\<rparr>\<rparr>
      | _ \<Rightarrow> None)"

definition verify_kyok_token :: "codec \<Rightarrow> rat \<Rightarrow> string \<Rightarrow> string \<Rightarrow> kyok_token option result" where
  "verify_kyok_token K now token signing_secret =
     (case split_dot token of
        None \<Rightarrow> Inr None
      | Some (body, signature) \<Rightarrow>
          bindR (compare_digest (cd_hmac_hex K signing_secret body) signature) (\<lambda>same.
            if \<not> same then Inr None
            else (case cd_unb64_json K body of
                    None \<Rightarrow> Inr None
                  | Some payload \<Rightarrow>
                      if \<not> is_dict payload then Inl AttributeError
                      else bindR (expired now (pget_or payload ''exp'' (PInt 0))) (\<lambda>old.
                             Inr (if old then None else token_of_payload payload)))))"

subsection \<open>Opting in\<close>

record kyok_opt_in =
  ko_llm_provider :: "llm_ref option"
  ko_context :: pyval

text \<open>\<open>validate\<close> is \<open>KyokOptIn.model_validate\<close>, \<open>None\<close> where it raises \<open>ValidationError\<close>.\<close>

definition parse_kyok_opt_in :: "(pyval \<Rightarrow> kyok_opt_in option) \<Rightarrow> pyval \<Rightarrow> kyok_opt_in option" where
  "parse_kyok_opt_in validate metadata =
     (let raw = pget metadata ''kyok'' in
      if \<not> is_dict raw then None
      else let target = pget raw ''llmProvider'' in
           validate (if is_dict target
                     then pset ''llmProvider''
                            (PDict [(''provider_key'', pget target ''providerKey''),
                                    (''name'', pget target ''name'')]) raw
                     else raw))"

definition strip_kyok_context :: "pyval \<Rightarrow> pyval" where
  "strip_kyok_context metadata =
     (case pget metadata ''kyok'' of
        PDict kyok \<Rightarrow>
          if ''context'' \<in> set (dkeys kyok)
          then pset ''kyok'' (PDict (filter (\<lambda>(k, v). k \<noteq> ''context'') kyok)) metadata
          else metadata
      | _ \<Rightarrow> metadata)"

definition kyok_forwarded_props :: "codec \<Rightarrow> rat \<Rightarrow> string \<Rightarrow> agent_ref \<Rightarrow> string \<Rightarrow> pyval" where
  "kyok_forwarded_props K now run_id agent signing_secret =
     PDict [(''token'', PStr (issue_kyok_token K now run_id agent signing_secret))]"

text \<open>\<open>validate\<close> is \<open>KyokForwardedProps.model_validate\<close>, the token it holds or \<open>None\<close>.\<close>

definition read_kyok_forwarded_props :: "(pyval \<Rightarrow> string option) \<Rightarrow> pyval \<Rightarrow> string option" where
  "read_kyok_forwarded_props validate forwarded_props =
     (if \<not> is_dict forwarded_props then None
      else let raw = pget forwarded_props ''kyok'' in
           if raw = PNone then None else validate raw)"

subsection \<open>The relay\<close>

record kyok_binding =
  kb_llm_provider :: llm_ref
  kb_context :: pyval
  kb_actor_chain :: "string list option"

record completion_request =
  cq_run_id :: string
  cq_agent :: agent_ref
  cq_body :: pyval
  cq_llm_name :: string
  cq_context :: pyval
  cq_actor_chain :: "string list option"

text \<open>A \<open>ConnectedLLMProvider\<close>: the identity of the object and its public key.\<close>

record llm_link =
  lk_id :: nat
  lk_public_key :: string

definition KYOK_COUNTERS :: "string list" where
  "KYOK_COUNTERS = [''completions'', ''refused'', ''failed'']"

record kyok_relay =
  kr_bindings :: "(string, kyok_binding) dict"
  kr_live :: "(llm_ref, llm_link) live_roster"

definition new_kyok_relay :: kyok_relay where
  "new_kyok_relay = \<lparr>kr_bindings = [], kr_live = new_live_roster KYOK_COUNTERS\<rparr>"

definition bind_run :: "string \<Rightarrow> kyok_binding \<Rightarrow> kyok_relay \<Rightarrow> kyok_relay" where
  "bind_run run_id binding k = k\<lparr>kr_bindings := dset run_id binding (kr_bindings k)\<rparr>"

definition binding_for :: "kyok_relay \<Rightarrow> string \<Rightarrow> kyok_binding option" where
  "binding_for k run_id = dget (kr_bindings k) run_id"

definition inherit :: "string \<Rightarrow> string \<Rightarrow> string list option \<Rightarrow> kyok_relay \<Rightarrow> bool \<times> kyok_relay" where
  "inherit parent_run_id child_run_id actor_chain k =
     (case dget (kr_bindings k) parent_run_id of
        None \<Rightarrow> (False, k)
      | Some parent \<Rightarrow>
          (True, k\<lparr>kr_bindings := dset child_run_id
                     \<lparr>kb_llm_provider = kb_llm_provider parent, kb_context = kb_context parent,
                      kb_actor_chain = actor_chain\<rparr> (kr_bindings k)\<rparr>))"

definition discard :: "string \<Rightarrow> kyok_relay \<Rightarrow> kyok_relay" where
  "discard run_id k = k\<lparr>kr_bindings := dpop run_id (kr_bindings k)\<rparr>"

definition kyok_attach :: "(llm_ref, llm_link) dict \<Rightarrow> kyok_relay \<Rightarrow> kyok_relay" where
  "kyok_attach mapping k = k\<lparr>kr_live := lr_attach mapping (kr_live k)\<rparr>"

definition kyok_withdraw :: "llm_ref list \<Rightarrow> kyok_relay \<Rightarrow> kyok_relay" where
  "kyok_withdraw refs k = k\<lparr>kr_live := lr_withdraw refs (kr_live k)\<rparr>"

definition kyok_serving :: "kyok_relay \<Rightarrow> llm_ref \<Rightarrow> llm_link option" where
  "kyok_serving k ref = lr_serving (kr_live k) ref"

definition kyok_served_by :: "kyok_relay \<Rightarrow> string \<Rightarrow> llm_ref list" where
  "kyok_served_by k public_key = lr_served_by lf_provider_key (kr_live k) public_key"

definition bound_runs :: "kyok_relay \<Rightarrow> llm_ref \<Rightarrow> nat" where
  "bound_runs k ref = length (filter (\<lambda>b. kb_llm_provider b = ref) (map snd (kr_bindings k)))"

definition note_outcome :: "string \<Rightarrow> string \<Rightarrow> kyok_relay \<Rightarrow> kyok_relay result" where
  "note_outcome public_key outcome k =
     bindR (lr_note public_key outcome (kr_live k)) (\<lambda>live. Inr (k\<lparr>kr_live := live\<rparr>))"

definition kyok_quality :: "kyok_relay \<Rightarrow> string \<Rightarrow> int list" where
  "kyok_quality k public_key = map (lr_count (kr_live k) public_key) KYOK_COUNTERS"

interpretation relay_table:
  live_table kyok_serving kyok_served_by kyok_attach kyok_withdraw lf_provider_key
  by unfold_locales
    (auto simp: kyok_serving_def kyok_served_by_def kyok_attach_def kyok_withdraw_def
      lr_serving_attach set_served_by split: option.split)

text \<open>Well-formedness and the bindings.\<close>

definition relay_ok :: "kyok_relay \<Rightarrow> bool" where
  "relay_ok k \<longleftrightarrow> dict_ok (kr_bindings k) \<and> roster_ok (kr_live k) \<and> lr_counter_names (kr_live k) = KYOK_COUNTERS"

lemma relay_ok_ops [simp]:
  "relay_ok new_kyok_relay"
  "relay_ok k \<Longrightarrow> relay_ok (bind_run r b k)"
  "relay_ok k \<Longrightarrow> relay_ok (snd (inherit p c ch k))"
  "relay_ok k \<Longrightarrow> relay_ok (discard r k)"
  "relay_ok k \<Longrightarrow> relay_ok (kyok_attach m k)"
  "relay_ok k \<Longrightarrow> relay_ok (kyok_withdraw rs k)"
  by (auto simp: relay_ok_def new_kyok_relay_def bind_run_def inherit_def discard_def kyok_attach_def
      kyok_withdraw_def new_live_roster_def [THEN arg_cong [where f = lr_counter_names]]
      split: option.split)

lemma binding_for_ops [simp]:
  "binding_for (bind_run r b k) i = (if i = r then Some b else binding_for k i)"
  "binding_for (discard r k) i = (if i = r then None else binding_for k i)"
  "binding_for (kyok_attach m k) i = binding_for k i"
  "binding_for (kyok_withdraw rs k) i = binding_for k i"
  by (simp_all add: binding_for_def bind_run_def discard_def kyok_attach_def kyok_withdraw_def)

lemma split_dot_append: "CHR ''.'' \<notin> set a \<Longrightarrow> split_dot (a @ CHR ''.'' # b) = Some (a, b)"
  by (induction a) auto

lemma split_dot_Some: "split_dot t = Some (a, b) \<Longrightarrow> t = a @ CHR ''.'' # b \<and> CHR ''.'' \<notin> set a"
  by (induction t arbitrary: a) (auto split: if_splits)

end
