(* ===== verification/Schema.thy ===== *)
theory Schema
  imports Signatures Broker
begin

text \<open>
  \<open>funduq/schema.py\<close>: the tables, a row list each, and the constraints the database enforces.  A
  statement that would break a primary key, a unique or foreign key or a check is refused with
  \<open>IntegrityError\<close> and changes nothing.  The JSON columns hold \<open>pyval\<close>s, timestamps are
  microseconds, and the seven values that the check on \<open>runs.status\<close> admits are a datatype.
\<close>

datatype status = Queued | Running | InputRequired | Cancelling | Completed | Failed | Cancelled

record provider_row =
  pr_public_key :: string
  pr_fingerprint :: string
  pr_display_name :: "string option"
  pr_updated_at :: int

record agent_row =
  ag_provider_key :: string
  ag_name :: string
  ag_card :: pyval
  ag_metadata :: pyval
  ag_joined_at :: int
  ag_last_seen_at :: int

record llm_row =
  ll_provider_key :: string
  ll_name :: string
  ll_metadata :: pyval
  ll_joined_at :: int
  ll_last_seen_at :: int

record thread_row =
  th_thread_id :: string
  th_provider_key :: string
  th_agent_name :: string
  th_parent_thread_id :: "string option"
  th_head_key :: "string option"
  th_metadata :: pyval
  th_created_at :: int
  th_last_activity_at :: int

record run_row =
  rn_run_id :: string
  rn_thread_id :: string
  rn_provider_key :: string
  rn_agent_name :: string
  rn_protocol :: string
  rn_status :: status
  rn_head_key :: "string option"
  rn_input_json :: pyval
  rn_started_at :: "int option"
  rn_completed_at :: "int option"
  rn_last_activity_at :: "int option"
  rn_metadata :: pyval
  rn_created_at :: int

record message_row =
  ms_id :: nat
  ms_thread_id :: string
  ms_run_id :: string
  ms_message_id :: string
  ms_message_json :: pyval
  ms_metadata :: pyval
  ms_created_at :: int

record event_row =
  ev_id :: nat
  ev_run_id :: string
  ev_seq :: int
  ev_event_json :: pyval
  ev_created_at :: int

record db =
  db_providers :: "provider_row list"
  db_agents :: "agent_row list"
  db_llms :: "llm_row list"
  db_threads :: "thread_row list"
  db_runs :: "run_row list"
  db_messages :: "message_row list"
  db_events :: "event_row list"

definition empty_db :: db where
  "empty_db = \<lparr>db_providers = [], db_agents = [], db_llms = [], db_threads = [], db_runs = [],
     db_messages = [], db_events = []\<rparr>"

definition agent_key :: "agent_row \<Rightarrow> agent_ref" where
  "agent_key r = \<lparr>ar_provider_key = ag_provider_key r, ar_name = ag_name r\<rparr>"

definition llm_key :: "llm_row \<Rightarrow> string \<times> string" where
  "llm_key r = (ll_provider_key r, ll_name r)"

definition thread_agent :: "thread_row \<Rightarrow> agent_ref" where
  "thread_agent r = \<lparr>ar_provider_key = th_provider_key r, ar_name = th_agent_name r\<rparr>"

definition run_agent :: "run_row \<Rightarrow> agent_ref" where
  "run_agent r = \<lparr>ar_provider_key = rn_provider_key r, ar_name = rn_agent_name r\<rparr>"

definition provider_keys :: "db \<Rightarrow> string set" where
  "provider_keys d = set (map pr_public_key (db_providers d))"

definition agent_keys :: "db \<Rightarrow> agent_ref set" where
  "agent_keys d = set (map agent_key (db_agents d))"

definition thread_ids :: "db \<Rightarrow> string set" where
  "thread_ids d = set (map th_thread_id (db_threads d))"

definition run_ids :: "db \<Rightarrow> string set" where
  "run_ids d = set (map rn_run_id (db_runs d))"

definition protocols :: "string set" where
  "protocols = {''ag-ui'', ''a2a''}"

text \<open>The constraints, as a predicate on databases.\<close>

definition providers_ok :: "db \<Rightarrow> bool" where
  "providers_ok d \<longleftrightarrow> distinct (map pr_public_key (db_providers d)) \<and>
     distinct (map pr_fingerprint (db_providers d))"

definition agents_ok :: "db \<Rightarrow> bool" where
  "agents_ok d \<longleftrightarrow> distinct (map agent_key (db_agents d)) \<and>
     (\<forall>r \<in> set (db_agents d). ag_provider_key r \<in> provider_keys d)"

definition llms_ok :: "db \<Rightarrow> bool" where
  "llms_ok d \<longleftrightarrow> distinct (map llm_key (db_llms d)) \<and>
     (\<forall>r \<in> set (db_llms d). ll_provider_key r \<in> provider_keys d)"

definition threads_ok :: "db \<Rightarrow> bool" where
  "threads_ok d \<longleftrightarrow> distinct (map th_thread_id (db_threads d)) \<and>
     (\<forall>r \<in> set (db_threads d). thread_agent r \<in> agent_keys d \<and>
        set_option (th_parent_thread_id r) \<subseteq> thread_ids d)"

definition runs_ok :: "db \<Rightarrow> bool" where
  "runs_ok d \<longleftrightarrow> distinct (map rn_run_id (db_runs d)) \<and>
     (\<forall>r \<in> set (db_runs d). run_agent r \<in> agent_keys d \<and> rn_thread_id r \<in> thread_ids d \<and>
        rn_protocol r \<in> protocols)"

definition messages_ok :: "db \<Rightarrow> bool" where
  "messages_ok d \<longleftrightarrow>
     distinct (map (\<lambda>r. (ms_thread_id r, ms_message_id r)) (db_messages d)) \<and>
     (\<forall>r \<in> set (db_messages d). ms_thread_id r \<in> thread_ids d \<and> ms_run_id r \<in> run_ids d)"

definition events_ok :: "db \<Rightarrow> bool" where
  "events_ok d \<longleftrightarrow> (\<forall>r \<in> set (db_events d). ev_run_id r \<in> run_ids d)"

definition db_ok :: "db \<Rightarrow> bool" where
  "db_ok d \<longleftrightarrow> providers_ok d \<and> agents_ok d \<and> llms_ok d \<and> threads_ok d \<and> runs_ok d \<and>
     messages_ok d \<and> events_ok d"

text \<open>\<open>UPDATE ... WHERE p\<close>: the rows that satisfy \<open>p\<close> are changed in place; \<open>rowcount\<close> is how many.\<close>

definition update_where :: "('r \<Rightarrow> bool) \<Rightarrow> ('r \<Rightarrow> 'r) \<Rightarrow> 'r list \<Rightarrow> 'r list" where
  "update_where p f rows = map (\<lambda>r. if p r then f r else r) rows"

definition row_count :: "('r \<Rightarrow> bool) \<Rightarrow> 'r list \<Rightarrow> nat" where
  "row_count p rows = length (filter p rows)"

text \<open>Autoincremented ids.\<close>

definition next_message_id :: "db \<Rightarrow> nat" where
  "next_message_id d = Suc (foldr max (map ms_id (db_messages d)) 0)"

definition next_event_id :: "db \<Rightarrow> nat" where
  "next_event_id d = Suc (foldr max (map ev_id (db_events d)) 0)"

subsection \<open>Inserts\<close>

definition insert_thread :: "thread_row \<Rightarrow> db \<Rightarrow> db result" where
  "insert_thread r d =
     (if th_thread_id r \<in> thread_ids d \<or> thread_agent r \<notin> agent_keys d \<or>
         (case th_parent_thread_id r of
            None \<Rightarrow> False | Some p \<Rightarrow> p \<notin> thread_ids d \<and> p \<noteq> th_thread_id r)
      then Inl IntegrityError
      else Inr (d\<lparr>db_threads := db_threads d @ [r]\<rparr>))"

definition insert_run :: "run_row \<Rightarrow> db \<Rightarrow> db result" where
  "insert_run r d =
     (if rn_run_id r \<in> run_ids d \<or> run_agent r \<notin> agent_keys d \<or> rn_thread_id r \<notin> thread_ids d \<or>
         rn_protocol r \<notin> protocols
      then Inl IntegrityError
      else Inr (d\<lparr>db_runs := db_runs d @ [r]\<rparr>))"

definition insert_message :: "message_row \<Rightarrow> db \<Rightarrow> db result" where
  "insert_message r d =
     (if ms_thread_id r \<notin> thread_ids d \<or> ms_run_id r \<notin> run_ids d \<or>
         (\<exists>m \<in> set (db_messages d). ms_thread_id m = ms_thread_id r \<and> ms_message_id m = ms_message_id r)
      then Inl IntegrityError
      else Inr (d\<lparr>db_messages := db_messages d @ [r]\<rparr>))"

definition insert_event :: "event_row \<Rightarrow> db \<Rightarrow> db result" where
  "insert_event r d =
     (if ev_run_id r \<notin> run_ids d then Inl IntegrityError
      else Inr (d\<lparr>db_events := db_events d @ [r]\<rparr>))"

end
