(* ===== verification/Repo.thy ===== *)
theory Repo
  imports Schema
begin

text \<open>
  \<open>funduq/repo.py\<close>: every statement funduq runs against its database.  A function takes the database
  and returns it with its value; where the source commits and then raises, or raises before any
  change, the exception comes without a database and the caller's is unchanged.  The clock and
  freshly minted ids are arguments.  A \<open>metadata\<close> argument that is \<open>None\<close> in Python is \<open>PNone\<close>.
\<close>

subsection \<open>Providers and agents\<close>

definition ensure_provider ::
    "('s, 'z) crypto_scheme \<Rightarrow> int \<Rightarrow> string \<Rightarrow> db \<Rightarrow> db result" where
  "ensure_provider C now public_key d =
     bindR (provider_fingerprint C public_key) (\<lambda>fingerprint.
       if public_key \<in> provider_keys d then Inr d
       else if fingerprint \<in> set (map pr_fingerprint (db_providers d)) then Inl ProviderFingerprintTaken
       else Inr (d\<lparr>db_providers := db_providers d @
              [\<lparr>pr_public_key = public_key, pr_fingerprint = fingerprint, pr_display_name = None,
                pr_updated_at = now\<rparr>]\<rparr>))"

definition set_provider_name :: "int \<Rightarrow> string \<Rightarrow> string \<Rightarrow> db \<Rightarrow> db" where
  "set_provider_name now public_key display_name d =
     d\<lparr>db_providers := update_where (\<lambda>r. pr_public_key r = public_key)
         (\<lambda>r. r\<lparr>pr_display_name := Some display_name, pr_updated_at := now\<rparr>) (db_providers d)\<rparr>"

text \<open>One element of \<open>agents_batch\<close>: its name and its card.\<close>

definition entry_name :: "pyval \<Rightarrow> string result" where
  "entry_name agent =
     bindR (pindex agent ''name'') (\<lambda>v. case v of PStr s \<Rightarrow> Inr s | _ \<Rightarrow> Inl TypeError)"

definition entry_card :: "pyval \<Rightarrow> string \<Rightarrow> pyval result" where
  "entry_card agent name =
     (case pget_or agent ''agent_card_extra'' (PDict []) of
        PDict extra \<Rightarrow>
          Inr (PDict (dupdate [(''name'', PStr name),
                               (''description'', pget_or agent ''description'' (PStr []))] extra))
      | _ \<Rightarrow> Inl TypeError)"

definition upsert_agent :: "agent_row \<Rightarrow> db \<Rightarrow> db" where
  "upsert_agent r d =
     (if agent_key r \<in> agent_keys d
      then d\<lparr>db_agents := update_where (\<lambda>x. agent_key x = agent_key r)
               (\<lambda>x. x\<lparr>ag_card := ag_card r, ag_metadata := ag_metadata r,
                      ag_last_seen_at := ag_last_seen_at r\<rparr>) (db_agents d)\<rparr>
      else d\<lparr>db_agents := db_agents d @ [r]\<rparr>)"

fun register_entries ::
    "int \<Rightarrow> string \<Rightarrow> pyval list \<Rightarrow> db \<Rightarrow> (db \<times> (string, agent_ref) dict) result" where
  "register_entries now public_key [] d = Inr (d, [])"
| "register_entries now public_key (agent # agents) d =
     bindR (entry_name agent) (\<lambda>name.
     bindR (entry_card agent name) (\<lambda>card.
     bindR (register_entries now public_key agents
              (upsert_agent \<lparr>ag_provider_key = public_key, ag_name = name, ag_card = card,
                 ag_metadata = pget_or agent ''metadata'' (PDict []), ag_joined_at = now,
                 ag_last_seen_at = now\<rparr> d))
       (\<lambda>(d', refs). Inr (d', (name, \<lparr>ar_provider_key = public_key, ar_name = name\<rparr>) # dpop name refs))))"

definition register_agents ::
    "('s, 'z) crypto_scheme \<Rightarrow> int \<Rightarrow> string \<Rightarrow> pyval list \<Rightarrow> string option \<Rightarrow> db
       \<Rightarrow> (db \<times> (string, agent_ref) dict) result" where
  "register_agents C now public_key agents_batch provider_name d =
     bindR (ensure_provider C now public_key d) (\<lambda>d1.
       register_entries now public_key agents_batch
         (case provider_name of None \<Rightarrow> d1 | Some n \<Rightarrow> set_provider_name now public_key n d1))"

definition get_agent_names_for_provider :: "db \<Rightarrow> string \<Rightarrow> string set" where
  "get_agent_names_for_provider d provider_key =
     set (map ag_name (filter (\<lambda>r. ag_provider_key r = provider_key) (db_agents d)))"

definition touch_agents :: "int \<Rightarrow> string \<Rightarrow> string list \<Rightarrow> db \<Rightarrow> db" where
  "touch_agents now provider_key names d =
     (if names = [] then d
      else d\<lparr>db_agents := update_where (\<lambda>r. ag_provider_key r = provider_key \<and> ag_name r \<in> set names)
               (\<lambda>r. r\<lparr>ag_last_seen_at := now\<rparr>) (db_agents d)\<rparr>)"

definition get_agent :: "db \<Rightarrow> agent_ref \<Rightarrow> agent_row option" where
  "get_agent d agent = find (\<lambda>r. agent_key r = agent) (db_agents d)"

text \<open>The providers row an outer join finds for a key.\<close>

definition provider_of :: "db \<Rightarrow> string \<Rightarrow> provider_row option" where
  "provider_of d key = find (\<lambda>p. pr_public_key p = key) (db_providers d)"

definition resolve_agent :: "db \<Rightarrow> string \<Rightarrow> string \<Rightarrow> agent_row option" where
  "resolve_agent d provider name =
     find (\<lambda>r. (ag_provider_key r = provider \<or>
                 (case provider_of d (ag_provider_key r) of
                    None \<Rightarrow> False | Some p \<Rightarrow> pr_fingerprint p = provider))
               \<and> ag_name r = name) (db_agents d)"

record agent_summary =
  as_provider_key :: string
  as_name :: string
  as_description :: pyval
  as_skills :: pyval
  as_joined_at :: int
  as_last_seen_at :: int
  as_provider_name :: "string option"

definition agent_summary_of :: "db \<Rightarrow> agent_row \<Rightarrow> agent_summary" where
  "agent_summary_of d r =
     \<lparr>as_provider_key = ag_provider_key r, as_name = ag_name r,
      as_description = pget_or (ag_card r) ''description'' (PStr []),
      as_skills = pget_or (ag_card r) ''skills'' (PList []),
      as_joined_at = ag_joined_at r, as_last_seen_at = ag_last_seen_at r,
      as_provider_name = (case provider_of d (ag_provider_key r) of
                            None \<Rightarrow> None | Some p \<Rightarrow> pr_display_name p)\<rparr>"

definition list_agents :: "db \<Rightarrow> int \<Rightarrow> int \<Rightarrow> agent_summary list" where
  "list_agents d now stale_hidden_window =
     map (agent_summary_of d)
       (sort_key ag_name
         (filter (\<lambda>r. now - stale_hidden_window \<le> ag_last_seen_at r) (db_agents d)))"

definition count_threads_for_agent :: "db \<Rightarrow> agent_ref \<Rightarrow> nat" where
  "count_threads_for_agent d agent = row_count (\<lambda>r. thread_agent r = agent) (db_threads d)"

definition count_runs_for_agent :: "db \<Rightarrow> agent_ref \<Rightarrow> status list option \<Rightarrow> nat" where
  "count_runs_for_agent d agent statuses =
     row_count (\<lambda>r. run_agent r = agent \<and>
                    (case statuses of None \<Rightarrow> True | Some ss \<Rightarrow> rn_status r \<in> set ss)) (db_runs d)"

text \<open>Threads and runs reference their agent, so a referenced row cannot be deleted.\<close>

definition delete_agent :: "agent_ref \<Rightarrow> db \<Rightarrow> (db \<times> bool) result" where
  "delete_agent agent d =
     (if agent \<in> agent_keys d \<and>
         (0 < count_threads_for_agent d agent \<or> 0 < count_runs_for_agent d agent None)
      then Inl IntegrityError
      else Inr (d\<lparr>db_agents := filter (\<lambda>r. agent_key r \<noteq> agent) (db_agents d)\<rparr>, agent \<in> agent_keys d))"

definition get_agent_name_for_public_key :: "db \<Rightarrow> string \<Rightarrow> string option" where
  "get_agent_name_for_public_key d public_key =
     (case sort_key ag_joined_at (filter (\<lambda>r. ag_provider_key r = public_key) (db_agents d)) of
        [] \<Rightarrow> None | r # _ \<Rightarrow> Some (ag_name r))"

subsection \<open>LLM offerings\<close>

definition ref_key :: "llm_ref \<Rightarrow> string \<times> string" where
  "ref_key r = (lf_provider_key r, lf_name r)"

definition upsert_llm :: "llm_row \<Rightarrow> db \<Rightarrow> db" where
  "upsert_llm r d =
     (if llm_key r \<in> set (map llm_key (db_llms d))
      then d\<lparr>db_llms := update_where (\<lambda>x. llm_key x = llm_key r)
               (\<lambda>x. x\<lparr>ll_metadata := ll_metadata r, ll_last_seen_at := ll_last_seen_at r\<rparr>) (db_llms d)\<rparr>
      else d\<lparr>db_llms := db_llms d @ [r]\<rparr>)"

fun register_offerings ::
    "int \<Rightarrow> string \<Rightarrow> pyval \<Rightarrow> string list \<Rightarrow> db \<Rightarrow> db \<times> (string, llm_ref) dict" where
  "register_offerings now public_key metadata [] d = (d, [])"
| "register_offerings now public_key metadata (name # names) d =
     (let (d', refs) = register_offerings now public_key metadata names
            (upsert_llm \<lparr>ll_provider_key = public_key, ll_name = name,
               ll_metadata = por metadata (PDict []), ll_joined_at = now, ll_last_seen_at = now\<rparr> d)
      in (d', (name, \<lparr>lf_provider_key = public_key, lf_name = name\<rparr>) # dpop name refs))"

definition register_llm_providers ::
    "('s, 'z) crypto_scheme \<Rightarrow> int \<Rightarrow> string \<Rightarrow> string list \<Rightarrow> pyval \<Rightarrow> db
       \<Rightarrow> (db \<times> (string, llm_ref) dict) result" where
  "register_llm_providers C now public_key names metadata d =
     bindR (ensure_provider C now public_key d)
       (\<lambda>d1. Inr (register_offerings now public_key metadata names d1))"

definition get_llm_provider :: "db \<Rightarrow> llm_ref \<Rightarrow> llm_row option" where
  "get_llm_provider d ref = find (\<lambda>r. llm_key r = ref_key ref) (db_llms d)"

definition get_llm_names_for_key :: "db \<Rightarrow> string \<Rightarrow> string set" where
  "get_llm_names_for_key d public_key =
     set (map ll_name (filter (\<lambda>r. ll_provider_key r = public_key) (db_llms d)))"

definition touch_llm_providers :: "int \<Rightarrow> string \<Rightarrow> string list \<Rightarrow> db \<Rightarrow> db" where
  "touch_llm_providers now provider_key names d =
     (if names = [] then d
      else d\<lparr>db_llms := update_where (\<lambda>r. ll_provider_key r = provider_key \<and> ll_name r \<in> set names)
               (\<lambda>r. r\<lparr>ll_last_seen_at := now\<rparr>) (db_llms d)\<rparr>)"

record llm_summary =
  ls_provider_key :: string
  ls_name :: string
  ls_metadata :: pyval
  ls_joined_at :: int
  ls_last_seen_at :: int
  ls_provider_name :: "string option"

definition list_llm_providers :: "db \<Rightarrow> int \<Rightarrow> int \<Rightarrow> llm_summary list" where
  "list_llm_providers d now stale_hidden_window =
     map (\<lambda>r. \<lparr>ls_provider_key = ll_provider_key r, ls_name = ll_name r, ls_metadata = ll_metadata r,
               ls_joined_at = ll_joined_at r, ls_last_seen_at = ll_last_seen_at r,
               ls_provider_name = (case provider_of d (ll_provider_key r) of
                                     None \<Rightarrow> None | Some p \<Rightarrow> pr_display_name p)\<rparr>)
       (sort_key ll_name
         (filter (\<lambda>r. now - stale_hidden_window \<le> ll_last_seen_at r) (db_llms d)))"

definition delete_llm_provider :: "llm_ref \<Rightarrow> db \<Rightarrow> db \<times> bool" where
  "delete_llm_provider ref d =
     (d\<lparr>db_llms := filter (\<lambda>r. llm_key r \<noteq> ref_key ref) (db_llms d)\<rparr>,
      ref_key ref \<in> set (map llm_key (db_llms d)))"

subsection \<open>Threads\<close>

definition get_thread :: "db \<Rightarrow> string \<Rightarrow> thread_row option" where
  "get_thread d thread_id = find (\<lambda>r. th_thread_id r = thread_id) (db_threads d)"

definition create_thread ::
    "int \<Rightarrow> string \<Rightarrow> agent_ref \<Rightarrow> string option \<Rightarrow> pyval \<Rightarrow> string option \<Rightarrow> db
       \<Rightarrow> (db \<times> string) result" where
  "create_thread now fresh agent parent_thread_id metadata head_key d =
     bindR (insert_thread
              \<lparr>th_thread_id = fresh, th_provider_key = ar_provider_key agent, th_agent_name = ar_name agent,
               th_parent_thread_id = parent_thread_id, th_head_key = head_key,
               th_metadata = por metadata (PDict []), th_created_at = now, th_last_activity_at = now\<rparr> d)
       (\<lambda>d'. Inr (d', fresh))"

definition ensure_thread ::
    "int \<Rightarrow> string \<Rightarrow> agent_ref \<Rightarrow> string option \<Rightarrow> string option \<Rightarrow> pyval \<Rightarrow> bool \<Rightarrow> string option \<Rightarrow> db
       \<Rightarrow> (db \<times> string) result" where
  "ensure_thread now fresh agent thread_id parent_thread_id metadata create_if_missing head_key d =
     (case thread_id of
        None \<Rightarrow> create_thread now fresh agent parent_thread_id metadata head_key d
      | Some tid \<Rightarrow>
          (case get_thread d tid of
             None \<Rightarrow>
               if create_if_missing then create_thread now fresh agent parent_thread_id metadata head_key d
               else Inl ThreadNotFound
           | Some existing \<Rightarrow>
               if thread_agent existing \<noteq> agent then Inl ThreadOwnershipMismatch
               else if th_head_key existing \<noteq> None \<and> head_key \<noteq> th_head_key existing \<and>
                       head_key \<noteq> Some (ar_provider_key agent)
               then Inl ThreadMembershipRequired
               else Inr (d\<lparr>db_threads := update_where (\<lambda>r. th_thread_id r = tid)
                              (\<lambda>r. r\<lparr>th_last_activity_at := now\<rparr>) (db_threads d)\<rparr>, tid)))"

definition get_thread_children :: "db \<Rightarrow> string \<Rightarrow> thread_row list" where
  "get_thread_children d thread_id =
     sort_key th_created_at (filter (\<lambda>r. th_parent_thread_id r = Some thread_id) (db_threads d))"

text \<open>One fresh id per message; the id the caller sent is replaced.\<close>

fun append_thread_messages ::
    "int \<Rightarrow> string \<Rightarrow> string \<Rightarrow> (pyval \<times> string) list \<Rightarrow> db \<Rightarrow> (db \<times> pyval list) result" where
  "append_thread_messages now thread_id run_id [] d = Inr (d, [])"
| "append_thread_messages now thread_id run_id ((message, message_id) # rest) d =
     (let final_message = pset ''id'' (PStr message_id) message in
      bindR (insert_message
               \<lparr>ms_id = next_message_id d, ms_thread_id = thread_id, ms_run_id = run_id,
                ms_message_id = message_id, ms_message_json = final_message,
                ms_metadata = pget_or message ''metadata'' (PDict []), ms_created_at = now\<rparr> d) (\<lambda>d1.
      bindR (append_thread_messages now thread_id run_id rest d1) (\<lambda>(d', stored).
        Inr (d', final_message # stored))))"

definition get_thread_messages :: "db \<Rightarrow> string \<Rightarrow> pyval list" where
  "get_thread_messages d thread_id =
     map ms_message_json (sort_key ms_id (filter (\<lambda>r. ms_thread_id r = thread_id) (db_messages d)))"

subsection \<open>Runs\<close>

definition ACTIVE_RUN_STATUSES :: "status list" where
  "ACTIVE_RUN_STATUSES = [Queued, Running, Cancelling, InputRequired]"

definition create_run ::
    "int \<Rightarrow> string \<Rightarrow> string \<Rightarrow> agent_ref \<Rightarrow> string \<Rightarrow> pyval \<Rightarrow> pyval \<Rightarrow> string option \<Rightarrow> db
       \<Rightarrow> (db \<times> string) result" where
  "create_run now fresh thread_id agent protocol input_json metadata head_key d =
     bindR (insert_run
              \<lparr>rn_run_id = fresh, rn_thread_id = thread_id, rn_provider_key = ar_provider_key agent,
               rn_agent_name = ar_name agent, rn_protocol = protocol, rn_status = Queued,
               rn_head_key = head_key, rn_input_json = input_json, rn_started_at = None,
               rn_completed_at = None, rn_last_activity_at = Some now,
               rn_metadata = por metadata (PDict []), rn_created_at = now\<rparr> d)
       (\<lambda>d'. Inr (d', fresh))"

text \<open>\<open>{**a, **b}\<close>\<close>

fun pmerge :: "pyval \<Rightarrow> pyval \<Rightarrow> pyval" where
  "pmerge (PDict a) (PDict b) = PDict (dupdate a b)"
| "pmerge x y = x"

definition get_run :: "db \<Rightarrow> string \<Rightarrow> run_row option" where
  "get_run d run_id = find (\<lambda>r. rn_run_id r = run_id) (db_runs d)"

definition merge_run_metadata :: "db \<Rightarrow> string \<Rightarrow> pyval \<Rightarrow> pyval" where
  "merge_run_metadata d run_id metadata =
     pmerge (case get_run d run_id of None \<Rightarrow> PDict [] | Some r \<Rightarrow> por (rn_metadata r) (PDict [])) metadata"

text \<open>The row a conditional update matches.\<close>

definition run_matches :: "string \<Rightarrow> (status \<Rightarrow> bool) \<Rightarrow> run_row \<Rightarrow> bool" where
  "run_matches run_id from r = (rn_run_id r = run_id \<and> from (rn_status r))"

definition reopen_run ::
    "int \<Rightarrow> string \<Rightarrow> pyval \<Rightarrow> pyval \<Rightarrow> status option \<Rightarrow> db \<Rightarrow> db \<times> bool" where
  "reopen_run now run_id input_json metadata expected_status d =
     (let p = run_matches run_id (\<lambda>s. case expected_status of None \<Rightarrow> True | Some e \<Rightarrow> s = e);
          merged = merge_run_metadata d run_id metadata
      in (d\<lparr>db_runs := update_where p
              (\<lambda>r. r\<lparr>rn_status := Queued, rn_input_json := input_json, rn_last_activity_at := Some now,
                     rn_metadata := (if truthy metadata then merged else rn_metadata r)\<rparr>) (db_runs d)\<rparr>,
          0 < row_count p (db_runs d)))"

fun LEGAL_STATUS_TRANSITIONS :: "status \<Rightarrow> status list option" where
  "LEGAL_STATUS_TRANSITIONS Running = Some [Queued]"
| "LEGAL_STATUS_TRANSITIONS InputRequired = Some [Running, Cancelling]"
| "LEGAL_STATUS_TRANSITIONS Cancelling = Some [Running]"
| "LEGAL_STATUS_TRANSITIONS Completed = Some [Running, Cancelling]"
| "LEGAL_STATUS_TRANSITIONS Cancelled = Some [Queued, Running, Cancelling]"
| "LEGAL_STATUS_TRANSITIONS Failed = Some [Queued, Running, Cancelling, InputRequired]"
| "LEGAL_STATUS_TRANSITIONS Queued = None"

text \<open>The write of one transition, with its timestamp column.\<close>

definition stamp_status :: "int \<Rightarrow> status \<Rightarrow> run_row \<Rightarrow> run_row" where
  "stamp_status now s r =
     (let r1 = r\<lparr>rn_status := s, rn_last_activity_at := Some now\<rparr> in
      if s = Running then r1\<lparr>rn_started_at := Some now\<rparr>
      else if s \<in> {Completed, Failed, Cancelled} then r1\<lparr>rn_completed_at := Some now\<rparr>
      else r1)"

definition mark_run_status ::
    "int \<Rightarrow> string \<Rightarrow> status \<Rightarrow> pyval \<Rightarrow> db \<Rightarrow> (db \<times> bool) result" where
  "mark_run_status now run_id s metadata d =
     (case LEGAL_STATUS_TRANSITIONS s of
        None \<Rightarrow> Inl ValueError
      | Some legal_from \<Rightarrow>
          let p = run_matches run_id (\<lambda>x. x \<in> set legal_from);
              merged = merge_run_metadata d run_id metadata;
              d' = d\<lparr>db_runs := update_where p
                       (\<lambda>r. (stamp_status now s r)
                              \<lparr>rn_metadata := (if truthy metadata then merged else rn_metadata r)\<rparr>)
                       (db_runs d)\<rparr>
          in if 0 < row_count p (db_runs d) then Inr (d', True)
             else if get_run d run_id = None then Inl RunRowMissing
             else Inr (d', False))"

text \<open>The latest of a thread's runs with a given status; of equals, the one stored first.\<close>

definition latest_run :: "db \<Rightarrow> string \<Rightarrow> (status \<Rightarrow> bool) \<Rightarrow> run_row option" where
  "latest_run d thread_id p =
     (case sort_key (\<lambda>r. - rn_created_at r)
             (filter (\<lambda>r. rn_thread_id r = thread_id \<and> p (rn_status r)) (db_runs d)) of
        [] \<Rightarrow> None | r # _ \<Rightarrow> Some r)"

definition get_active_run_for_thread :: "db \<Rightarrow> string \<Rightarrow> run_row option" where
  "get_active_run_for_thread d thread_id =
     latest_run d thread_id (\<lambda>s. s \<in> set ACTIVE_RUN_STATUSES)"

definition get_paused_run_for_thread :: "db \<Rightarrow> string \<Rightarrow> run_row option" where
  "get_paused_run_for_thread d thread_id = latest_run d thread_id (\<lambda>s. s = InputRequired)"

definition count_queued_runs_for_thread :: "db \<Rightarrow> string \<Rightarrow> nat" where
  "count_queued_runs_for_thread d thread_id =
     row_count (\<lambda>r. rn_thread_id r = thread_id \<and> rn_status r = Queued) (db_runs d)"

definition ensure_queue_room :: "db \<Rightarrow> string \<Rightarrow> int option \<Rightarrow> unit result" where
  "ensure_queue_room d thread_id limit =
     (case limit of
        None \<Rightarrow> Inr ()
      | Some n \<Rightarrow> if n \<le> int (count_queued_runs_for_thread d thread_id) then Inl ThreadQueueFull
                  else Inr ())"

record thread_snapshot =
  ts_thread_id :: string
  ts_messages :: "pyval list"
  ts_active_run :: "(string \<times> status) option"

definition get_thread_snapshot :: "db \<Rightarrow> string \<Rightarrow> thread_snapshot option" where
  "get_thread_snapshot d thread_id =
     (case get_thread d thread_id of
        None \<Rightarrow> None
      | Some _ \<Rightarrow> Some \<lparr>ts_thread_id = thread_id, ts_messages = get_thread_messages d thread_id,
          ts_active_run = map_option (\<lambda>r. (rn_run_id r, rn_status r))
                            (get_active_run_for_thread d thread_id)\<rparr>)"

definition touch_run_activity :: "int \<Rightarrow> string \<Rightarrow> db \<Rightarrow> db" where
  "touch_run_activity now run_id d =
     d\<lparr>db_runs := update_where (\<lambda>r. rn_run_id r = run_id)
         (\<lambda>r. r\<lparr>rn_last_activity_at := Some now\<rparr>) (db_runs d)\<rparr>"

subsection \<open>Sweeps\<close>

text \<open>\<open>_fail_runs\<close>: select, then one conditional update per selected row.\<close>

definition fail_one :: "int \<Rightarrow> (run_row \<Rightarrow> bool) \<Rightarrow> string \<Rightarrow> run_row \<Rightarrow> db \<Rightarrow> db \<times> bool" where
  "fail_one now p reason row d =
     (let q = (\<lambda>r. rn_run_id r = rn_run_id row \<and> p r) in
      (d\<lparr>db_runs := update_where q
           (\<lambda>r. r\<lparr>rn_status := Failed, rn_completed_at := Some now,
                  rn_metadata := pmerge (por (rn_metadata row) (PDict []))
                                   (PDict [(''failureReason'', PStr reason)])\<rparr>) (db_runs d)\<rparr>,
       0 < row_count q (db_runs d)))"

fun fail_rows ::
    "int \<Rightarrow> (run_row \<Rightarrow> bool) \<Rightarrow> string \<Rightarrow> run_row list \<Rightarrow> db \<Rightarrow> db \<times> string list" where
  "fail_rows now p reason [] d = (d, [])"
| "fail_rows now p reason (row # rows) d =
     (let (d1, hit) = fail_one now p reason row d;
          (d', ids) = fail_rows now p reason rows d1
      in (d', if hit then rn_run_id row # ids else ids))"

definition fail_runs :: "int \<Rightarrow> (run_row \<Rightarrow> bool) \<Rightarrow> string \<Rightarrow> db \<Rightarrow> db \<times> string list" where
  "fail_runs now p reason d = fail_rows now p reason (filter p (db_runs d)) d"

definition fail_orphaned_runs :: "int \<Rightarrow> db \<Rightarrow> db \<times> string list" where
  "fail_orphaned_runs now =
     fail_runs now (\<lambda>r. rn_status r \<in> {Queued, Running, Cancelling}) ''orphaned_by_funduq_restart''"

text \<open>A comparison with a \<open>NULL\<close> column does not hold.\<close>

definition inactive_since :: "int \<Rightarrow> run_row \<Rightarrow> bool" where
  "inactive_since cutoff r = (case rn_last_activity_at r of None \<Rightarrow> False | Some t \<Rightarrow> t < cutoff)"

definition fail_stalled_runs :: "int \<Rightarrow> int \<Rightarrow> db \<Rightarrow> db \<times> string list" where
  "fail_stalled_runs now stall_timeout =
     fail_runs now (\<lambda>r. rn_status r \<in> {Running, Cancelling} \<and> inactive_since (now - stall_timeout) r)
       ''stalled_no_activity''"

definition fail_stale_paused_runs :: "int \<Rightarrow> int \<Rightarrow> db \<Rightarrow> db \<times> string list" where
  "fail_stale_paused_runs now timeout =
     fail_runs now (\<lambda>r. rn_status r = InputRequired \<and> inactive_since (now - timeout) r)
       ''paused_no_resume''"

subsection \<open>Events\<close>

definition append_run_event :: "int \<Rightarrow> string \<Rightarrow> int \<Rightarrow> pyval \<Rightarrow> db \<Rightarrow> db result" where
  "append_run_event now run_id seq event_json d =
     insert_event \<lparr>ev_id = next_event_id d, ev_run_id = run_id, ev_seq = seq, ev_event_json = event_json,
                   ev_created_at = now\<rparr> d"

definition get_run_events :: "db \<Rightarrow> string \<Rightarrow> int \<Rightarrow> pyval list" where
  "get_run_events d run_id since_seq =
     map ev_event_json
       (sort_key ev_seq (filter (\<lambda>r. ev_run_id r = run_id \<and> since_seq < ev_seq r) (db_events d)))"

definition get_last_event_seq :: "db \<Rightarrow> string \<Rightarrow> int" where
  "get_last_event_seq d run_id =
     (case map ev_seq (filter (\<lambda>r. ev_run_id r = run_id) (db_events d)) of
        [] \<Rightarrow> 0 | s # ss \<Rightarrow> foldl max s ss)"

end
