(* ===== verification/KyokDoor.thy ===== *)
theory KyokDoor
  imports Kyok Repo
begin

text \<open>
  \<open>funduq/protocols/kyok.py\<close>: the door through which a running agent asks for completions.  The
  method \<open>complete\<close> awaits the database between its look at the broker and its look at the relay, so
  the three are separate arguments and need not belong to one moment.  A stream drained to its end
  is the list of its chunks and how it ended.
\<close>

subsection \<open>Admission\<close>

text \<open>\<open>json.loads(body)\<close> on bytes: bytes that are not text raise \<open>UnicodeDecodeError\<close>.\<close>

datatype json_outcome = Parsed pyval | NotJson | NotText

definition verify_caller ::
    "('s, 'z) crypto_scheme \<Rightarrow> rat \<Rightarrow> db \<Rightarrow> kyok_token \<Rightarrow> string \<Rightarrow> string \<Rightarrow> string \<Rightarrow> string \<Rightarrow> unit result" where
  "verify_caller C now d token bearer body timestamp signature =
     (if timestamp = [] \<or> signature = [] then Inl (KyokRejected 401)
      else case int_of_string timestamp of
             None \<Rightarrow> Inl (KyokRejected 401)
           | Some t \<Rightarrow>
               if \<not> is_timestamp_fresh now t then Inl (KyokRejected 401)
               else case get_agent d (kt_agent token) of
                      None \<Rightarrow> Inl (KyokRejected 403)
                    | Some _ \<Rightarrow>
                        if verify_signature C (ar_provider_key (kt_agent token)) signature
                             (kyok_call_signing_payload bearer t (sha256_hex C body))
                        then Inr () else Inl (KyokRejected 401))"

text \<open>A completion on its way: the link it was handed to and what it was handed.\<close>

record completion_relay =
  cr_stream_requested :: bool
  cr_counted_key :: string
  cr_link :: llm_link
  cr_request :: completion_request

definition run_of_token :: "'h broker \<Rightarrow> kyok_token \<Rightarrow> unit result" where
  "run_of_token b token =
     (case get_run_snapshot b (kt_run_id token) of
        None \<Rightarrow> Inl (KyokRejected 403)
      | Some r \<Rightarrow> if rs_cancel_requested r \<or> rs_agent r \<noteq> kt_agent token then Inl (KyokRejected 403)
                  else Inr ())"

definition forward_completion :: "kyok_relay \<Rightarrow> kyok_token \<Rightarrow> pyval \<Rightarrow> completion_relay result" where
  "forward_completion k token payload =
     (case binding_for k (kt_run_id token) of
        None \<Rightarrow> Inl (KyokRejected 503)
      | Some binding \<Rightarrow>
          (case kyok_serving k (kb_llm_provider binding) of
             None \<Rightarrow> Inl (KyokRejected 503)
           | Some link \<Rightarrow>
               if \<not> is_dict payload then Inl AttributeError
               else Inr \<lparr>cr_stream_requested = truthy (pget payload ''stream''),
                         cr_counted_key = lf_provider_key (kb_llm_provider binding),
                         cr_link = link,
                         cr_request = \<lparr>cq_run_id = kt_run_id token, cq_agent = kt_agent token,
                           cq_body = payload, cq_llm_name = lf_name (kb_llm_provider binding),
                           cq_context = kb_context binding,
                           cq_actor_chain = kb_actor_chain binding\<rparr>\<rparr>))"

definition kyok_complete ::
    "('s, 'z) crypto_scheme \<Rightarrow> codec \<Rightarrow> (string \<Rightarrow> json_outcome) \<Rightarrow> string \<Rightarrow> rat \<Rightarrow> 'h broker \<Rightarrow> db \<Rightarrow> kyok_relay
       \<Rightarrow> string \<Rightarrow> string \<Rightarrow> string \<Rightarrow> string \<Rightarrow> completion_relay result" where
  "kyok_complete C K json secret now b d k bearer body timestamp signature =
     bindR (verify_kyok_token K now bearer secret) (\<lambda>verified.
       case verified of
         None \<Rightarrow> Inl (KyokRejected 401)
       | Some token \<Rightarrow>
           bindR (run_of_token b token) (\<lambda>_.
           bindR (verify_caller C now d token bearer body timestamp signature) (\<lambda>_.
             case json body of
               NotJson \<Rightarrow> Inl (KyokRejected 400)
             | NotText \<Rightarrow> Inl UnicodeDecodeError
             | Parsed payload \<Rightarrow> forward_completion k token payload)))"

subsection \<open>The way back\<close>

text \<open>How a stream ends: normally, or with an exception of which only \<open>getattr(e, "refusal", None)\<close>
  and \<open>str(e)\<close> are looked at.\<close>

datatype stream_end = StreamEnded | StreamRaised pyval string

definition refusal_of :: "pyval \<Rightarrow> pyval option" where
  "refusal_of refusal = (if is_dict refusal then Some refusal else None)"

definition counted :: "string \<Rightarrow> stream_end \<Rightarrow> kyok_relay \<Rightarrow> kyok_relay result" where
  "counted public_key ending k =
     note_outcome public_key
       (case ending of
          StreamEnded \<Rightarrow> ''completions''
        | StreamRaised refusal msg \<Rightarrow> if refusal_of refusal \<noteq> None then ''refused'' else ''failed'') k"

datatype 'c sse = SseChunk 'c | SseError pyval | SseDone

definition encode_stream :: "'c list \<times> stream_end \<Rightarrow> 'c sse list" where
  "encode_stream = (\<lambda>(chunks, ending). List.map SseChunk chunks @
     (case ending of
        StreamEnded \<Rightarrow> [SseDone]
      | StreamRaised refusal msg \<Rightarrow>
          [SseError (PDict [(''error'', case refusal_of refusal of
                               Some r \<Rightarrow> r | None \<Rightarrow> PDict [(''message'', PStr msg)])])]))"

record chunk_choice =
  cc_index :: int
  cc_content :: "string option"
  cc_finish_reason :: "string option"

record completion_chunk =
  ck_id :: string
  ck_created :: int
  ck_model :: string
  ck_choices :: "chunk_choice list"

record chat_completion =
  cm_id :: string
  cm_created :: int
  cm_model :: string
  cm_choices :: "(int \<times> string \<times> string) list"

definition opt_text :: "string option \<Rightarrow> string" where
  "opt_text s = (case s of None \<Rightarrow> [] | Some t \<Rightarrow> t)"

fun collect_choices ::
    "chunk_choice list \<Rightarrow> (int, string) dict \<times> (int, string) dict \<Rightarrow> (int, string) dict \<times> (int, string) dict" where
  "collect_choices [] acc = acc"
| "collect_choices (c # cs) (contents, finishes) =
     collect_choices cs
       (dset (cc_index c) (opt_text (dget contents (cc_index c)) @ opt_text (cc_content c)) contents,
        if opt_text (cc_finish_reason c) \<noteq> []
        then dset (cc_index c) (opt_text (cc_finish_reason c)) finishes else finishes)"

definition collapse_stream :: "completion_chunk list \<Rightarrow> chat_completion" where
  "collapse_stream chunks =
     (case chunks of
        [] \<Rightarrow> \<lparr>cm_id = [], cm_created = 0, cm_model = [], cm_choices = [(0, [], ''stop'')]\<rparr>
      | first # _ \<Rightarrow>
          let (contents, finishes) = collect_choices (concat (map ck_choices chunks)) ([], [])
          in \<lparr>cm_id = ck_id first, cm_created = ck_created first, cm_model = ck_model first,
              cm_choices = map (\<lambda>(index, content). (index, content,
                  case dget finishes index of None \<Rightarrow> ''stop'' | Some f \<Rightarrow> f))
                (sort_key fst contents)\<rparr>)"

text \<open>\<open>collapsed\<close>: the completion, or the status and the refusal of the \<open>KyokRejected\<close> it raises.\<close>

definition collapsed :: "completion_chunk list \<times> stream_end \<Rightarrow> (int \<times> pyval option) + chat_completion" where
  "collapsed = (\<lambda>(chunks, ending).
     case ending of
       StreamEnded \<Rightarrow> Inr (collapse_stream chunks)
     | StreamRaised refusal msg \<Rightarrow> Inl (502, refusal_of refusal))"

end
