(* ===== verification/Handlers.thy ===== *)
theory Handlers
  imports Repo Events BrokerSteps
begin

text \<open>
  \<open>funduq/handlers.py\<close> and \<open>funduq/changes.py\<close>: what funduq does with each command of a run.  A
  \<open>world\<close> is the record, the broker and what subscribers and providers were told.  The handlers of one
  run are called one after another by its only task; a handler is one step here, and where an
  exception leaves it, what it had committed stays; AwaitWindows cuts \<open>_handle_finish\<close> where it commits.
\<close>

datatype change_event = RosterChanged | LlmRosterChanged | RunStatusChanged string status

record world =
  w_db :: db
  w_broker :: "unit broker"
  w_changes :: "change_event list"
  w_cancels :: "(connection \<times> string) list"

text \<open>The pinned AG-UI package: the event types it knows and its validator.\<close>

record agui_lib =
  al_known :: "string list"
  al_valid :: "pyval \<Rightarrow> bool"

definition upd_run :: "address \<Rightarrow> (run \<Rightarrow> run) \<Rightarrow> 'z world_scheme \<Rightarrow> 'z world_scheme" where
  "upd_run a f w = w\<lparr>w_broker := upd_obj a f (w_broker w)\<rparr>"

definition run_at :: "'z world_scheme \<Rightarrow> address \<Rightarrow> run" where
  "run_at w a = obj (w_broker w) a"

definition notify_change :: "change_event \<Rightarrow> 'z world_scheme \<Rightarrow> 'z world_scheme" where
  "notify_change e w = w\<lparr>w_changes := w_changes w @ [e]\<rparr>"

text \<open>\<open>Funduq.mark_run_status\<close>: subscribers hear of a transition only when it was applied.\<close>

definition mark_status ::
    "int \<Rightarrow> string \<Rightarrow> status \<Rightarrow> pyval \<Rightarrow> 'z world_scheme \<Rightarrow> 'z world_scheme \<times> bool result" where
  "mark_status now run_id s metadata w =
     (case mark_run_status now run_id s metadata (w_db w) of
        Inl e \<Rightarrow> (w, Inl e)
      | Inr (d, applied) \<Rightarrow>
          let w' = w\<lparr>w_db := d\<rparr> in
          (if applied then notify_change (RunStatusChanged run_id s) w' else w', Inr applied))"

definition broker_push :: "int \<Rightarrow> string \<Rightarrow> command \<Rightarrow> 'z world_scheme \<Rightarrow> bool \<times> 'z world_scheme" where
  "broker_push now run_id cmd w =
     (let (ok, b) = push now run_id cmd (w_broker w) in (ok, w\<lparr>w_broker := b\<rparr>))"

text \<open>\<open>run.seq += 1\<close>, and the event appended under that number.\<close>

definition next_seq :: "address \<Rightarrow> 'z world_scheme \<Rightarrow> 'z world_scheme" where
  "next_seq a = upd_run a (\<lambda>r. r\<lparr>r_seq := r_seq r + 1\<rparr>)"

definition store_event :: "int \<Rightarrow> address \<Rightarrow> pyval \<Rightarrow> 'z world_scheme \<Rightarrow> 'z world_scheme result" where
  "store_event now a event w =
     bindR (append_run_event now (r_run_id (run_at w a)) (r_seq (run_at w a)) event (w_db w))
       (\<lambda>d. Inr (w\<lparr>w_db := d\<rparr>))"

definition relay_out :: "address \<Rightarrow> pyval \<Rightarrow> 'z world_scheme \<Rightarrow> 'z world_scheme" where
  "relay_out a event w = w\<lparr>w_broker := put_out a (OutEvent event) (w_broker w)\<rparr>"

subsection \<open>The five handlers\<close>

definition handle_claim :: "int \<Rightarrow> address \<Rightarrow> 'z world_scheme \<Rightarrow> 'z world_scheme" where
  "handle_claim now a w = fst (mark_status now (r_run_id (run_at w a)) Running PNone w)"

definition note_event :: "pyval \<Rightarrow> run \<Rightarrow> run" where
  "note_event event r =
     (if event_type event = PStr ''RUN_FINISHED'' then
        let r1 = r\<lparr>r_saw_run_finished := True\<rparr> in
        (case interrupt_outcome_of event of
           None \<Rightarrow> r1
         | Some interrupts \<Rightarrow> r1\<lparr>r_pause_payload := Some (PDict [(''interrupts'', interrupts)])\<rparr>)
      else if event_type event = PStr ''RUN_ERROR'' then r\<lparr>r_saw_run_error := True\<rparr>
      else r)"

definition must_validate :: "agui_lib \<Rightarrow> pyval \<Rightarrow> bool" where
  "must_validate L event =
     (case (if is_dict event then event_type event else PNone) of
        PStr t \<Rightarrow> t \<in> set (al_known L) | _ \<Rightarrow> True)"

definition handle_relay :: "agui_lib \<Rightarrow> int \<Rightarrow> address \<Rightarrow> pyval \<Rightarrow> 'z world_scheme \<Rightarrow> 'z world_scheme" where
  "handle_relay L now a event w =
     (if must_validate L event \<and> \<not> al_valid L event
      then snd (broker_push now (r_run_id (run_at w a)) (Fail ''provider sent a malformed AG-UI event'')
                  (upd_run a (\<lambda>r. r\<lparr>r_in_queue := []\<rparr>) w))
      else if \<not> is_dict event then w
      else
        let w1 = next_seq a (upd_run a (note_event event) w) in
        (case store_event now a event w1 of
           Inl _ \<Rightarrow> w1
         | Inr w2 \<Rightarrow>
             relay_out a event
               (w2\<lparr>w_db := touch_run_activity now (r_run_id (run_at w2 a)) (w_db w2)\<rparr>)))"

text \<open>The status a finished stream settles on.\<close>

definition final_status :: "run \<Rightarrow> status \<times> pyval" where
  "final_status r =
     (case r_pause_payload r of
        Some payload \<Rightarrow> (InputRequired, payload)
      | None \<Rightarrow>
          if r_saw_run_finished r then (Completed, PNone)
          else if r_cancel_requested r then (Cancelled, PNone)
          else (Failed, PDict [(''failureReason'', PStr ''provider_stream_ended_without_finishing'')]))"

definition unfinished_error :: pyval where
  "unfinished_error = PDict
     [(''type'', PStr ''RUN_ERROR''), (''message'', PStr ''the agent's stream ended without finishing''),
      (''code'', PStr ''provider_stream_ended_without_finishing'')]"

text \<open>The events of this round become messages of the thread; \<open>fresh\<close> yields the new message ids.\<close>

definition store_reply ::
    "int \<Rightarrow> (nat \<Rightarrow> string) \<Rightarrow> run \<Rightarrow> db \<Rightarrow> db result" where
  "store_reply now fresh r d =
     bindR (reduce_events_to_messages (get_run_events d (r_run_id r) (r_round_starting_seq r))) (\<lambda>ms.
       if ms = [] then Inr d
       else bindR (append_thread_messages now (r_thread_id r) (r_run_id r)
                     (zip ms (map fresh [0..<length ms])) d) (\<lambda>(d', stored). Inr d'))"

definition handle_finish :: "int \<Rightarrow> (nat \<Rightarrow> string) \<Rightarrow> address \<Rightarrow> 'z world_scheme \<Rightarrow> 'z world_scheme" where
  "handle_finish now fresh a w =
     (let r = run_at w a;
          (s, metadata) = final_status r;
          failed = (s = Failed \<and> \<not> r_saw_run_error r)
      in case mark_status now (r_run_id r) s metadata w of
           (w1, Inl _) \<Rightarrow> w1
         | (w1, Inr settled) \<Rightarrow>
             (case (if settled \<and> s \<in> {Completed, InputRequired} then store_reply now fresh r (w_db w1)
                    else Inr (w_db w1)) of
                Inl _ \<Rightarrow> w1
              | Inr d \<Rightarrow>
                  let w2 = w1\<lparr>w_db := d\<rparr> in
                  if \<not> failed then w2
                  else (case store_event now a unfinished_error (next_seq a w2) of
                          Inl _ \<Rightarrow> next_seq a w1
                        | Inr w3 \<Rightarrow> relay_out a unfinished_error w3)))"

definition handle_cancel :: "int \<Rightarrow> address \<Rightarrow> 'z world_scheme \<Rightarrow> 'z world_scheme" where
  "handle_cancel now a w =
     (let r = run_at w a in
      if r_claimed_by r = None then fst (mark_status now (r_run_id r) Cancelled PNone w)
      else (case mark_status now (r_run_id r) Cancelling PNone w of
              (w1, Inl _) \<Rightarrow> w1
            | (w1, Inr _) \<Rightarrow>
                (case r_cancel_notify r of
                   None \<Rightarrow> w1
                 | Some provider \<Rightarrow> w1\<lparr>w_cancels := w_cancels w1 @ [(provider, r_run_id r)]\<rparr>)))"

definition fail_event :: "string \<Rightarrow> pyval" where
  "fail_event reason = PDict [(''type'', PStr ''RUN_ERROR''), (''message'', PStr reason)]"

definition handle_fail :: "int \<Rightarrow> address \<Rightarrow> string \<Rightarrow> 'z world_scheme \<Rightarrow> 'z world_scheme" where
  "handle_fail now a reason w =
     (let w1 = next_seq a w in
      case store_event now a (fail_event reason) w1 of
        Inl _ \<Rightarrow> w1
      | Inr w2 \<Rightarrow>
          (case mark_status now (r_run_id (run_at w2 a)) Failed
                  (PDict [(''failureReason'', PStr reason)]) w2 of
             (w3, Inl _) \<Rightarrow> w3
           | (w3, Inr _) \<Rightarrow> relay_out a (fail_event reason) w3))"

text \<open>\<open>make_handlers\<close>: the handler of each command.\<close>

fun handle ::
    "agui_lib \<Rightarrow> int \<Rightarrow> (nat \<Rightarrow> string) \<Rightarrow> address \<Rightarrow> command \<Rightarrow> 'z world_scheme \<Rightarrow> 'z world_scheme" where
  "handle L now fresh a Claim w = handle_claim now a w"
| "handle L now fresh a (RelayEvent event) w = handle_relay L now a event w"
| "handle L now fresh a FinishStream w = handle_finish now fresh a w"
| "handle L now fresh a RequestCancel w = handle_cancel now a w"
| "handle L now fresh a (Fail reason) w = handle_fail now a reason w"

subsection \<open>The tasks\<close>

text \<open>One turn of \<open>_pipeline\<close>: the next command is taken off the queue and handled; at the end of the
  stream the task ends the run.\<close>

definition end_task :: "address \<Rightarrow> unit task \<Rightarrow> 'z world_scheme \<Rightarrow> 'z world_scheme" where
  "end_task a t w =
     w\<lparr>w_broker := end_run a ((w_broker w)\<lparr>b_tasks := remove1 t (b_tasks (w_broker w))\<rparr>)\<rparr>"

definition pipeline_turn ::
    "agui_lib \<Rightarrow> int \<Rightarrow> (nat \<Rightarrow> string) \<Rightarrow> address \<Rightarrow> 'z world_scheme \<Rightarrow> 'z world_scheme" where
  "pipeline_turn L now fresh a w =
     (case r_in_queue (run_at w a) of
        [] \<Rightarrow> w
      | cmd # cmds \<Rightarrow>
          let w1 = handle L now fresh a cmd (upd_run a (\<lambda>r. r\<lparr>r_in_queue := cmds\<rparr>) w)
          in if pipeline_stops (run_at w1 a) cmd then end_task a (PipelineTask a ()) w1 else w1)"

text \<open>\<open>_one_shot\<close>: the run may have been forgotten, and its handlers with it.\<close>

definition one_shot ::
    "agui_lib \<Rightarrow> int \<Rightarrow> (nat \<Rightarrow> string) \<Rightarrow> address \<Rightarrow> command \<Rightarrow> 'z world_scheme \<Rightarrow> 'z world_scheme" where
  "one_shot L now fresh a cmd w =
     (let w0 = w\<lparr>w_broker := (w_broker w)\<lparr>b_tasks := remove1 (OneShotTask a cmd) (b_tasks (w_broker w))\<rparr>\<rparr>;
          w1 = (case dget (b_handlers (w_broker w)) (r_run_id (run_at w a)) of
                  None \<Rightarrow> w0 | Some _ \<Rightarrow> handle L now fresh a cmd w0)
      in w1\<lparr>w_broker := end_run a (w_broker w1)\<rparr>)"

end
