(* ===== verification/Health.thy ===== *)
theory Health
  imports Handlers
begin

text \<open>
  \<open>funduq/health.py\<close>: the sweeps that fail runs nobody reports for any more, and the terminal event
  such a run is owed.  An exception that leaves \<open>sweep_once\<close> ends that sweep; the loop around it only
  waits and starts the next one.
\<close>

definition close_with_terminal_event ::
    "int \<Rightarrow> string \<Rightarrow> string \<Rightarrow> 'z world_scheme \<Rightarrow> 'z world_scheme result" where
  "close_with_terminal_event now run_id failure_reason w =
     (let (pushed, w1) = broker_push now run_id (Fail failure_reason) w in
      if pushed then Inr w1
      else if \<exists>e \<in> set (get_run_events (w_db w1) run_id 0). event_type e = PStr ''RUN_ERROR'' then Inr w1
      else bindR (append_run_event now run_id (get_last_event_seq (w_db w1) run_id + 1)
                    (fail_event failure_reason) (w_db w1))
             (\<lambda>d. Inr (w1\<lparr>w_db := d\<rparr>)))"

fun close_all :: "int \<Rightarrow> string \<Rightarrow> string list \<Rightarrow> 'z world_scheme \<Rightarrow> 'z world_scheme result" where
  "close_all now failure_reason [] w = Inr w"
| "close_all now failure_reason (i # is) w =
     bindR (close_with_terminal_event now i failure_reason w) (close_all now failure_reason is)"

definition sweep_once ::
    "int \<Rightarrow> int \<Rightarrow> int option \<Rightarrow> 'z world_scheme \<Rightarrow> ('z world_scheme \<times> string list \<times> string list) result" where
  "sweep_once now stall_timeout paused_timeout w =
     (let (d1, stalled) = fail_stalled_runs now stall_timeout (w_db w);
          (d2, stale_paused) = (case paused_timeout of
                                  None \<Rightarrow> (d1, [])
                                | Some t \<Rightarrow> fail_stale_paused_runs now t d1)
      in bindR (close_all now ''stalled_no_activity'' stalled (w\<lparr>w_db := d2\<rparr>)) (\<lambda>w1.
         bindR (close_all now ''paused_no_resume'' stale_paused w1) (\<lambda>w2.
           Inr (w2, stalled, stale_paused))))"

text \<open>\<open>Funduq.start\<close>, for the first call: what a former process left behind is failed and closed, then
  the broker starts.\<close>

definition start_dispatch :: "int \<Rightarrow> 'z world_scheme \<Rightarrow> ('z world_scheme \<times> string list) result" where
  "start_dispatch now w =
     (let (d, orphaned) = fail_orphaned_runs now (w_db w) in
      bindR (close_all now ''orphaned_by_funduq_restart'' orphaned (w\<lparr>w_db := d\<rparr>)) (\<lambda>w1.
        Inr (w1\<lparr>w_broker := start (w_broker w1)\<rparr>, orphaned)))"

end
