(* ===== verification/Core.thy ===== *)
theory Core
  imports KyokDoor Health
begin

text \<open>
  \<open>funduq/core.py\<close>, the rosters and the key handshake, with \<open>funduq/config.py\<close>.  \<open>core\<close> is the state
  of a \<open>Funduq\<close>: the world of the handlers, the KYOK relay, the challenges out and whether dispatch
  was started.  \<open>_Roster\<close>'s abstract methods are the fields of the record \<open>roster\<close>, and its two
  subclasses are two values of it.  Each method is one step; its database sessions are not interleaved
  with anything else here; AwaitWindows cuts \<open>attach\<close> between them.
\<close>

record settings =
  st_stale_hidden_window_seconds :: int
  st_run_stall_timeout_seconds :: int
  st_health_sweep_interval_seconds :: int
  st_paused_timeout_seconds :: "int option"
  st_thread_queue_limit :: "int option"
  st_provider_quality_tolerance :: "int option"
  st_token_signing_secret :: string
  st_identity_private_key :: "string option"

definition default_settings :: "string \<Rightarrow> settings" where
  "default_settings secret = \<lparr>st_stale_hidden_window_seconds = 60 * 60 * 24 * 7,
     st_run_stall_timeout_seconds = 120, st_health_sweep_interval_seconds = 15,
     st_paused_timeout_seconds = None, st_thread_queue_limit = Some 8,
     st_provider_quality_tolerance = Some 3, st_token_signing_secret = secret,
     st_identity_private_key = None\<rparr>"

text \<open>\<open>timedelta(seconds=n)\<close>\<close>

definition seconds :: "int \<Rightarrow> int" where
  "seconds n = n * 1000000"

text \<open>One reading of the two clocks: \<open>time.time()\<close> and \<open>datetime.now\<close>.\<close>

record clock =
  ck_time :: rat
  ck_now :: int

record core = world +
  c_relay :: kyok_relay
  c_challenges :: "(string, rat) dict"
  c_started :: bool
  c_sweeping :: bool

text \<open>\<open>Funduq.__init__\<close> over an existing database.\<close>

definition new_funduq ::
    "('k, 'z) crypto_scheme \<Rightarrow> settings \<Rightarrow> db \<Rightarrow> ('k identity option \<times> core) result" where
  "new_funduq C st d =
     bindR (case st_identity_private_key st of
              None \<Rightarrow> Inr None
            | Some k \<Rightarrow> if k = [] then Inr None else bindR (identity_from_hex C k) (\<lambda>i. Inr (Some i)))
       (\<lambda>idt. Inr (idt, \<lparr>w_db = d, w_broker = new_broker (st_provider_quality_tolerance st),
          w_changes = [], w_cancels = [], c_relay = new_kyok_relay, c_challenges = [],
          c_started = False, c_sweeping = False\<rparr>))"

text \<open>\<open>add_forget_listener(self.kyok_relay.discard)\<close>: the relay hears of every run the broker forgot
  in a step, in order.\<close>

fun discard_all :: "string list \<Rightarrow> kyok_relay \<Rightarrow> kyok_relay" where
  "discard_all [] k = k"
| "discard_all (i # is) k = discard_all is (discard i k)"

definition with_forget_listener :: "(core \<Rightarrow> core) \<Rightarrow> core \<Rightarrow> core" where
  "with_forget_listener step w =
     (let w' = step w in
      w'\<lparr>c_relay := discard_all (drop (length (b_forget_calls (w_broker w))) (b_forget_calls (w_broker w')))
                      (c_relay w')\<rparr>)"

definition core_pipeline_turn ::
    "agui_lib \<Rightarrow> int \<Rightarrow> (nat \<Rightarrow> string) \<Rightarrow> address \<Rightarrow> core \<Rightarrow> core" where
  "core_pipeline_turn L now fresh a = with_forget_listener (pipeline_turn L now fresh a)"

definition core_one_shot ::
    "agui_lib \<Rightarrow> int \<Rightarrow> (nat \<Rightarrow> string) \<Rightarrow> address \<Rightarrow> command \<Rightarrow> core \<Rightarrow> core" where
  "core_one_shot L now fresh a cmd = with_forget_listener (one_shot L now fresh a cmd)"

definition identity_public_key :: "'k identity option \<Rightarrow> string option" where
  "identity_public_key I = map_option id_public_key I"

definition funduq_sign :: "('k, 'z) crypto_scheme \<Rightarrow> 'k identity option \<Rightarrow> string \<Rightarrow> string result" where
  "funduq_sign C I payload =
     (case I of None \<Rightarrow> Inl RuntimeError | Some i \<Rightarrow> Inr (sign C i payload))"

subsection \<open>Challenges\<close>

text \<open>\<open>nonce\<close> is the freshly minted one.\<close>

definition issue_connect_challenge :: "rat \<Rightarrow> string \<Rightarrow> core \<Rightarrow> core" where
  "issue_connect_challenge now nonce w =
     w\<lparr>c_challenges := dset nonce now
         (filter (\<lambda>(n, issued). now - issued \<le> SIGNATURE_FRESHNESS_WINDOW_SECONDS) (c_challenges w))\<rparr>"

definition consume_connect_challenge :: "rat \<Rightarrow> string \<Rightarrow> core \<Rightarrow> bool \<times> core" where
  "consume_connect_challenge now nonce w =
     ((case dget (c_challenges w) nonce of
         None \<Rightarrow> False | Some issued \<Rightarrow> now - issued \<le> SIGNATURE_FRESHNESS_WINDOW_SECONDS),
      w\<lparr>c_challenges := dpop nonce (c_challenges w)\<rparr>)"

subsection \<open>The roster\<close>

record ('r, 'c) roster =
  ro_signing_payload :: "string list \<Rightarrow> int \<Rightarrow> string"
  ro_registered_names :: "db \<Rightarrow> string \<Rightarrow> string set"
  ro_touch :: "int \<Rightarrow> string \<Rightarrow> string list \<Rightarrow> db \<Rightarrow> db"
  ro_ref :: "string \<Rightarrow> string \<Rightarrow> 'r"
  ro_name :: "'r \<Rightarrow> string"
  ro_served_by :: "core \<Rightarrow> string \<Rightarrow> 'r list"
  ro_live :: "core \<Rightarrow> 'r \<Rightarrow> 'c option"
  ro_write_live :: "('r, 'c) dict \<Rightarrow> core \<Rightarrow> core"
  ro_withdraw :: "int \<Rightarrow> 'r list \<Rightarrow> core \<Rightarrow> core"
  ro_not_found :: funduq_error
  ro_changed :: change_event
  ro_public_key :: "'c \<Rightarrow> string"

definition agent_roster :: "(agent_ref, connection) roster" where
  "agent_roster =
     \<lparr>ro_signing_payload = registration_signing_payload,
      ro_registered_names = get_agent_names_for_provider,
      ro_touch = touch_agents,
      ro_ref = (\<lambda>key n. \<lparr>ar_provider_key = key, ar_name = n\<rparr>),
      ro_name = ar_name,
      ro_served_by = (\<lambda>w. agents_served_by (w_broker w)),
      ro_live = (\<lambda>w. serving (w_broker w)),
      ro_write_live = (\<lambda>m w. w\<lparr>w_broker := register_provider m (w_broker w)\<rparr>),
      ro_withdraw = (\<lambda>now rs w. w\<lparr>w_broker := unregister_provider now rs (w_broker w)\<rparr>),
      ro_not_found = AgentNotFound, ro_changed = RosterChanged, ro_public_key = c_public_key\<rparr>"

definition llm_roster :: "(llm_ref, llm_link) roster" where
  "llm_roster =
     \<lparr>ro_signing_payload = llm_registration_signing_payload,
      ro_registered_names = get_llm_names_for_key,
      ro_touch = touch_llm_providers,
      ro_ref = (\<lambda>key n. \<lparr>lf_provider_key = key, lf_name = n\<rparr>),
      ro_name = lf_name,
      ro_served_by = (\<lambda>w. kyok_served_by (c_relay w)),
      ro_live = (\<lambda>w. kyok_serving (c_relay w)),
      ro_write_live = (\<lambda>m w. w\<lparr>c_relay := kyok_attach m (c_relay w)\<rparr>),
      ro_withdraw = (\<lambda>now rs w. w\<lparr>c_relay := kyok_withdraw rs (c_relay w)\<rparr>),
      ro_not_found = LlmProviderNotFound, ro_changed = LlmRosterChanged, ro_public_key = lk_public_key\<rparr>"

text \<open>The names of a batch come from JSON; sorting and joining them raises on what is not a string.\<close>

fun names_of :: "pyval list \<Rightarrow> string list result" where
  "names_of [] = Inr []"
| "names_of (PStr s # vs) = bindR (names_of vs) (\<lambda>ss. Inr (s # ss))"
| "names_of (v # vs) = Inl TypeError"

definition roster_register ::
    "('k, 'z) crypto_scheme \<Rightarrow> clock \<Rightarrow> ('r, 'c) roster \<Rightarrow> string \<Rightarrow> string \<Rightarrow> int \<Rightarrow> pyval list
       \<Rightarrow> (db \<Rightarrow> (db \<times> (string, 'r) dict) result) \<Rightarrow> core \<Rightarrow> (core \<times> (string, 'r) dict) result" where
  "roster_register C ck R public_key signature timestamp names store w =
     (if \<not> is_timestamp_fresh (ck_time ck) timestamp then Inl InvalidRegistration
      else bindR (names_of names) (\<lambda>ns.
        if \<not> verify_signature C public_key signature (ro_signing_payload R ns timestamp)
        then Inl InvalidRegistration
        else bindR (store (w_db w)) (\<lambda>(d, registered).
          let w1 = w\<lparr>w_db := d\<rparr>;
              withdrawn = filter (\<lambda>r. ro_name R r \<notin> set (dkeys registered)) (ro_served_by R w1 public_key);
              w2 = (if withdrawn \<noteq> [] then ro_withdraw R (ck_now ck) withdrawn w1 else w1)
          in Inr (notify_change (ro_changed R) w2, registered))))"

text \<open>What a connection may offer beyond its public key.\<close>

record connect_face =
  cf_sign_connect :: "(string \<Rightarrow> string \<Rightarrow> string \<Rightarrow> string list \<Rightarrow> string result) option"
  cf_confirm_connect :: "(string \<Rightarrow> string \<Rightarrow> string option \<Rightarrow> unit result) option"

definition bare_face :: connect_face where
  "bare_face = \<lparr>cf_sign_connect = None, cf_confirm_connect = None\<rparr>"

text \<open>\<open>minted\<close> is the challenge and the nonce drawn when the connection signs for itself.\<close>

definition own_key :: "'k identity option \<Rightarrow> string" where
  "own_key I = (case identity_public_key I of None \<Rightarrow> [] | Some k \<Rightarrow> k)"

definition connect_proof ::
    "rat \<Rightarrow> 'k identity option \<Rightarrow> connect_face \<Rightarrow> string list \<Rightarrow> string \<times> string
       \<Rightarrow> string option \<times> string option \<times> string option \<Rightarrow> core
       \<Rightarrow> core \<times> (string option \<times> string option \<times> string option) result" where
  "connect_proof now I face names minted offered w =
     (case (offered, cf_sign_connect face) of
        ((_, _, None), Some signer) \<Rightarrow>
          (let (challenge, nonce) = minted in
           (issue_connect_challenge now challenge w,
            bindR (signer (own_key I) challenge nonce names)
              (\<lambda>proof. Inr (Some challenge, Some nonce, Some proof))))
      | _ \<Rightarrow> (w, Inr offered))"

definition roster_attach ::
    "('k, 'z) crypto_scheme \<Rightarrow> clock \<Rightarrow> 'k identity option \<Rightarrow> ('r, 'c) roster \<Rightarrow> connect_face \<Rightarrow> 'c
       \<Rightarrow> string list \<Rightarrow> string \<times> string \<Rightarrow> string option \<times> string option \<times> string option \<Rightarrow> core
       \<Rightarrow> core \<times> string option result" where
  "roster_attach C ck I R face connection names minted offered w =
     (if names = [] then (w, Inl ValueError)
      else
        case connect_proof (ck_time ck) I face names minted offered w of
          (w1, Inl e) \<Rightarrow> (w1, Inl e)
        | (w1, Inr (Some challenge, provider_nonce, Some proof)) \<Rightarrow>
            (let key = ro_public_key R connection;
                 nonce = opt_text provider_nonce;
                 (live, w2) = consume_connect_challenge (ck_time ck) challenge w1;
                 answer = map_option (\<lambda>i. sign C i (funduq_connect_signing_payload challenge nonce)) I
             in if \<not> live then (w2, Inl InvalidRegistration)
                else if \<not> verify_signature C key proof
                          (provider_connect_signing_payload (own_key I) challenge nonce names)
                then (w2, Inl InvalidRegistration)
                else if \<not> set names \<subseteq> ro_registered_names R (w_db w2) key
                then (w2, Inl (ro_not_found R))
                else (case (case cf_confirm_connect face of
                              None \<Rightarrow> Inr () | Some confirm \<Rightarrow> confirm challenge nonce answer) of
                        Inl e \<Rightarrow> (w2, Inl e)
                      | Inr _ \<Rightarrow>
                          let w3 = ro_write_live R
                                     (dupdate [] (map (\<lambda>n. (ro_ref R key n, connection)) names)) w2;
                              w4 = w3\<lparr>w_db := ro_touch R (ck_now ck) key names (w_db w3)\<rparr>
                          in (notify_change (ro_changed R) w4, Inr answer)))
        | (w1, Inr _) \<Rightarrow> (w1, Inl InvalidRegistration))"

definition roster_detach ::
    "int \<Rightarrow> ('r, 'c) roster \<Rightarrow> string \<Rightarrow> 'c \<Rightarrow> core \<Rightarrow> core" where
  "roster_detach now R public_key connection w =
     (let attached = filter (\<lambda>r. ro_live R w r = Some connection) (ro_served_by R w public_key)
      in if attached = [] then w
         else notify_change (ro_changed R) (ro_withdraw R now attached w))"

definition roster_detach_all :: "int \<Rightarrow> ('r, 'c) roster \<Rightarrow> string \<Rightarrow> core \<Rightarrow> core" where
  "roster_detach_all now R public_key w =
     (let attached = ro_served_by R w public_key
      in if attached = [] then w
         else notify_change (ro_changed R) (ro_withdraw R now attached w))"

end
