(* ===== verification/CoreRuns.thy ===== *)
theory CoreRuns
  imports Core
begin

text \<open>
  \<open>funduq/core.py\<close>, the rest of the facade: registering, attaching and deleting agents and offerings,
  what a provider reports, start and health, threads and runs; with the run input that
  \<open>funduq/agui.py\<close> builds.  \<open>validate\<close> is the AG-UI package's \<open>RunAgentInput\<close>: validated and dumped
  again, \<open>None\<close> where it raises.  New ids are arguments.
\<close>

subsection \<open>Agents and offerings\<close>

fun traverseR :: "('a \<Rightarrow> 'b result) \<Rightarrow> 'a list \<Rightarrow> 'b list result" where
  "traverseR f [] = Inr []"
| "traverseR f (x # xs) = bindR (f x) (\<lambda>y. bindR (traverseR f xs) (\<lambda>ys. Inr (y # ys)))"

definition core_register_agents ::
    "('k, 'z) crypto_scheme \<Rightarrow> clock \<Rightarrow> string \<Rightarrow> string \<Rightarrow> int \<Rightarrow> pyval list \<Rightarrow> string option \<Rightarrow> core
       \<Rightarrow> (core \<times> (string, agent_ref) dict) result" where
  "core_register_agents C ck public_key signature timestamp agents provider_name w =
     bindR (traverseR (\<lambda>a. pindex a ''name'') agents) (\<lambda>names.
       roster_register C ck agent_roster public_key signature timestamp names
         (register_agents C (ck_now ck) public_key agents provider_name) w)"

definition core_register_llm_providers ::
    "('k, 'z) crypto_scheme \<Rightarrow> clock \<Rightarrow> string \<Rightarrow> string \<Rightarrow> int \<Rightarrow> string list \<Rightarrow> pyval \<Rightarrow> core
       \<Rightarrow> (core \<times> (string, llm_ref) dict) result" where
  "core_register_llm_providers C ck public_key signature timestamp names metadata w =
     roster_register C ck llm_roster public_key signature timestamp (map PStr names)
       (register_llm_providers C (ck_now ck) public_key names metadata) w"

definition attach_provider ::
    "('k, 'z) crypto_scheme \<Rightarrow> clock \<Rightarrow> 'k identity option \<Rightarrow> connect_face \<Rightarrow> connection \<Rightarrow> string list
       \<Rightarrow> string \<times> string \<Rightarrow> string option \<times> string option \<times> string option \<Rightarrow> core
       \<Rightarrow> core \<times> string option result" where
  "attach_provider C ck I = roster_attach C ck I agent_roster"

definition attach_llm_provider ::
    "('k, 'z) crypto_scheme \<Rightarrow> clock \<Rightarrow> 'k identity option \<Rightarrow> connect_face \<Rightarrow> llm_link \<Rightarrow> string list
       \<Rightarrow> string \<times> string \<Rightarrow> string option \<times> string option \<times> string option \<Rightarrow> core
       \<Rightarrow> core \<times> string option result" where
  "attach_llm_provider C ck I = roster_attach C ck I llm_roster"

definition detach_provider :: "int \<Rightarrow> string \<Rightarrow> connection \<Rightarrow> core \<Rightarrow> core" where
  "detach_provider now = roster_detach now agent_roster"

definition detach_llm_provider :: "int \<Rightarrow> string \<Rightarrow> llm_link \<Rightarrow> core \<Rightarrow> core" where
  "detach_llm_provider now = roster_detach now llm_roster"

definition detach_all_for :: "int \<Rightarrow> string \<Rightarrow> core \<Rightarrow> core" where
  "detach_all_for now public_key w =
     roster_detach_all now llm_roster public_key (roster_detach_all now agent_roster public_key w)"

definition core_delete_agent ::
    "('k, 'z) crypto_scheme \<Rightarrow> rat \<Rightarrow> string \<Rightarrow> string \<Rightarrow> string \<Rightarrow> int \<Rightarrow> core \<Rightarrow> core result" where
  "core_delete_agent C now public_key name signature timestamp w =
     (let agent = \<lparr>ar_provider_key = public_key, ar_name = name\<rparr> in
      if \<not> is_timestamp_fresh now timestamp then Inl InvalidRegistration
      else if \<not> verify_signature C public_key signature (agent_deletion_signing_payload name timestamp)
      then Inl InvalidRegistration
      else if get_agent (w_db w) agent = None then Inl AgentNotFound
      else if serving (w_broker w) agent \<noteq> None then Inl (AgentInUse ''connected'')
      else if count_runs_for_agent (w_db w) agent (Some ACTIVE_RUN_STATUSES) \<noteq> 0
      then Inl (AgentInUse ''active_run'')
      else if count_threads_for_agent (w_db w) agent \<noteq> 0 \<or> count_runs_for_agent (w_db w) agent None \<noteq> 0
      then Inl (AgentInUse ''has_history'')
      else bindR (delete_agent agent (w_db w)) (\<lambda>(d, _).
             Inr (notify_change RosterChanged (w\<lparr>w_db := d\<rparr>))))"

definition core_delete_llm_offering ::
    "('k, 'z) crypto_scheme \<Rightarrow> rat \<Rightarrow> string \<Rightarrow> string \<Rightarrow> string \<Rightarrow> int \<Rightarrow> core \<Rightarrow> core result" where
  "core_delete_llm_offering C now public_key name signature timestamp w =
     (let ref = \<lparr>lf_provider_key = public_key, lf_name = name\<rparr> in
      if \<not> is_timestamp_fresh now timestamp then Inl InvalidRegistration
      else if \<not> verify_signature C public_key signature (llm_deletion_signing_payload name timestamp)
      then Inl InvalidRegistration
      else if get_llm_provider (w_db w) ref = None then Inl LlmProviderNotFound
      else if kyok_serving (c_relay w) ref \<noteq> None then Inl (LlmOfferingInUse ''connected'')
      else if bound_runs (c_relay w) ref \<noteq> 0 then Inl (LlmOfferingInUse ''active_run'')
      else Inr (notify_change LlmRosterChanged (w\<lparr>w_db := fst (delete_llm_provider ref (w_db w))\<rparr>)))"

definition is_serving :: "core \<Rightarrow> agent_ref \<Rightarrow> bool" where
  "is_serving w agent = (serving (w_broker w) agent \<noteq> None)"

definition is_serving_llm :: "core \<Rightarrow> llm_ref \<Rightarrow> bool" where
  "is_serving_llm w ref = (kyok_serving (c_relay w) ref \<noteq> None)"

text \<open>The summaries, each with its \<open>online\<close> field.\<close>

definition core_list_agents :: "settings \<Rightarrow> int \<Rightarrow> core \<Rightarrow> (agent_summary \<times> bool) list" where
  "core_list_agents st now w =
     map (\<lambda>s. (s, is_serving w \<lparr>ar_provider_key = as_provider_key s, ar_name = as_name s\<rparr>))
       (list_agents (w_db w) now (seconds (st_stale_hidden_window_seconds st)))"

definition core_list_llm_providers :: "settings \<Rightarrow> int \<Rightarrow> core \<Rightarrow> (llm_summary \<times> bool) list" where
  "core_list_llm_providers st now w =
     map (\<lambda>s. (s, is_serving_llm w \<lparr>lf_provider_key = ls_provider_key s, lf_name = ls_name s\<rparr>))
       (list_llm_providers (w_db w) now (seconds (st_stale_hidden_window_seconds st)))"

subsection \<open>What a provider reports\<close>

definition with_broker :: "('b \<times> unit broker) \<Rightarrow> 'z world_scheme \<Rightarrow> 'b \<times> 'z world_scheme" where
  "with_broker p w = (fst p, w\<lparr>w_broker := snd p\<rparr>)"

definition report_event :: "int \<Rightarrow> string \<Rightarrow> pyval \<Rightarrow> string \<Rightarrow> 'z world_scheme \<Rightarrow> bool \<times> 'z world_scheme" where
  "report_event now run_id event claimed_by w =
     (case get_run_snapshot (w_broker w) run_id of
        None \<Rightarrow> (False, w)
      | Some run \<Rightarrow>
          (case rs_claimed_by run of
             None \<Rightarrow>
               let (ok, w1) = with_broker (accept_late_ack now run_id claimed_by (w_broker w)) w
               in if \<not> ok then (False, w1) else broker_push now run_id (RelayEvent event) w1
           | Some holder \<Rightarrow>
               if holder \<noteq> claimed_by then (False, w)
               else broker_push now run_id (RelayEvent event) w))"

definition finish_run :: "int \<Rightarrow> string \<Rightarrow> string \<Rightarrow> 'z world_scheme \<Rightarrow> bool \<times> 'z world_scheme" where
  "finish_run now run_id claimed_by w =
     (case get_run_snapshot (w_broker w) run_id of
        None \<Rightarrow> (False, w)
      | Some run \<Rightarrow>
          if rs_claimed_by run \<noteq> Some claimed_by then (False, w)
          else broker_push now run_id FinishStream w)"

subsection \<open>Start, stop and health\<close>

definition core_start :: "int \<Rightarrow> core \<Rightarrow> core \<times> string list result" where
  "core_start now w =
     (if c_started w then (w, Inr [])
      else let w0 = w\<lparr>c_started := True\<rparr> in
           (case start_dispatch now w0 of
              Inl e \<Rightarrow> (w0, Inl e)
            | Inr (w1, orphaned) \<Rightarrow> (w1\<lparr>c_sweeping := True\<rparr>, Inr orphaned)))"

definition core_aclose :: "core \<Rightarrow> core" where
  "core_aclose w = w\<lparr>w_broker := stop (w_broker w), c_started := False, c_sweeping := False\<rparr>"

record health =
  hl_database :: bool
  hl_schema_revision :: "string option"
  hl_expected_schema_revision :: string
  hl_background_running :: bool
  hl_dispatching :: bool
  hl_database_error :: "string option"

definition schema_current :: "health \<Rightarrow> bool" where
  "schema_current h = (hl_schema_revision h = Some (hl_expected_schema_revision h))"

definition ready :: "health \<Rightarrow> bool" where
  "ready h = (hl_database h \<and> schema_current h \<and> hl_dispatching h)"

text \<open>The probe of the database: the revision it read, or the name of the exception.\<close>

definition core_health :: "string \<Rightarrow> string + string option \<Rightarrow> core \<Rightarrow> health" where
  "core_health expected probe w =
     \<lparr>hl_database = (case probe of Inl _ \<Rightarrow> False | Inr _ \<Rightarrow> True),
      hl_schema_revision = (case probe of Inl _ \<Rightarrow> None | Inr r \<Rightarrow> r),
      hl_expected_schema_revision = expected, hl_background_running = c_sweeping w,
      hl_dispatching = b_is_running (w_broker w),
      hl_database_error = (case probe of Inl e \<Rightarrow> Some e | Inr _ \<Rightarrow> None)\<rparr>"

subsection \<open>The run input\<close>

text \<open>\<open>for m in x\<close>\<close>

fun py_iter :: "pyval \<Rightarrow> pyval list result" where
  "py_iter (PList vs) = Inr vs"
| "py_iter (PStr cs) = Inr (map (\<lambda>c. PStr [c]) cs)"
| "py_iter (PDict kvs) = Inr (map (\<lambda>x. PStr (fst x)) kvs)"
| "py_iter v = Inl TypeError"

fun with_message_id :: "string \<Rightarrow> pyval \<Rightarrow> pyval result" where
  "with_message_id fresh (PDict m) =
     Inr (if truthy (pget (PDict m) ''id'') then PDict m else pset ''id'' (PStr fresh) (PDict m))"
| "with_message_id fresh _ = Inl AttributeError"

definition build_run_agent_input ::
    "(pyval \<Rightarrow> pyval option) \<Rightarrow> string \<Rightarrow> string \<Rightarrow> pyval \<Rightarrow> pyval \<Rightarrow> pyval \<Rightarrow> pyval \<Rightarrow> pyval \<Rightarrow> pyval \<Rightarrow> pyval
       \<Rightarrow> pyval result" where
  "build_run_agent_input validate thread_id run_id messages state tools context forwarded_props resume
       parent_run_id =
     (case validate (PDict
        [(''threadId'', PStr thread_id), (''runId'', PStr run_id), (''state'', state),
         (''messages'', messages), (''tools'', por tools (PList [])), (''context'', por context (PList [])),
         (''forwardedProps'', forwarded_props), (''resume'', resume), (''parentRunId'', parent_run_id)]) of
        None \<Rightarrow> Inl ValueError | Some dumped \<Rightarrow> Inr dumped)"

definition complete_run_agent_input ::
    "(pyval \<Rightarrow> pyval option) \<Rightarrow> (nat \<Rightarrow> string) \<Rightarrow> string \<Rightarrow> string \<Rightarrow> pyval \<Rightarrow> pyval result" where
  "complete_run_agent_input validate fresh thread_id run_id run_input =
     bindR (py_iter (pget_or run_input ''messages'' (PList []))) (\<lambda>ms.
     bindR (traverseR (\<lambda>(i, m). with_message_id (fresh i) m) (zip [0..<length ms] ms)) (\<lambda>messages.
       build_run_agent_input validate thread_id run_id (PList messages) (pget run_input ''state'')
         (pget run_input ''tools'') (pget run_input ''context'') (pget run_input ''forwardedProps'')
         (pget run_input ''resume'') PNone))"

subsection \<open>Threads and runs\<close>

text \<open>\<open>Funduq.enqueue_run\<close>: every run gets the handlers.\<close>

definition core_enqueue_run ::
    "int \<Rightarrow> string \<Rightarrow> agent_ref \<Rightarrow> string \<Rightarrow> pyval \<Rightarrow> string \<Rightarrow> int \<Rightarrow> 'z world_scheme
       \<Rightarrow> (address \<times> 'z world_scheme) result" where
  "core_enqueue_run now run_id agent thread_id input_json protocol seq w =
     bindR (enqueue_run now run_id agent thread_id input_json protocol (Some ()) seq (w_broker w))
       (\<lambda>(a, b). Inr (a, w\<lparr>w_broker := b\<rparr>))"

definition core_create_thread ::
    "int \<Rightarrow> string \<Rightarrow> agent_ref \<Rightarrow> string option \<Rightarrow> pyval \<Rightarrow> 'z world_scheme \<Rightarrow> ('z world_scheme \<times> string) result" where
  "core_create_thread now fresh agent parent_thread_id metadata w =
     bindR (create_thread now fresh agent parent_thread_id metadata None (w_db w))
       (\<lambda>(d, tid). Inr (w\<lparr>w_db := d\<rparr>, tid))"

record run_handle =
  rh_run_id :: string
  rh_thread_id :: string
  rh_subscribed :: address

record minted_ids =
  mi_thread :: string
  mi_run :: string
  mi_message :: "nat \<Rightarrow> string"

text \<open>What follows the commit of a run: its input is completed, then it is queued.\<close>

definition launch_run ::
    "(pyval \<Rightarrow> pyval option) \<Rightarrow> int \<Rightarrow> (nat \<Rightarrow> string) \<Rightarrow> string \<Rightarrow> agent_ref \<Rightarrow> string \<Rightarrow> pyval \<Rightarrow> string
       \<Rightarrow> int \<Rightarrow> 'z world_scheme \<Rightarrow> 'z world_scheme \<times> run_handle result" where
  "launch_run validate now fresh run_id agent thread_id run_input protocol seq w =
     (case bindR (complete_run_agent_input validate fresh thread_id run_id run_input) (\<lambda>input.
             core_enqueue_run now run_id agent thread_id input protocol seq w) of
        Inl e \<Rightarrow> (w, Inl e)
      | Inr (a, w') \<Rightarrow>
          (w', Inr \<lparr>rh_run_id = run_id, rh_thread_id = thread_id, rh_subscribed = a\<rparr>))"

definition start_run ::
    "(pyval \<Rightarrow> pyval option) \<Rightarrow> settings \<Rightarrow> int \<Rightarrow> minted_ids \<Rightarrow> agent_ref \<Rightarrow> pyval \<Rightarrow> string option \<Rightarrow> pyval
       \<Rightarrow> 'z world_scheme \<Rightarrow> 'z world_scheme \<times> run_handle result" where
  "start_run validate st now ids agent run_input thread_id metadata w =
     (case bindR (ensure_thread now (mi_thread ids) agent thread_id None metadata True None (w_db w)) (\<lambda>(d, tid).
           bindR (ensure_queue_room d tid (st_thread_queue_limit st)) (\<lambda>_.
           bindR (create_run now (mi_run ids) tid agent ''ag-ui'' run_input metadata None d) (\<lambda>(d', rid).
             Inr (d', tid, rid)))) of
        Inl e \<Rightarrow> (w, Inl e)
      | Inr (d', tid, rid) \<Rightarrow>
          launch_run validate now (mi_message ids) rid agent tid run_input ''ag-ui'' 0 (w\<lparr>w_db := d'\<rparr>))"

definition resume_run ::
    "(pyval \<Rightarrow> pyval option) \<Rightarrow> int \<Rightarrow> (nat \<Rightarrow> string) \<Rightarrow> string \<Rightarrow> pyval \<Rightarrow> pyval \<Rightarrow> 'z world_scheme
       \<Rightarrow> 'z world_scheme \<times> run_handle result" where
  "resume_run validate now fresh run_id run_input metadata w =
     (case get_run (w_db w) run_id of
        None \<Rightarrow> (w, Inl LookupError)
      | Some stored \<Rightarrow>
          let d = fst (reopen_run now run_id run_input metadata None (w_db w)) in
          launch_run validate now fresh run_id (run_agent stored) (rn_thread_id stored) run_input
            (if rn_protocol stored = [] then ''ag-ui'' else rn_protocol stored)
            (get_last_event_seq d run_id) (w\<lparr>w_db := d\<rparr>))"

definition cancel_run :: "string \<Rightarrow> 'z world_scheme \<Rightarrow> bool \<times> 'z world_scheme" where
  "cancel_run run_id w = with_broker (request_cancel run_id (w_broker w)) w"

text \<open>\<open>get_thread_tree\<close>: the recursion goes down the stored parent links, whatever they are.\<close>

datatype thread_tree = ThreadTree thread_row "thread_tree list"

partial_function (option) build_tree :: "db \<Rightarrow> thread_row list \<Rightarrow> thread_tree list option" where
  "build_tree d rows =
     (case rows of
        [] \<Rightarrow> Some []
      | r # rs \<Rightarrow>
          Option.bind (build_tree d (get_thread_children d (th_thread_id r))) (\<lambda>children.
          Option.bind (build_tree d rs) (\<lambda>siblings.
            Some (ThreadTree r children # siblings))))"

text \<open>\<open>None\<close> where the recursion would not end; \<open>Some None\<close> for an unknown thread.\<close>

definition get_thread_tree :: "db \<Rightarrow> string \<Rightarrow> thread_tree option option" where
  "get_thread_tree d thread_id =
     (case get_thread d thread_id of
        None \<Rightarrow> Some None
      | Some r \<Rightarrow>
          Option.bind (build_tree d (get_thread_children d thread_id))
            (\<lambda>children. Some (Some (ThreadTree r children))))"

end
