(* ===== verification/RosterLaws.thy ===== *)
theory RosterLaws
  imports CoreRuns BrokerMoves
begin

text \<open>
  The contract of \<open>_Roster\<close>: what a host of served names must provide, the facts about registering,
  attaching and detaching that follow from it, and the two hosts.  \<open>key_of\<close> is \<open>ref.provider_key\<close>.
\<close>

text \<open>Where the proof of a successful attach came from.\<close>

definition proof_presented ::
    "rat \<Rightarrow> 'k identity option \<Rightarrow> connect_face \<Rightarrow> string list \<Rightarrow> string \<times> string
       \<Rightarrow> string option \<times> string option \<times> string option \<Rightarrow> core \<Rightarrow> string \<Rightarrow> string \<Rightarrow> string \<Rightarrow> bool" where
  "proof_presented now I face names minted offer w c nonce p \<longleftrightarrow>
     (\<exists>n. offer = (Some c, n, Some p) \<and> nonce = opt_text n \<and>
        (\<exists>t. dget (c_challenges w) c = Some t \<and> now - t \<le> SIGNATURE_FRESHNESS_WINDOW_SECONDS))
     \<or> (\<exists>signer. snd (snd offer) = None \<and> cf_sign_connect face = Some signer \<and> minted = (c, nonce) \<and>
          signer (own_key I) c nonce names = Inr p)"

lemma connect_proof_presented:
  assumes "connect_proof now I face names minted offer w = (w1, Inr (Some c, n, Some p))"
    "fst (consume_connect_challenge now c w1)"
  shows "proof_presented now I face names minted offer w c (opt_text n) p"
    "\<exists>ch. w1 = w\<lparr>c_challenges := ch\<rparr>"
proof -
  obtain oc on op where o: "offer = (oc, on, op)" by (cases offer)
  obtain mc mn where m: "minted = (mc, mn)" by (cases minted)
  have same: "\<exists>ch. v = v\<lparr>c_challenges := ch\<rparr>" for v :: core
    by (rule exI [of _ "c_challenges v"]) simp
  show "proof_presented now I face names minted offer w c (opt_text n) p"
    using assms
    by (cases op; cases "cf_sign_connect face")
      (auto simp: o m connect_proof_def proof_presented_def consume_connect_challenge_def
        issue_connect_challenge_def opt_text_def split: option.splits)
  show "\<exists>ch. w1 = w\<lparr>c_challenges := ch\<rparr>"
    using assms same
    by (cases op; cases "cf_sign_connect face")
      (auto simp: o m connect_proof_def issue_connect_challenge_def)
qed

locale roster_host =
  fixes R :: "('r, 'c) roster"
    and key_of :: "'r \<Rightarrow> string"
  assumes host_live_write: "dict_ok m \<Longrightarrow>
      ro_live R (ro_write_live R m w) r = (case dget m r of None \<Rightarrow> ro_live R w r | Some c \<Rightarrow> Some c)"
    and host_live_withdraw: "ro_live R (ro_withdraw R now rs w) r = (if r \<in> set rs then None else ro_live R w r)"
    and host_served: "set (ro_served_by R w k) = {r. key_of r = k \<and> ro_live R w r \<noteq> None}"
    and ref_of_parts [simp]: "key_of (ro_ref R k n) = k" "ro_name R (ro_ref R k n) = n"
    and parts_of_ref: "ro_ref R (key_of r) (ro_name R r) = r"
    and live_frame [simp]: "ro_live R (w\<lparr>w_db := d\<rparr>) = ro_live R w"
      "ro_live R (w\<lparr>c_challenges := ch\<rparr>) = ro_live R w" "ro_live R (notify_change e w) = ro_live R w"
    and host_frame [simp]: "c_challenges (ro_write_live R m w) = c_challenges w"
      "c_challenges (ro_withdraw R now rs w) = c_challenges w"
      "w_db (ro_write_live R m w) = w_db w" "w_db (ro_withdraw R now rs w) = w_db w"
begin

lemma served_set: "set (ro_served_by R w k) = {r. key_of r = k \<and> ro_live R w r \<noteq> None}"
  by (rule host_served)

text \<open>The mapping \<open>{ref(key, n): connection for n in names}\<close>.\<close>

lemma mapping_ok: "dict_ok (dupdate [] kvs)"
  by simp

lemma mapping_get:
  "dget (dupdate [] (map (\<lambda>n. (ro_ref R key n, connection)) names)) r =
     (if key_of r = key \<and> ro_name R r \<in> set names then Some connection else None)"
proof -
  have *: "dget (map (\<lambda>n. (ro_ref R key n, connection)) ns) r =
      (if key_of r = key \<and> ro_name R r \<in> set ns then Some connection else None)" for ns
  proof (induction ns)
    case (Cons n ns)
    have "r = ro_ref R key n \<longleftrightarrow> key_of r = key \<and> ro_name R r = n"
      using parts_of_ref [of r] by (metis ref_of_parts)
    with Cons show ?case by (simp add: eq_commute) blast
  qed simp
  show ?thesis
    using * [of "rev names"] by (simp add: dget_dupdate rev_map)
qed

text \<open>A registration withdraws exactly the key's served names outside the batch.\<close>

lemma register_effect:
  assumes "roster_register C ck R key sig ts names store w = Inr (w', registered)"
  obtains ns d where "names_of names = Inr ns" "is_timestamp_fresh (ck_time ck) ts"
    "verify_signature C key sig (ro_signing_payload R ns ts)" "store (w_db w) = Inr (d, registered)"
    "w_db w' = d" "c_challenges w' = c_challenges w"
    "\<And>r. ro_live R w' r = (if key_of r = key \<and> ro_name R r \<notin> set (dkeys registered) then None
                          else ro_live R w r)"
proof -
  from assms obtain ns d where 1: "is_timestamp_fresh (ck_time ck) ts" "names_of names = Inr ns"
      "verify_signature C key sig (ro_signing_payload R ns ts)" "store (w_db w) = Inr (d, registered)"
    and w': "w' = notify_change (ro_changed R)
      (let out = filter (\<lambda>r. ro_name R r \<notin> set (dkeys registered)) (ro_served_by R (w\<lparr>w_db := d\<rparr>) key)
       in if out \<noteq> [] then ro_withdraw R (ck_now ck) out (w\<lparr>w_db := d\<rparr>) else w\<lparr>w_db := d\<rparr>)"
    by (auto simp: roster_register_def Let_def split: if_splits)
  have "ro_live R w' r = (if key_of r = key \<and> ro_name R r \<notin> set (dkeys registered) then None
                          else ro_live R w r)" for r
    using served_set [of "w\<lparr>w_db := d\<rparr>" key]
    by (auto simp: w' Let_def host_live_withdraw filter_empty_conv)
  moreover have "w_db w' = d" "c_challenges w' = c_challenges w"
    by (simp_all add: w' Let_def notify_change_def)
  ultimately show ?thesis using that 1 by blast
qed

lemma attach_effect:
  assumes "roster_attach C ck I R face connection names minted offer w = (w', Inr answer)"
  obtains c nonce p where "names \<noteq> []" "proof_presented (ck_time ck) I face names minted offer w c nonce p"
    "verify_signature C (ro_public_key R connection) p
       (provider_connect_signing_payload (own_key I) c nonce names)"
    "set names \<subseteq> ro_registered_names R (w_db w) (ro_public_key R connection)"
    "answer = map_option (\<lambda>i. sign C i (funduq_connect_signing_payload c nonce)) I"
    "dget (c_challenges w') c = None"
    "\<And>r. ro_live R w' r = (if key_of r = ro_public_key R connection \<and> ro_name R r \<in> set names
                          then Some connection else ro_live R w r)"
proof -
  have ne: "names \<noteq> []" using assms by (auto simp: roster_attach_def)
  let ?commit = "\<lambda>w. let w3 = ro_write_live R
        (dupdate [] (map (\<lambda>n. (ro_ref R (ro_public_key R connection) n, connection)) names)) w
     in notify_change (ro_changed R)
          (w3\<lparr>w_db := ro_touch R (ck_now ck) (ro_public_key R connection) names (w_db w3)\<rparr>)"
  have commit: "c_challenges (?commit v) = c_challenges v"
    "ro_live R (?commit v) r = (if key_of r = ro_public_key R connection \<and> ro_name R r \<in> set names
        then Some connection else ro_live R v r)" for v r
    by (simp_all add: Let_def host_live_write mapping_get) (simp add: notify_change_def)
  from assms ne obtain c n p w1 where
      cp: "connect_proof (ck_time ck) I face names minted offer w = (w1, Inr (Some c, n, Some p))"
    by (auto simp: roster_attach_def split: prod.splits sum.splits option.splits)
  have live: "fst (consume_connect_challenge (ck_time ck) c w1)"
    and v: "verify_signature C (ro_public_key R connection) p
       (provider_connect_signing_payload (own_key I) c (opt_text n) names)"
    and reg: "set names \<subseteq> ro_registered_names R (w_db w1) (ro_public_key R connection)"
    and ans: "answer = map_option (\<lambda>i. sign C i (funduq_connect_signing_payload c (opt_text n))) I"
    and w': "w' = ?commit (w1\<lparr>c_challenges := dpop c (c_challenges w1)\<rparr>)"
    using assms ne cp
    by (auto simp: roster_attach_def consume_connect_challenge_def Let_def split: if_splits sum.splits)
  note c = connect_proof_presented [OF cp live]
  have reg': "set names \<subseteq> ro_registered_names R (w_db w) (ro_public_key R connection)"
    using reg c(2) by auto
  have l: "ro_live R w1 = ro_live R w" using c(2) by auto
  show ?thesis
    by (rule that [OF ne c(1) v reg' ans]) (unfold w' commit, simp_all add: l)
qed

lemma attach_unlisted:
  assumes "dget (c_challenges w) c = None"
  shows "snd (roster_attach C ck I R face connection (x # xs) minted (Some c, n, Some p) w)
           = Inl InvalidRegistration"
  using assms by (simp add: roster_attach_def connect_proof_def consume_connect_challenge_def)

lemma detach_effect:
  "ro_live R (roster_detach now R key connection w) r =
     (if key_of r = key \<and> ro_live R w r = Some connection then None else ro_live R w r)"
  using served_set [of w key] by (auto simp: roster_detach_def Let_def host_live_withdraw filter_empty_conv)

lemma detach_replaced:
  assumes "\<And>r. key_of r = key \<Longrightarrow> ro_live R w r \<noteq> Some connection"
  shows "roster_detach now R key connection w = w"
  using assms served_set [of w key] by (auto simp: roster_detach_def filter_empty_conv)

lemma detach_all_effect:
  "ro_live R (roster_detach_all now R key w) r = (if key_of r = key then None else ro_live R w r)"
  using served_set [of w key] by (auto simp: roster_detach_all_def Let_def host_live_withdraw)

end

text \<open>A host of a roster is a live table.\<close>

sublocale roster_host \<subseteq> table: live_table "ro_live R" "ro_served_by R" "ro_write_live R" "ro_withdraw R now" key_of
  for now
  by unfold_locales (simp_all add: host_live_write host_live_withdraw host_served)

lemma agent_host_simps [simp]:
  "ro_live agent_roster w = serving (w_broker w)" "ro_served_by agent_roster w k = agents_served_by (w_broker w) k"
  "ro_ref agent_roster k n = \<lparr>ar_provider_key = k, ar_name = n\<rparr>" "ro_name agent_roster = ar_name"
  "ro_write_live agent_roster m w = w\<lparr>w_broker := register_provider m (w_broker w)\<rparr>"
  "ro_withdraw agent_roster now rs w = w\<lparr>w_broker := unregister_provider now rs (w_broker w)\<rparr>"
  "ro_public_key agent_roster = c_public_key" "ro_registered_names agent_roster = get_agent_names_for_provider"
  "ro_signing_payload agent_roster = registration_signing_payload" "ro_not_found agent_roster = AgentNotFound"
  "ro_changed agent_roster = RosterChanged" "ro_touch agent_roster = touch_agents"
  by (simp_all add: agent_roster_def)

lemma llm_host_simps [simp]:
  "ro_live llm_roster w = kyok_serving (c_relay w)" "ro_served_by llm_roster w k = kyok_served_by (c_relay w) k"
  "ro_ref llm_roster k n = \<lparr>lf_provider_key = k, lf_name = n\<rparr>" "ro_name llm_roster = lf_name"
  "ro_write_live llm_roster m w = w\<lparr>c_relay := kyok_attach m (c_relay w)\<rparr>"
  "ro_withdraw llm_roster now rs w = w\<lparr>c_relay := kyok_withdraw rs (c_relay w)\<rparr>"
  "ro_public_key llm_roster = lk_public_key" "ro_registered_names llm_roster = get_llm_names_for_key"
  "ro_signing_payload llm_roster = llm_registration_signing_payload"
  "ro_not_found llm_roster = LlmProviderNotFound" "ro_changed llm_roster = LlmRosterChanged"
  "ro_touch llm_roster = touch_llm_providers"
  by (simp_all add: llm_roster_def)

text \<open>The broker keeps the live table that the roster front asks for.\<close>

interpretation broker_table:
  live_table serving agents_served_by register_provider "unregister_provider now" ar_provider_key
proof
  fix m :: "(agent_ref, connection) dict" and s :: "'h broker" and r
  assume "dict_ok m"
  then show "serving (register_provider m s) r =
      (case dget m r of None \<Rightarrow> serving s r | Some c \<Rightarrow> Some c)"
    by (simp add: serving_def register_provider_def lr_serving_attach split: option.split)
next
  fix rs and s :: "'h broker" and r
  show "serving (unregister_provider now rs s) r = (if r \<in> set rs then None else serving s r)"
    by (simp add: serving_def)
next
  fix s :: "'h broker" and k
  show "set (agents_served_by s k) = {r. ar_provider_key r = k \<and> serving s r \<noteq> None}"
    by (simp add: agents_served_by_def serving_def set_served_by)
qed

interpretation agents: roster_host agent_roster ar_provider_key
  by unfold_locales
    (simp_all add: broker_table.live_write broker_table.live_withdraw broker_table.served_set notify_change_def
      split: option.split)

interpretation llms: roster_host llm_roster lf_provider_key
  by unfold_locales
    (simp_all add: relay_table.live_write relay_table.live_withdraw relay_table.served_set notify_change_def
      split: option.split)

end
