(* ===== verification/SdkLinks.thy ===== *)
theory SdkLinks
  imports Core
begin

text \<open>
  The in-process links of the two provider SDKs (\<open>inprocess.py\<close>, \<open>link.py\<close>, \<open>provider.py\<close> in both):
  the handshake, and the translation of what funduq hands over.  \<open>validate\<close> is the AG-UI package's
  \<open>RunAgentInput.model_validate\<close>, \<open>None\<close> where it raises.
\<close>

subsection \<open>The handshake\<close>

text \<open>The provider SDK's own \<open>verify_signature\<close>, the twin of funduq's.\<close>

definition sdk_verify_signature :: "('k, 'z) crypto_scheme \<Rightarrow> string \<Rightarrow> string \<Rightarrow> string \<Rightarrow> bool" where
  "sdk_verify_signature C public_key_hex signature_hex payload =
     (case from_hex public_key_hex of
        None \<Rightarrow> False
      | Some key \<Rightarrow>
          ed_key_ok C key \<and>
          (case from_hex signature_hex of None \<Rightarrow> False | Some sig \<Rightarrow> ed_verify C key sig payload))"

lemma sdk_verify_signature_eq [simp]: "sdk_verify_signature = verify_signature"
  by (intro ext) (simp add: sdk_verify_signature_def verify_signature_def)

text \<open>An identity and the funduq key the link is pinned to, if any.\<close>

record 'k in_process_link =
  il_identity :: "'k identity"
  il_funduq_public_key :: "string option"

text \<open>\<open>funduq_public_key or getattr(funduq, "identity_public_key", None)\<close>; the LLM link keeps its
  argument as it is.\<close>

definition in_process_link :: "'k identity \<Rightarrow> string option \<Rightarrow> string option \<Rightarrow> 'k in_process_link" where
  "in_process_link idt pinned claimed =
     \<lparr>il_identity = idt,
      il_funduq_public_key = (case pinned of None \<Rightarrow> claimed | Some k \<Rightarrow> if k = [] then claimed else Some k)\<rparr>"

definition in_process_llm_provider :: "'k identity \<Rightarrow> string option \<Rightarrow> 'k in_process_link" where
  "in_process_llm_provider idt pinned = \<lparr>il_identity = idt, il_funduq_public_key = pinned\<rparr>"

definition link_sign_connect ::
    "('k, 'z) crypto_scheme \<Rightarrow> 'k in_process_link \<Rightarrow> string \<Rightarrow> string \<Rightarrow> string \<Rightarrow> string list \<Rightarrow> string result" where
  "link_sign_connect C L funduq_public_key funduq_nonce provider_nonce names =
     (if il_funduq_public_key L \<noteq> None \<and> il_funduq_public_key L \<noteq> Some funduq_public_key
      then Inl WrongFunduq
      else Inr (sign_connect C (il_identity L) funduq_public_key funduq_nonce provider_nonce names))"

definition link_confirm_connect ::
    "('k, 'z) crypto_scheme \<Rightarrow> 'k in_process_link \<Rightarrow> string \<Rightarrow> string \<Rightarrow> string option \<Rightarrow> unit result" where
  "link_confirm_connect C L funduq_nonce provider_nonce answer =
     (case il_funduq_public_key L of
        None \<Rightarrow> Inr ()
      | Some pin \<Rightarrow>
          (case answer of
             None \<Rightarrow> Inl WrongFunduq
           | Some sig \<Rightarrow>
               if sdk_verify_signature C pin sig (sdk_funduq_connect_payload funduq_nonce provider_nonce)
               then Inr () else Inl WrongFunduq))"

definition llm_link_sign_connect ::
    "('k, 'z) crypto_scheme \<Rightarrow> 'k in_process_link \<Rightarrow> string \<Rightarrow> string \<Rightarrow> string \<Rightarrow> string list \<Rightarrow> string result" where
  "llm_link_sign_connect C L funduq_public_key funduq_nonce provider_nonce names =
     (if il_funduq_public_key L \<noteq> None \<and> il_funduq_public_key L \<noteq> Some funduq_public_key
      then Inl WrongFunduq
      else Inr (sign_connect C (il_identity L) funduq_public_key funduq_nonce provider_nonce names))"

definition llm_link_confirm_connect ::
    "('k, 'z) crypto_scheme \<Rightarrow> 'k in_process_link \<Rightarrow> string \<Rightarrow> string \<Rightarrow> string option \<Rightarrow> unit result" where
  "llm_link_confirm_connect C L funduq_nonce provider_nonce answer =
     (case il_funduq_public_key L of
        None \<Rightarrow> Inr ()
      | Some pin \<Rightarrow>
          (case answer of
             None \<Rightarrow> Inl WrongFunduq
           | Some sig \<Rightarrow>
               if sdk_verify_signature C pin sig (sdk_funduq_connect_payload funduq_nonce provider_nonce)
               then Inr () else Inl WrongFunduq))"

definition link_face :: "('k, 'z) crypto_scheme \<Rightarrow> 'k in_process_link \<Rightarrow> connect_face" where
  "link_face C L = \<lparr>cf_sign_connect = Some (link_sign_connect C L),
     cf_confirm_connect = Some (link_confirm_connect C L)\<rparr>"

definition llm_link_face :: "('k, 'z) crypto_scheme \<Rightarrow> 'k in_process_link \<Rightarrow> connect_face" where
  "llm_link_face C L = \<lparr>cf_sign_connect = Some (llm_link_sign_connect C L),
     cf_confirm_connect = Some (llm_link_confirm_connect C L)\<rparr>"

lemma llm_link_face_eq [simp]: "llm_link_face = link_face"
  by (intro ext) (simp add: llm_link_face_def link_face_def llm_link_sign_connect_def [abs_def]
    link_sign_connect_def [abs_def] llm_link_confirm_connect_def [abs_def] link_confirm_connect_def [abs_def])

subsection \<open>Runs handed over\<close>

text \<open>\<open>ClaimedRun\<close> of \<open>funduq/models.py\<close>, and the SDK's \<open>DeliveredRun\<close>.\<close>

record claimed_run =
  cl_run_id :: string
  cl_agent :: agent_ref
  cl_thread_id :: string
  cl_run_input :: pyval
  cl_metadata :: pyval

record 'i delivered_run =
  dr_run_id :: string
  dr_agent_name :: string
  dr_run_input :: 'i
  dr_thread_id :: "string option"
  dr_metadata :: pyval

definition from_claimed :: "(pyval \<Rightarrow> 'i option) \<Rightarrow> claimed_run \<Rightarrow> 'i delivered_run option" where
  "from_claimed validate run =
     map_option (\<lambda>input. \<lparr>dr_run_id = cl_run_id run, dr_agent_name = ar_name (cl_agent run),
          dr_run_input = input, dr_thread_id = Some (cl_thread_id run),
          dr_metadata = por (cl_metadata run) (PDict [])\<rparr>) (validate (cl_run_input run))"

text \<open>\<open>FunduqLink.deliver\<close> over an \<open>offer\<close> that changes the state \<open>'s\<close>; the message of a refusal is
  the validator's.\<close>

definition link_deliver ::
    "(pyval \<Rightarrow> 'i option) \<Rightarrow> ('i delivered_run \<Rightarrow> 's \<Rightarrow> answer \<times> 's) \<Rightarrow> string \<Rightarrow> claimed_run \<Rightarrow> 's \<Rightarrow> answer \<times> 's" where
  "link_deliver validate offer_to message run s =
     (case from_claimed validate run of
        None \<Rightarrow> (Refusal message, s)
      | Some delivered \<Rightarrow> offer_to delivered s)"

text \<open>\<open>AgentHandle.as_registration\<close>, and \<open>HandleProvider\<close>'s choice of the handle by name.\<close>

record agent_handle =
  ah_name :: string
  ah_description :: string
  ah_agent_card_extra :: "(string \<times> pyval) list"
  ah_metadata :: "(string \<times> pyval) list"

definition as_registration :: "agent_handle \<Rightarrow> pyval" where
  "as_registration h = PDict
     ([(''name'', PStr (ah_name h)), (''description'', PStr (ah_description h))]
      @ (if ah_agent_card_extra h \<noteq> [] then [(''agent_card_extra'', PDict (ah_agent_card_extra h))] else [])
      @ (if ah_metadata h \<noteq> [] then [(''metadata'', PDict (ah_metadata h))] else []))"

definition handle_for :: "agent_handle list \<Rightarrow> string \<Rightarrow> agent_handle result" where
  "handle_for agents agent_name =
     (case dget (dupdate [] (map (\<lambda>h. (ah_name h, h)) agents)) agent_name of
        None \<Rightarrow> Inl KeyError | Some h \<Rightarrow> Inr h)"

text \<open>\<open>thread_messages\<close>: \<open>messages[-limit:]\<close> with Python's slices, also for a limit of zero or less.\<close>

definition last_messages :: "'m list \<Rightarrow> int option \<Rightarrow> 'm list" where
  "last_messages messages limit =
     (case limit of
        None \<Rightarrow> messages
      | Some n \<Rightarrow>
          if n = 0 then messages
          else if 0 < n then drop (length messages - nat n) messages
          else drop (nat (- n)) messages)"

subsection \<open>Completions handed over\<close>

text \<open>The LLM SDK's \<open>DeliveredCompletion\<close>.\<close>

record delivered_completion =
  dc_run_id :: string
  dc_provider_key :: string
  dc_agent_name :: string
  dc_body :: pyval
  dc_llm_name :: string
  dc_context :: pyval
  dc_actor_chain :: "string list option"

definition from_request :: "completion_request \<Rightarrow> delivered_completion" where
  "from_request q =
     \<lparr>dc_run_id = cq_run_id q, dc_provider_key = ar_provider_key (cq_agent q),
      dc_agent_name = ar_name (cq_agent q), dc_body = cq_body q, dc_llm_name = cq_llm_name q,
      dc_context = cq_context q, dc_actor_chain = cq_actor_chain q\<rparr>"

end
