(* ===== verification/SignatureClaims.thy ===== *)
theory SignatureClaims
  imports Signatures
begin

text \<open>
  What the certificates and proofs guarantee: what the SDKs sign is what funduq accepts, and what
  funduq accepts was signed, by whom and for what.
\<close>

lemma own_signature_verifies [simp]:
  "crypto_ok C \<Longrightarrow> verify_signature C (id_public_key (identity_of C s)) (sign C (identity_of C s) m) m"
  by (simp add: verify_signature_def sign_def identity_of_def crypto_ok_def)

lemmas signed_defs = sign_registration_def sign_deletion_def sign_connect_def
  sign_llm_registration_def sign_llm_deletion_def sign_roster_registration_def sign_resolution_def

text \<open>A concrete scheme for the witnesses: a signature is the key followed by the message.\<close>

definition toy_crypto :: "string crypto" where
  "toy_crypto = \<lparr>ed_public = (\<lambda>s. s), ed_sign = (\<lambda>s m. s @ m), ed_key_ok = (\<lambda>k. True),
     ed_verify = (\<lambda>k sig m. sig = k @ m), seed_key = (\<lambda>s. s), sha256_hex = to_hex\<rparr>"

lemma toy_crypto_ok [simp]: "crypto_ok toy_crypto"
  by (simp add: crypto_ok_def toy_crypto_def)

text \<open>Every proof an SDK identity produces verifies on funduq's side: registrations and deletions of
  agents and LLM offerings (over the timestamp returned with the signature, whether given or taken
  from the clock), the link-open proof, and the resolution of a paused run.\<close>

theorem sdk_proofs_verify:
  assumes "crypto_ok C"
  shows "let idt = identity_of C s; pk = id_public_key idt in
    (case sign_registration C now idt names t of (sig, ts) \<Rightarrow>
       verify_signature C pk sig (registration_signing_payload names ts))
    \<and> (case sign_llm_registration C now idt names t of (sig, ts) \<Rightarrow>
         verify_signature C pk sig (llm_registration_signing_payload names ts))
    \<and> (case sign_deletion C now idt name t of (sig, ts) \<Rightarrow>
         verify_signature C pk sig (agent_deletion_signing_payload name ts))
    \<and> (case sign_llm_deletion C now idt name t of (sig, ts) \<Rightarrow>
         verify_signature C pk sig (llm_deletion_signing_payload name ts))
    \<and> verify_signature C pk (sign_connect C idt fk fn pn names)
         (provider_connect_signing_payload fk fn pn names)
    \<and> (case sign_resolution C now idt run t of (sig, ts) \<Rightarrow>
         verify_signature C pk sig (resolve_signing_payload run ts))"
proof -
  have "sdk_roster_registration_payload ''funduq-register'' names ts = registration_signing_payload names ts"
      "sdk_roster_registration_payload ''funduq-register-llm'' names ts = llm_registration_signing_payload names ts"
      "sdk_deletion_payload n ts = agent_deletion_signing_payload n ts"
      "llm_sdk_deletion_payload n ts = llm_deletion_signing_payload n ts"
      "sdk_provider_connect_payload fk fn pn names = provider_connect_signing_payload fk fn pn names"
      "sdk_resolve_payload n ts = resolve_signing_payload n ts" for ts n
    by (simp_all add: payload_defs sdk_payload_defs tag_defs)
  with assms show ?thesis by (simp add: signed_defs Let_def)
qed

lemma sdk_proofs_verify_witness:
  "case sign_registration toy_crypto 5 (identity_of toy_crypto ''k'') [''b'', ''a''] None of (sig, ts) \<Rightarrow>
     ts = 5 \<and> verify_signature toy_crypto (id_public_key (identity_of toy_crypto ''k'')) sig
       (registration_signing_payload [''b'', ''a''] ts)"
proof -
  have "snd (sign_registration toy_crypto 5 (identity_of toy_crypto ''k'') [''b'', ''a''] None) = 5"
    by (simp add: signed_defs timestamp_or_now_def int_time_def Let_def)
  with sdk_proofs_verify [OF toy_crypto_ok, where s = "''k''" and now = 5
      and names = "[''b'', ''a'']" and t = None]
  show ?thesis by (auto simp: Let_def split: prod.splits)
qed

subsection \<open>Delegation\<close>

lemma verify_delegation_iff:
  "verify_delegation C now certificate = Inr a \<longleftrightarrow>
     (\<exists>pk delegate expires_at sig.
        certificate_fields certificate = Inr (PStr pk, delegate, expires_at, PStr sig) \<and>
        now \<le> of_int expires_at \<and> a = PStr pk \<and>
        verify_signature C pk sig (delegation_signing_payload (py_str delegate) expires_at))"
proof (cases "certificate_fields certificate")
  case (Inr x)
  obtain authority delegate expires_at signature where x: "x = (authority, delegate, expires_at, signature)"
    by (cases x) auto
  show ?thesis
    by (cases "(C, authority, signature, delegation_signing_payload (py_str delegate) expires_at)"
        rule: verify_signature_value.cases)
      (auto simp: verify_delegation_def Inr x not_less verify_signature_def
        split: if_splits option.splits)
qed (simp add: verify_delegation_def)

lemma verify_own_delegation:
  assumes "crypto_ok C"
  shows "verify_delegation C now (sign_delegation C issued (identity_of C s) delegate ttl) =
     (if now \<le> of_int (int_time issued + ttl) then Inr (PStr (id_public_key (identity_of C s)))
      else Inl InvalidDelegation)"
proof -
  have "sdk_delegation_payload d e = delegation_signing_payload d e" for d e
    by (simp add: payload_defs sdk_payload_defs tag_defs)
  with assms show ?thesis
    by (auto simp: verify_delegation_def certificate_fields_def sign_delegation_def Let_def)
qed

text \<open>A delegation certificate means what it says. funduq accepts a certificate exactly when all
  four fields are there, it has not expired, and the authority it names signed "this delegate, until
  then"; it then returns that authority. A certificate issued by \<open>sign_delegation\<close> is accepted, as
  coming from its issuer, up to its expiry and not after.\<close>

theorem delegation_certificates:
  assumes "crypto_ok C"
  shows "(verify_delegation C now certificate = Inr a \<longleftrightarrow>
     (\<exists>pk delegate expires_at sig.
        certificate_fields certificate = Inr (PStr pk, delegate, expires_at, PStr sig) \<and>
        now \<le> of_int expires_at \<and> a = PStr pk \<and>
        verify_signature C pk sig (delegation_signing_payload (py_str delegate) expires_at)))
    \<and> verify_delegation C now (sign_delegation C issued (identity_of C s) delegate ttl) =
        (if now \<le> of_int (int_time issued + ttl) then Inr (PStr (id_public_key (identity_of C s)))
         else Inl InvalidDelegation)"
  using verify_delegation_iff verify_own_delegation [OF assms] by blast

lemma delegation_certificates_witness:
  "verify_delegation toy_crypto 100 (sign_delegation toy_crypto 0 (identity_of toy_crypto ''k'') ''d'' 100)
     = Inr (PStr (id_public_key (identity_of toy_crypto ''k'')))
   \<and> verify_delegation toy_crypto 101 (sign_delegation toy_crypto 0 (identity_of toy_crypto ''k'') ''d'' 100)
     = Inl InvalidDelegation"
  using delegation_certificates [OF toy_crypto_ok, of 100 PNone PNone 0 "''k''" "''d''" 100]
    delegation_certificates [OF toy_crypto_ok, of 101 PNone PNone 0 "''k''" "''d''" 100]
  by (simp add: int_time_def)

subsection \<open>Resolution\<close>

lemma in_keys_Inr: "in_keys x keys = Inr True \<longleftrightarrow> (\<exists>k. x = PStr k \<and> k \<in> keys)"
  by (cases x) (auto simp: in_keys_def)

lemma verify_value_True:
  "verify_signature_value C x y payload = Inr True \<longleftrightarrow>
     (\<exists>k s. x = PStr k \<and> y = PStr s \<and> verify_signature C k s payload)"
  by (cases "(C, x, y, payload)" rule: verify_signature_value.cases) (auto split: option.splits)

lemma verify_resolution_Inr:
  "verify_resolution C now resolution run_id allowed delegation = Inr e \<longleftrightarrow>
     (\<exists>signer timestamp sig.
        resolution_fields resolution = Inr (PStr signer, timestamp, PStr sig) \<and>
        effective_key C now (PStr signer) delegation = Inr e \<and>
        (\<exists>k \<in> allowed. e = PStr k) \<and> is_timestamp_fresh now timestamp \<and>
        verify_signature C signer sig (resolve_signing_payload run_id timestamp))"
proof (cases "resolution_fields resolution")
  case (Inr x)
  obtain signer timestamp signature where x: "x = (signer, timestamp, signature)" by (cases x) auto
  have "verify_resolution C now resolution run_id allowed delegation = Inr e \<longleftrightarrow>
      effective_key C now signer delegation = Inr e \<and> in_keys e allowed = Inr True \<and>
      is_timestamp_fresh now timestamp \<and>
      verify_signature_value C signer signature (resolve_signing_payload run_id timestamp) = Inr True"
    by (auto simp: verify_resolution_def Inr x split: if_splits)
  then show ?thesis by (auto simp: Inr x in_keys_Inr verify_value_True)
qed (simp add: verify_resolution_def)

text \<open>Nobody but an authority for the ask resolves it. If funduq accepts a resolution of a run, the
  effective key is one of the allowed keys, the timestamp is within sixty seconds of the clock, the
  named signer's signature covers exactly this run and this timestamp, and the effective key is the
  signer's own unless a valid, unexpired delegation certificate names the signer as delegate; then it
  is the certificate's authority.\<close>

theorem resolution_needs_an_authority:
  assumes "verify_resolution C now resolution run_id allowed delegation = Inr e"
  obtains signer timestamp sig k where
    "resolution_fields resolution = Inr (PStr signer, timestamp, PStr sig)"
    "e = PStr k" "k \<in> allowed" "\<bar>now - of_int timestamp\<bar> \<le> 60"
    "verify_signature C signer sig (resolve_signing_payload run_id timestamp)"
    "k = signer \<or> (\<exists>certificate. delegation = Some certificate \<and>
        verify_delegation C now certificate = Inr (PStr k) \<and>
        pget certificate ''delegatePublicKey'' = PStr signer)"
proof -
  from assms obtain signer timestamp sig k where r:
    "resolution_fields resolution = Inr (PStr signer, timestamp, PStr sig)"
    "effective_key C now (PStr signer) delegation = Inr e" "k \<in> allowed" "e = PStr k"
    "is_timestamp_fresh now timestamp"
    "verify_signature C signer sig (resolve_signing_payload run_id timestamp)"
    unfolding verify_resolution_Inr by blast
  have "k = signer \<or> (\<exists>certificate. delegation = Some certificate \<and>
        verify_delegation C now certificate = Inr (PStr k) \<and>
        pget certificate ''delegatePublicKey'' = PStr signer)"
    using r(2,4) by (auto simp: effective_key_def split: option.splits if_splits)
  with r that show ?thesis
    by (simp add: is_timestamp_fresh_def SIGNATURE_FRESHNESS_WINDOW_SECONDS_def)
qed

text \<open>The resolution object a client sends, from what \<open>sign_resolution\<close> returns.\<close>

definition resolution_of :: "'s identity \<Rightarrow> string \<times> int \<Rightarrow> pyval" where
  "resolution_of idt st = PDict [(''publicKey'', PStr (id_public_key idt)),
     (''timestamp'', PInt (snd st)), (''signature'', PStr (fst st))]"

definition toy_resolution :: pyval where
  "toy_resolution = resolution_of (identity_of toy_crypto ''d'')
     (sign_resolution toy_crypto 10 (identity_of toy_crypto ''d'') ''r'' None)"

definition toy_certificate :: pyval where
  "toy_certificate = sign_delegation toy_crypto 0 (identity_of toy_crypto ''k'')
     (id_public_key (identity_of toy_crypto ''d'')) 100"

lemma resolution_needs_an_authority_witness:
  "\<exists>k. verify_resolution toy_crypto 12 toy_resolution ''r''
     {id_public_key (identity_of toy_crypto ''k'')} (Some toy_certificate) = Inr (PStr k) \<and>
   k = id_public_key (identity_of toy_crypto ''k'')"
proof -
  let ?K = "identity_of toy_crypto ''k''" and ?D = "identity_of toy_crypto ''d''"
  have c: "verify_delegation toy_crypto 12 toy_certificate = Inr (PStr (id_public_key ?K))"
    using verify_own_delegation [OF toy_crypto_ok, of 12 0 "''k''" "id_public_key ?D" 100]
    by (simp add: toy_certificate_def int_time_def)
  have d: "pget toy_certificate ''delegatePublicKey'' = PStr (id_public_key ?D)"
    by (simp add: toy_certificate_def sign_delegation_def Let_def pget_def pget_or_def)
  have p: "sdk_resolve_payload ''r'' t = resolve_signing_payload ''r'' t" for t
    by (simp add: payload_defs sdk_payload_defs tag_defs)
  have v: "verify_resolution toy_crypto 12 toy_resolution ''r'' {id_public_key ?K} (Some toy_certificate)
      = Inr (PStr (id_public_key ?K))"
    unfolding verify_resolution_Inr
    by (simp add: toy_resolution_def resolution_of_def resolution_fields_def sign_resolution_def
        timestamp_or_now_def int_time_def Let_def effective_key_def c d p is_timestamp_fresh_def
        SIGNATURE_FRESHNESS_WINDOW_SECONDS_def)
  from resolution_needs_an_authority [OF v] have "\<exists>k. PStr (id_public_key ?K) = PStr k \<and> k \<in> {id_public_key ?K}"
    by metis
  with v show ?thesis by blast
qed

text \<open>Not every bad resolution surfaces as \<open>InvalidResolution\<close>. One that comes with an expired
  delegation certificate leaves \<open>verify_resolution\<close> with \<open>InvalidDelegation\<close>; a JSON list as
  \<open>publicKey\<close> leaves it with \<open>TypeError\<close>, while a number is refused as it should be; and a
  certificate whose \<open>authorityPublicKey\<close> is a number leaves \<open>verify_delegation\<close> with
  \<open>TypeError\<close>.\<close>

theorem resolution_error_leaks:
  "verify_resolution toy_crypto 200 toy_resolution ''r'' allowed (Some toy_certificate) = Inl InvalidDelegation
   \<and> verify_resolution C now (PDict [(''publicKey'', PInt 1), (''timestamp'', PInt 0), (''signature'', PStr [])])
       run_id allowed None = Inl InvalidResolution
   \<and> verify_resolution C now (PDict [(''publicKey'', PList []), (''timestamp'', PInt 0), (''signature'', PStr [])])
       run_id allowed None = Inl TypeError
   \<and> verify_delegation C 0 (PDict [(''authorityPublicKey'', PInt 1), (''delegatePublicKey'', PStr []),
       (''expiresAt'', PInt 1), (''signature'', PStr [])]) = Inl TypeError"
proof -
  have "verify_delegation toy_crypto 200 toy_certificate = Inl InvalidDelegation"
    using verify_own_delegation [OF toy_crypto_ok, of 200 0 "''k''"
        "id_public_key (identity_of toy_crypto ''d'')" 100]
    by (simp add: toy_certificate_def int_time_def)
  then show ?thesis
    by (simp add: verify_resolution_def effective_key_def toy_resolution_def resolution_of_def
        resolution_fields_def in_keys_def verify_delegation_def certificate_fields_def)
qed

end
