(* ===== verification/RepoSteps.thy ===== *)
theory RepoSteps
  imports Repo
begin

text \<open>
  The database as a transition system: any order of the writes of \<open>repo.py\<close>, each with any
  arguments.  Reachable databases satisfy every constraint of the schema (\<open>db_ok\<close>), although most
  statements do not check them.
\<close>

inductive repo_step :: "('s, 'z) crypto_scheme \<Rightarrow> db \<Rightarrow> db \<Rightarrow> bool" for C where
  p_register: "register_agents C now k batch name d = Inr (d', refs) \<Longrightarrow> repo_step C d d'"
| p_register_llm: "register_llm_providers C now k names md d = Inr (d', lrefs) \<Longrightarrow> repo_step C d d'"
| p_touch_agents: "repo_step C d (touch_agents now k names d)"
| p_touch_llm: "repo_step C d (touch_llm_providers now k names d)"
| p_delete_agent: "delete_agent ag d = Inr (d', gone) \<Longrightarrow> repo_step C d d'"
| p_delete_llm: "repo_step C d (fst (delete_llm_provider lref d))"
| p_ensure_thread: "ensure_thread now fresh ag tid parent md create hk d = Inr (d', t) \<Longrightarrow> repo_step C d d'"
| p_messages: "append_thread_messages now tid rid ms d = Inr (d', stored) \<Longrightarrow> repo_step C d d'"
| p_create_run: "create_run now fresh tid ag prot inp md hk d = Inr (d', rid) \<Longrightarrow> repo_step C d d'"
| p_reopen: "repo_step C d (fst (reopen_run now rid inp md expected d))"
| p_mark: "mark_run_status now rid s md d = Inr (d', ok) \<Longrightarrow> repo_step C d d'"
| p_touch_run: "repo_step C d (touch_run_activity now rid d)"
| p_orphaned: "repo_step C d (fst (fail_orphaned_runs now d))"
| p_stalled: "repo_step C d (fst (fail_stalled_runs now timeout d))"
| p_paused: "repo_step C d (fst (fail_stale_paused_runs now timeout d))"
| p_event: "append_run_event now rid seq ev d = Inr d' \<Longrightarrow> repo_step C d d'"

definition repo_init :: "db \<Rightarrow> bool" where
  "repo_init d \<longleftrightarrow> d = empty_db"

subsection \<open>What the constraints look at\<close>

text \<open>The columns that occur in a constraint.\<close>

definition shape_of ::
    "db \<Rightarrow> (string \<times> string) list \<times> agent_ref list \<times> (string \<times> string) list
        \<times> (string \<times> agent_ref \<times> string option) list
        \<times> (string \<times> agent_ref \<times> string \<times> string) list
        \<times> (string \<times> string \<times> string) list \<times> string list" where
  "shape_of d =
     (map (\<lambda>r. (pr_public_key r, pr_fingerprint r)) (db_providers d),
      map agent_key (db_agents d), map llm_key (db_llms d),
      map (\<lambda>r. (th_thread_id r, thread_agent r, th_parent_thread_id r)) (db_threads d),
      map (\<lambda>r. (rn_run_id r, run_agent r, rn_thread_id r, rn_protocol r)) (db_runs d),
      map (\<lambda>r. (ms_thread_id r, ms_message_id r, ms_run_id r)) (db_messages d),
      map ev_run_id (db_events d))"

fun shape_ok ::
    "(string \<times> string) list \<times> agent_ref list \<times> (string \<times> string) list
        \<times> (string \<times> agent_ref \<times> string option) list
        \<times> (string \<times> agent_ref \<times> string \<times> string) list
        \<times> (string \<times> string \<times> string) list \<times> string list \<Rightarrow> bool" where
  "shape_ok (ps, ags, lls, ths, rns, mss, evs) \<longleftrightarrow>
     (distinct (map fst ps) \<and> distinct (map snd ps)) \<and>
     (distinct ags \<and> (\<forall>a \<in> set ags. ar_provider_key a \<in> set (map fst ps))) \<and>
     (distinct lls \<and> (\<forall>l \<in> set lls. fst l \<in> set (map fst ps))) \<and>
     (distinct (map fst ths) \<and>
       (\<forall>(t, a, p) \<in> set ths. a \<in> set ags \<and> set_option p \<subseteq> set (map fst ths))) \<and>
     (distinct (map fst rns) \<and>
       (\<forall>(r, a, t, pr) \<in> set rns. a \<in> set ags \<and> t \<in> set (map fst ths) \<and> pr \<in> protocols)) \<and>
     (distinct (map (\<lambda>(t, m, r). (t, m)) mss) \<and>
       (\<forall>(t, m, r) \<in> set mss. t \<in> set (map fst ths) \<and> r \<in> set (map fst rns))) \<and>
     (\<forall>r \<in> set evs. r \<in> set (map fst rns))"

lemma key_parts [simp]:
  "ar_provider_key (agent_key r) = ag_provider_key r" "fst (llm_key r') = ll_provider_key r'"
  by (simp_all add: agent_key_def llm_key_def)

lemma shape_ok_iff: "db_ok d \<longleftrightarrow> shape_ok (shape_of d)"
  by (simp add: db_ok_def shape_of_def providers_ok_def agents_ok_def llms_ok_def threads_ok_def
      runs_ok_def messages_ok_def events_ok_def provider_keys_def thread_ids_def run_ids_def
      agent_keys_def comp_def image_image)

lemma same_shape: "shape_of d' = shape_of d \<Longrightarrow> db_ok d \<Longrightarrow> db_ok d'"
  by (simp add: shape_ok_iff)

lemma map_update_where:
  "(\<And>r. p r \<Longrightarrow> g (f r) = g r) \<Longrightarrow> map g (update_where p f rows) = map g rows"
  by (induction rows) (auto simp: update_where_def)

text \<open>Updates that leave the constrained columns alone.\<close>

lemma shape_providers:
  "(\<And>r. (pr_public_key (f r), pr_fingerprint (f r)) = (pr_public_key r, pr_fingerprint r)) \<Longrightarrow>
     shape_of (d\<lparr>db_providers := update_where p f (db_providers d)\<rparr>) = shape_of d"
  using map_update_where [of p "\<lambda>r. (pr_public_key r, pr_fingerprint r)" f "db_providers d"]
  by (simp add: shape_of_def)

lemma shape_agents:
  "(\<And>r. agent_key (f r) = agent_key r) \<Longrightarrow>
     shape_of (d\<lparr>db_agents := update_where p f (db_agents d)\<rparr>) = shape_of d"
  using map_update_where [of p agent_key f "db_agents d"] by (simp add: shape_of_def)

lemma shape_llms:
  "(\<And>r. llm_key (f r) = llm_key r) \<Longrightarrow>
     shape_of (d\<lparr>db_llms := update_where p f (db_llms d)\<rparr>) = shape_of d"
  using map_update_where [of p llm_key f "db_llms d"] by (simp add: shape_of_def)

lemma shape_threads:
  "(\<And>r. (th_thread_id (f r), thread_agent (f r), th_parent_thread_id (f r)) =
         (th_thread_id r, thread_agent r, th_parent_thread_id r)) \<Longrightarrow>
     shape_of (d\<lparr>db_threads := update_where p f (db_threads d)\<rparr>) = shape_of d"
  using map_update_where [of p "\<lambda>r. (th_thread_id r, thread_agent r, th_parent_thread_id r)" f "db_threads d"]
  by (simp add: shape_of_def)

lemma shape_runs:
  "(\<And>r. (rn_run_id (f r), run_agent (f r), rn_thread_id (f r), rn_protocol (f r)) =
         (rn_run_id r, run_agent r, rn_thread_id r, rn_protocol r)) \<Longrightarrow>
     shape_of (d\<lparr>db_runs := update_where p f (db_runs d)\<rparr>) = shape_of d"
  using map_update_where [of p "\<lambda>r. (rn_run_id r, run_agent r, rn_thread_id r, rn_protocol r)" f "db_runs d"]
  by (simp add: shape_of_def)

subsection \<open>Every write keeps the constraints\<close>

lemmas ok_parts = db_ok_def providers_ok_def agents_ok_def llms_ok_def threads_ok_def runs_ok_def
  messages_ok_def events_ok_def provider_keys_def agent_keys_def thread_ids_def run_ids_def

lemma ok_add_provider:
  assumes "db_ok d" "pr_public_key r \<notin> provider_keys d"
    "pr_fingerprint r \<notin> set (map pr_fingerprint (db_providers d))"
  shows "db_ok (d\<lparr>db_providers := db_providers d @ [r]\<rparr>)"
  using assms unfolding ok_parts by simp

lemma ok_add_agent:
  assumes "db_ok d" "agent_key r \<notin> agent_keys d" "ag_provider_key r \<in> provider_keys d"
  shows "db_ok (d\<lparr>db_agents := db_agents d @ [r]\<rparr>)"
  using assms unfolding ok_parts by simp

lemma ok_add_llm:
  assumes "db_ok d" "llm_key r \<notin> set (map llm_key (db_llms d))" "ll_provider_key r \<in> provider_keys d"
  shows "db_ok (d\<lparr>db_llms := db_llms d @ [r]\<rparr>)"
  using assms unfolding ok_parts by simp

lemma ok_add_thread:
  assumes "db_ok d" "th_thread_id r \<notin> thread_ids d" "thread_agent r \<in> agent_keys d"
    "set_option (th_parent_thread_id r) \<subseteq> insert (th_thread_id r) (thread_ids d)"
  shows "db_ok (d\<lparr>db_threads := db_threads d @ [r]\<rparr>)"
proof -
  let ?d = "d\<lparr>db_threads := db_threads d @ [r]\<rparr>"
  have k: "thread_ids ?d = insert (th_thread_id r) (thread_ids d)" "agent_keys ?d = agent_keys d"
      "run_ids ?d = run_ids d" "provider_keys ?d = provider_keys d"
    by (simp_all add: thread_ids_def agent_keys_def run_ids_def provider_keys_def)
  have "threads_ok ?d"
    using assms unfolding db_ok_def threads_ok_def k by (auto simp: thread_ids_def)
  moreover have "runs_ok ?d" using assms(1) unfolding db_ok_def runs_ok_def k by simp
  moreover have "messages_ok ?d" using assms(1) unfolding db_ok_def messages_ok_def k by simp
  ultimately show ?thesis
    using assms(1) unfolding db_ok_def providers_ok_def agents_ok_def llms_ok_def events_ok_def k by simp
qed

lemma ok_insert_thread: "insert_thread r d = Inr d' \<Longrightarrow> db_ok d \<Longrightarrow> db_ok d'"
  using ok_add_thread [of d r] by (auto simp: insert_thread_def split: if_splits option.splits)

lemma ok_insert_run: "insert_run r d = Inr d' \<Longrightarrow> db_ok d \<Longrightarrow> db_ok d'"
proof -
  assume i: "insert_run r d = Inr d'" and ok: "db_ok d"
  let ?d = "d\<lparr>db_runs := db_runs d @ [r]\<rparr>"
  have k: "thread_ids ?d = thread_ids d" "agent_keys ?d = agent_keys d"
      "run_ids ?d = insert (rn_run_id r) (run_ids d)" "provider_keys ?d = provider_keys d"
    by (simp_all add: thread_ids_def agent_keys_def run_ids_def provider_keys_def)
  have c: "d' = ?d" "rn_run_id r \<notin> run_ids d" "run_agent r \<in> agent_keys d"
      "rn_thread_id r \<in> thread_ids d" "rn_protocol r \<in> protocols"
    using i by (auto simp: insert_run_def split: if_splits)
  have "runs_ok ?d" using ok c unfolding db_ok_def runs_ok_def k by (simp add: run_ids_def)
  moreover have "messages_ok ?d" using ok unfolding db_ok_def messages_ok_def k by simp
  moreover have "events_ok ?d" using ok unfolding db_ok_def events_ok_def k by simp
  ultimately show ?thesis
    using ok c(1) unfolding db_ok_def providers_ok_def agents_ok_def llms_ok_def threads_ok_def by (simp add: k)
qed

lemma ok_insert_message: "insert_message r d = Inr d' \<Longrightarrow> db_ok d \<Longrightarrow> db_ok d'"
proof -
  assume i: "insert_message r d = Inr d'" and ok: "db_ok d"
  let ?d = "d\<lparr>db_messages := db_messages d @ [r]\<rparr>"
  have k: "thread_ids ?d = thread_ids d" "agent_keys ?d = agent_keys d"
      "run_ids ?d = run_ids d" "provider_keys ?d = provider_keys d"
    by (simp_all add: thread_ids_def agent_keys_def run_ids_def provider_keys_def)
  have c: "d' = ?d" "ms_thread_id r \<in> thread_ids d" "ms_run_id r \<in> run_ids d"
      "(ms_thread_id r, ms_message_id r) \<notin> set (map (\<lambda>r. (ms_thread_id r, ms_message_id r)) (db_messages d))"
    using i unfolding insert_message_def by (fastforce split: if_splits)+
  have "messages_ok ?d" using ok c(2-4) unfolding db_ok_def messages_ok_def k by simp
  then show ?thesis
    using ok c(1) unfolding db_ok_def providers_ok_def agents_ok_def llms_ok_def threads_ok_def runs_ok_def
      events_ok_def by (simp add: k)
qed

lemma ok_insert_event: "insert_event r d = Inr d' \<Longrightarrow> db_ok d \<Longrightarrow> db_ok d'"
proof -
  assume i: "insert_event r d = Inr d'" and ok: "db_ok d"
  let ?d = "d\<lparr>db_events := db_events d @ [r]\<rparr>"
  have k: "thread_ids ?d = thread_ids d" "agent_keys ?d = agent_keys d"
      "run_ids ?d = run_ids d" "provider_keys ?d = provider_keys d"
    by (simp_all add: thread_ids_def agent_keys_def run_ids_def provider_keys_def)
  have c: "d' = ?d" "ev_run_id r \<in> run_ids d"
    using i by (auto simp: insert_event_def split: if_splits)
  then show ?thesis
    using ok unfolding db_ok_def providers_ok_def agents_ok_def llms_ok_def threads_ok_def runs_ok_def
      messages_ok_def events_ok_def by (simp add: k)
qed

lemma ok_ensure_provider:
  assumes "ensure_provider C now k d = Inr d'" "db_ok d"
  shows "db_ok d' \<and> k \<in> provider_keys d'"
proof (cases "k \<in> provider_keys d")
  case True
  with assms show ?thesis by (auto simp: ensure_provider_def)
next
  case False
  with assms(1) obtain f where
    f: "f \<notin> set (map pr_fingerprint (db_providers d))"
      "d' = d\<lparr>db_providers := db_providers d @
              [\<lparr>pr_public_key = k, pr_fingerprint = f, pr_display_name = None, pr_updated_at = now\<rparr>]\<rparr>"
    unfolding ensure_provider_def by (auto split: if_splits)
  with False show ?thesis
    using ok_add_provider [OF assms(2)] by (simp add: provider_keys_def)
qed

lemma ok_set_provider_name: "db_ok d \<Longrightarrow> db_ok (set_provider_name now k n d)"
  unfolding set_provider_name_def by (erule same_shape [rotated], rule shape_providers) simp

lemma keys_set_provider_name [simp]: "provider_keys (set_provider_name now k n d) = provider_keys d"
  by (auto simp: set_provider_name_def provider_keys_def update_where_def)

lemma ok_upsert_agent:
  assumes "db_ok d" "ag_provider_key r \<in> provider_keys d"
  shows "db_ok (upsert_agent r d)" "provider_keys (upsert_agent r d) = provider_keys d"
proof -
  show "db_ok (upsert_agent r d)"
  proof (cases "agent_key r \<in> agent_keys d")
    case True
    then show ?thesis
      unfolding upsert_agent_def
      by (simp, intro same_shape [OF shape_agents assms(1)]) (simp add: agent_key_def)
  next
    case False
    with ok_add_agent [OF assms(1) False assms(2)] show ?thesis by (simp add: upsert_agent_def)
  qed
qed (simp add: upsert_agent_def provider_keys_def)

lemma ok_register_entries:
  "register_entries now k batch d = Inr (d', refs) \<Longrightarrow> db_ok d \<Longrightarrow> k \<in> provider_keys d \<Longrightarrow> db_ok d'"
proof (induction batch arbitrary: d refs)
  case (Cons a batch)
  then show ?case by (auto simp: ok_upsert_agent)
qed simp

lemma ok_register_agents: "register_agents C now k batch n d = Inr (d', refs) \<Longrightarrow> db_ok d \<Longrightarrow> db_ok d'"
  by (auto simp: register_agents_def ok_set_provider_name split: option.splits
      dest!: ok_ensure_provider ok_register_entries)

lemma ok_upsert_llm:
  assumes "db_ok d" "ll_provider_key r \<in> provider_keys d"
  shows "db_ok (upsert_llm r d)" "provider_keys (upsert_llm r d) = provider_keys d"
proof -
  show "db_ok (upsert_llm r d)"
  proof (cases "llm_key r \<in> set (map llm_key (db_llms d))")
    case True
    then show ?thesis
      unfolding upsert_llm_def
      by (simp, intro same_shape [OF shape_llms assms(1)]) (simp add: llm_key_def)
  next
    case False
    with ok_add_llm [OF assms(1) False assms(2)] show ?thesis by (simp add: upsert_llm_def)
  qed
qed (simp add: upsert_llm_def provider_keys_def)

lemma ok_register_offerings:
  "db_ok d \<Longrightarrow> k \<in> provider_keys d \<Longrightarrow> db_ok (fst (register_offerings now k md names d))"
proof (induction names arbitrary: d)
  case (Cons n names)
  then show ?case by (auto simp: ok_upsert_llm Let_def split: prod.split)
      (metis fst_conv llm_row.select_convs(1) ok_upsert_llm)
qed simp

lemma ok_register_llm:
  assumes "register_llm_providers C now k names md d = Inr (d', refs)" "db_ok d"
  shows "db_ok d'"
proof -
  from assms(1) obtain d1 where d1: "ensure_provider C now k d = Inr d1"
      "(d', refs) = register_offerings now k md names d1"
    by (auto simp: register_llm_providers_def)
  then show ?thesis
    using ok_register_offerings ok_ensure_provider [OF d1(1) assms(2)] by (metis fst_conv)
qed

lemma ok_touch:
  "db_ok d \<Longrightarrow> db_ok (touch_agents now k names d)"
  "db_ok d \<Longrightarrow> db_ok (touch_llm_providers now k names d)"
  "db_ok d \<Longrightarrow> db_ok (touch_run_activity now rid d)"
    apply (simp add: touch_agents_def)
    apply (intro impI, erule same_shape [rotated], rule shape_agents, simp add: agent_key_def)
   apply (simp add: touch_llm_providers_def)
   apply (intro impI, erule same_shape [rotated], rule shape_llms, simp add: llm_key_def)
  apply (unfold touch_run_activity_def)
  apply (erule same_shape [rotated], rule shape_runs, simp add: run_agent_def)
  done

lemma ok_delete_llm: "db_ok d \<Longrightarrow> db_ok (fst (delete_llm_provider ref d))"
  unfolding delete_llm_provider_def ok_parts by (simp add: distinct_map_filter)

lemma ok_delete_agent:
  assumes "delete_agent ag d = Inr (d', gone)" "db_ok d"
  shows "db_ok d'"
proof -
  let ?d = "d\<lparr>db_agents := filter (\<lambda>r. agent_key r \<noteq> ag) (db_agents d)\<rparr>"
  have d': "d' = ?d" using assms(1) by (auto simp: delete_agent_def split: if_splits)
  have free: "ag \<notin> thread_agent ` set (db_threads d) \<and> ag \<notin> run_agent ` set (db_runs d)"
  proof (cases "ag \<in> agent_keys d")
    case True
    with assms(1) have "count_threads_for_agent d ag = 0" "count_runs_for_agent d ag None = 0"
      by (auto simp: delete_agent_def split: if_splits)
    then show ?thesis
      by (auto simp: count_threads_for_agent_def count_runs_for_agent_def row_count_def filter_empty_conv)
  next
    case False
    with assms(2) show ?thesis by (auto simp: db_ok_def threads_ok_def runs_ok_def)
  qed
  have k: "thread_ids ?d = thread_ids d" "agent_keys ?d = agent_keys d - {ag}"
      "run_ids ?d = run_ids d" "provider_keys ?d = provider_keys d"
    by (auto simp: thread_ids_def agent_keys_def run_ids_def provider_keys_def)
  have "agents_ok ?d" using assms(2) unfolding db_ok_def agents_ok_def by (simp add: k distinct_map_filter)
  moreover have "threads_ok ?d" using assms(2) free unfolding db_ok_def threads_ok_def by (auto simp: k)
  moreover have "runs_ok ?d" using assms(2) free unfolding db_ok_def runs_ok_def by (auto simp: k)
  ultimately show ?thesis
    using assms(2) d' unfolding db_ok_def providers_ok_def llms_ok_def messages_ok_def events_ok_def
    by (simp add: k)
qed

lemma ok_create_thread:
  "create_thread now fresh ag parent md hk d = Inr (d', t) \<Longrightarrow> db_ok d \<Longrightarrow> db_ok d'"
  by (auto simp: create_thread_def intro: ok_insert_thread)

lemma ok_ensure_thread:
  "ensure_thread now fresh ag tid parent md create hk d = Inr (d', t) \<Longrightarrow> db_ok d \<Longrightarrow> db_ok d'"
  by (auto simp: ensure_thread_def split: option.splits if_splits intro: ok_create_thread
      intro!: same_shape [OF shape_threads] simp: thread_agent_def)

lemma ok_append_messages:
  "append_thread_messages now tid rid ms d = Inr (d', stored) \<Longrightarrow> db_ok d \<Longrightarrow> db_ok d'"
proof (induction ms arbitrary: d stored)
  case (Cons m ms)
  then show ?case by (cases m) (auto simp: Let_def dest!: ok_insert_message)
qed simp

lemma run_keys_stamp [simp]:
  "rn_run_id (stamp_status now s r) = rn_run_id r" "run_agent (stamp_status now s r) = run_agent r"
  "rn_thread_id (stamp_status now s r) = rn_thread_id r"
  "rn_protocol (stamp_status now s r) = rn_protocol r"
  "rn_status (stamp_status now s r) = s" "rn_metadata (stamp_status now s r) = rn_metadata r"
  "rn_head_key (stamp_status now s r) = rn_head_key r"
  by (simp_all add: stamp_status_def run_agent_def Let_def)

lemma ok_mark: "mark_run_status now rid s md d = Inr (d', ok) \<Longrightarrow> db_ok d \<Longrightarrow> db_ok d'"
  by (auto simp: mark_run_status_def Let_def run_agent_def stamp_status_def split: option.splits if_splits
      intro!: same_shape [OF shape_runs])

lemma ok_reopen: "db_ok d \<Longrightarrow> db_ok (fst (reopen_run now rid inp md expected d))"
  unfolding reopen_run_def Let_def fst_conv
  by (erule same_shape [rotated], rule shape_runs) (simp add: run_agent_def)

lemma shape_fail_one: "shape_of (fst (fail_one now p reason row d)) = shape_of d"
  unfolding fail_one_def Let_def fst_conv by (rule shape_runs) (simp add: run_agent_def)

lemma shape_fail_rows: "shape_of (fst (fail_rows now p reason rows d)) = shape_of d"
proof (induction rows arbitrary: d)
  case (Cons r rows)
  then show ?case
    using shape_fail_one [of now p reason r d] by (simp add: Let_def split: prod.split) (metis fst_conv)
qed simp

lemma ok_fail_runs: "db_ok d \<Longrightarrow> db_ok (fst (fail_runs now p reason d))"
  unfolding fail_runs_def by (erule same_shape [rotated], rule shape_fail_rows)

lemmas sweep_defs = fail_orphaned_runs_def fail_stalled_runs_def fail_stale_paused_runs_def

lemma ok_step: "repo_step C d d' \<Longrightarrow> db_ok d \<Longrightarrow> db_ok d'"
  by (induction rule: repo_step.induct)
    (auto simp: create_run_def append_run_event_def sweep_defs
      intro: ok_register_agents ok_register_llm ok_touch ok_delete_agent ok_delete_llm ok_ensure_thread
        ok_append_messages ok_insert_run ok_reopen ok_mark ok_fail_runs ok_insert_event)

lemma ok_init: "repo_init d \<Longrightarrow> db_ok d"
  by (simp add: repo_init_def empty_db_def ok_parts)

interpretation constraints: inductive_invariant repo_init "repo_step C" db_ok
  by unfold_locales (auto intro: ok_init ok_step)

end
