(* ===== verification/RepoClaims.thy ===== *)
theory RepoClaims
  imports RepoSteps
begin

text \<open>
  What the record keeps: the run-status state machine, the binding of threads to a responsibility
  segment, the queue limit, the sweeps and the event log.
\<close>

subsection \<open>Constraints\<close>


text \<open>A small record for the witnesses.\<close>

definition demo_ref :: agent_ref where
  "demo_ref = \<lparr>ar_provider_key = ''6b'', ar_name = ''a''\<rparr>"

definition demo_scheme :: "string crypto" where
  "demo_scheme = \<lparr>ed_public = (\<lambda>s. s), ed_sign = (\<lambda>s m. s @ m), ed_key_ok = (\<lambda>k. True),
     ed_verify = (\<lambda>k sig m. sig = k @ m), seed_key = (\<lambda>s. s), sha256_hex = to_hex\<rparr>"

definition demo_registered :: db where
  "demo_registered =
     (case register_agents demo_scheme 1 ''6b'' [PDict [(''name'', PStr ''a'')]] None empty_db of
        Inr (d, refs) \<Rightarrow> d | Inl e \<Rightarrow> empty_db)"

definition demo_threaded :: db where
  "demo_threaded =
     (case ensure_thread 2 ''t1'' demo_ref None None PNone False (Some ''head'') demo_registered of
        Inr (d, t) \<Rightarrow> d | Inl e \<Rightarrow> empty_db)"

definition demo_run :: db where
  "demo_run = (case create_run 3 ''r1'' ''t1'' demo_ref ''ag-ui'' (PDict []) PNone (Some ''head'') demo_threaded of
     Inr (d, r) \<Rightarrow> d | Inl e \<Rightarrow> empty_db)"

lemma demo_writes:
  "register_agents demo_scheme 1 ''6b'' [PDict [(''name'', PStr ''a'')]] None empty_db =
     Inr (demo_registered, [(''a'', demo_ref)])"
  "ensure_thread 2 ''t1'' demo_ref None None PNone False (Some ''head'') demo_registered =
     Inr (demo_threaded, ''t1'')"
  "create_run 3 ''r1'' ''t1'' demo_ref ''ag-ui'' (PDict []) PNone (Some ''head'') demo_threaded =
     Inr (demo_run, ''r1'')"
  by code_simp+

lemma reach_demo: "reach repo_init (repo_step demo_scheme) demo_run"
proof -
  have "reach repo_init (repo_step demo_scheme) empty_db"
    by (rule reach.reach_init) (simp add: repo_init_def)
  then have "reach repo_init (repo_step demo_scheme) demo_registered"
    by (rule reach.reach_step) (rule p_register [OF demo_writes(1)])
  then have "reach repo_init (repo_step demo_scheme) demo_threaded"
    by (rule reach.reach_step) (rule p_ensure_thread [OF demo_writes(2)])
  then show ?thesis by (rule reach.reach_step) (rule p_create_run [OF demo_writes(3)])
qed


subsection \<open>Run statuses\<close>

lemma find_update_where:
  "(\<And>r. g (f r) = g r) \<Longrightarrow>
     find (\<lambda>r. g r = i) (update_where p f rows) =
       map_option (\<lambda>r. if p r then f r else r) (find (\<lambda>r. g r = i) rows)"
  by (induction rows) (auto simp: update_where_def)

lemma find_append:
  "find p (xs @ ys) = (case find p xs of None \<Rightarrow> find p ys | Some x \<Rightarrow> Some x)"
  by (induction xs) auto

definition status_of :: "db \<Rightarrow> string \<Rightarrow> status option" where
  "status_of d rid = map_option rn_status (get_run d rid)"

lemma get_run_stamp:
  "get_run (d\<lparr>db_runs := update_where p f (db_runs d)\<rparr>) rid =
     map_option (\<lambda>r. if p r then f r else r) (get_run d rid)"
  if "\<And>r. rn_run_id (f r) = rn_run_id r"
  using that by (simp add: get_run_def find_update_where)

lemma row_count_find: "0 < row_count (run_matches rid from) rows \<longleftrightarrow>
    (\<exists>r \<in> set rows. rn_run_id r = rid \<and> from (rn_status r))"
  by (auto simp: row_count_def run_matches_def filter_empty_conv)

lemma find_unique: "distinct (map g xs) \<Longrightarrow> r \<in> set xs \<Longrightarrow> find (\<lambda>x. g x = g r) xs = Some r"
  by (induction xs) (auto simp: image_iff)

lemma get_run_unique:
  assumes "db_ok d" "r \<in> set (db_runs d)"
  shows "get_run d (rn_run_id r) = Some r"
proof -
  have "distinct (map rn_run_id (db_runs d))" using assms(1) by (simp add: db_ok_def runs_ok_def)
  then show ?thesis using assms(2) unfolding get_run_def by (rule find_unique)
qed

lemma get_run_mem: "get_run d rid = Some r \<Longrightarrow> r \<in> set (db_runs d) \<and> rn_run_id r = rid"
  by (auto simp: get_run_def find_Some_iff)

lemma matched_iff:
  assumes "db_ok d"
  shows "0 < row_count (run_matches rid from) (db_runs d) \<longleftrightarrow>
    (\<exists>r. get_run d rid = Some r \<and> from (rn_status r))"
  unfolding row_count_find using get_run_unique [OF assms] get_run_mem by blast

lemma mark_run_status_eq:
  assumes "db_ok d"
  shows "mark_run_status now rid s md d =
    (case LEGAL_STATUS_TRANSITIONS s of
       None \<Rightarrow> Inl ValueError
     | Some legal_from \<Rightarrow>
         (case get_run d rid of
            None \<Rightarrow> Inl RunRowMissing
          | Some r \<Rightarrow>
              if rn_status r \<in> set legal_from
              then Inr (d\<lparr>db_runs := map (\<lambda>x. if rn_run_id x = rid
                     then (stamp_status now s r)\<lparr>rn_metadata :=
                       if truthy md then pmerge (por (rn_metadata r) (PDict [])) md else rn_metadata r\<rparr>
                     else x) (db_runs d)\<rparr>, True)
              else Inr (d, False)))"
proof (cases "LEGAL_STATUS_TRANSITIONS s")
  case (Some legal_from)
  let ?p = "run_matches rid (\<lambda>x. x \<in> set legal_from)"
  have none: "update_where ?p f (db_runs d) = db_runs d" if "\<not> 0 < row_count ?p (db_runs d)" for f
    using that unfolding row_count_find update_where_def
    by (intro map_idI) (auto simp: run_matches_def)
  show ?thesis
  proof (cases "get_run d rid")
    case None
    then have "\<not> 0 < row_count ?p (db_runs d)" using matched_iff [OF assms] by auto
    with Some None show ?thesis by (simp add: mark_run_status_def Let_def)
  next
    case (Some r)
    have same: "x = r" if "x \<in> set (db_runs d)" "rn_run_id x = rid" for x
      using get_run_unique [OF assms that(1)] that(2) Some by simp
    show ?thesis
    proof (cases "rn_status r \<in> set legal_from")
      case True
      then have "0 < row_count ?p (db_runs d)" using matched_iff [OF assms] Some by blast
      moreover have "update_where ?p f (db_runs d) = map (\<lambda>x. if rn_run_id x = rid then f r else x) (db_runs d)" for f
        unfolding update_where_def using same True by (intro map_cong) (auto simp: run_matches_def)
      ultimately show ?thesis
        using \<open>LEGAL_STATUS_TRANSITIONS s = Some legal_from\<close> Some True
        by (simp add: mark_run_status_def Let_def merge_run_metadata_def cong: if_cong)
    next
      case False
      then have n: "\<not> 0 < row_count ?p (db_runs d)" using matched_iff [OF assms] Some by auto
      show ?thesis
        using \<open>LEGAL_STATUS_TRANSITIONS s = Some legal_from\<close> Some False n none [OF n]
        by (simp add: mark_run_status_def Let_def)
    qed
  qed
qed (simp add: mark_run_status_def)

text \<open>\<open>mark_run_status\<close> is the run-status state machine. On a consistent record it refuses to write
  \<open>queued\<close> (\<open>ValueError\<close>) and an unknown run (\<open>RunRowMissing\<close>); otherwise it applies the
  transition exactly when the current status is a legal predecessor, and says so. When it applies,
  this run's status, activity time, the matching one of its two timestamps and its merged metadata are
  written and every other run keeps its row; when it does not, nothing changes.\<close>

theorem status_transition:
  assumes "db_ok d"
  shows "mark_run_status now rid s md d =
    (case LEGAL_STATUS_TRANSITIONS s of
       None \<Rightarrow> Inl ValueError
     | Some legal_from \<Rightarrow>
         (case get_run d rid of
            None \<Rightarrow> Inl RunRowMissing
          | Some r \<Rightarrow>
              if rn_status r \<in> set legal_from
              then Inr (d\<lparr>db_runs := map (\<lambda>x. if rn_run_id x = rid
                     then (stamp_status now s r)\<lparr>rn_metadata :=
                       if truthy md then pmerge (por (rn_metadata r) (PDict [])) md else rn_metadata r\<rparr>
                     else x) (db_runs d)\<rparr>, True)
              else Inr (d, False)))"
  by (rule mark_run_status_eq [OF assms])

lemma status_transition_witness:
  "mark_run_status 9 ''r1'' Completed PNone demo_run = Inr (demo_run, False) \<and>
   (\<exists>d. mark_run_status 9 ''r1'' Running PNone demo_run = Inr (d, True))"
proof -
  have ok: "db_ok demo_run" by (rule constraints.holds [OF reach_demo])
  have "status_of demo_run ''r1'' = Some Queued" by code_simp
  then obtain r where "get_run demo_run ''r1'' = Some r" "rn_status r = Queued"
    by (auto simp: status_of_def)
  with status_transition [OF ok, of 9 "''r1''" Completed PNone]
    status_transition [OF ok, of 9 "''r1''" Running PNone] show ?thesis by simp
qed

definition terminal :: "status \<Rightarrow> bool" where
  "terminal s \<longleftrightarrow> s \<in> {Completed, Failed, Cancelled}"

text \<open>Where a run's status can go in one write.\<close>

definition moves_to :: "status \<Rightarrow> status \<Rightarrow> bool" where
  "moves_to s s' \<longleftrightarrow> s' = s \<or> (\<exists>from. LEGAL_STATUS_TRANSITIONS s' = Some from \<and> s \<in> set from)"

lemma moves_refl' [simp]: "moves_to s s"
  by (simp add: moves_to_def)

lemma moves_from_terminal: "terminal s \<Longrightarrow> moves_to s s' \<Longrightarrow> s' = s"
  by (cases s') (auto simp: terminal_def moves_to_def)

lemma mark_status_of:
  assumes "mark_run_status now rid s md d = Inr (d', ok)" "get_run d i = Some r"
  shows "\<exists>r'. get_run d' i = Some r' \<and> moves_to (rn_status r) (rn_status r')
    \<and> rn_head_key r' = rn_head_key r"
proof -
  from assms(1) obtain legal md' where l: "LEGAL_STATUS_TRANSITIONS s = Some legal"
    "d' = d\<lparr>db_runs := update_where (run_matches rid (\<lambda>x. x \<in> set legal))
       (\<lambda>r. (stamp_status now s r)\<lparr>rn_metadata := if truthy md then md' else rn_metadata r\<rparr>) (db_runs d)\<rparr>"
    by (auto simp: mark_run_status_def Let_def split: option.splits if_splits)
  with assms(2) show ?thesis
    by (auto simp: get_run_stamp moves_to_def run_matches_def)
qed

lemma fail_one_status:
  assumes "get_run d i = Some r" "\<And>x. p x \<Longrightarrow> rn_status x \<in> {Queued, Running, Cancelling, InputRequired}"
  shows "\<exists>r'. get_run (fst (fail_one now p reason row d)) i = Some r' \<and>
    moves_to (rn_status r) (rn_status r') \<and> rn_head_key r' = rn_head_key r"
  using assms(1) assms(2) [of r]
  by (auto simp: fail_one_def Let_def get_run_stamp moves_to_def)

lemma moves_to_Failed: "moves_to s Failed \<longleftrightarrow> \<not> terminal s \<or> s = Failed"
  by (cases s) (auto simp: moves_to_def terminal_def)

lemma fail_rows_status:
  assumes "\<And>x. p x \<Longrightarrow> rn_status x \<in> {Queued, Running, Cancelling, InputRequired}"
  shows "get_run d i = Some r \<Longrightarrow>
    \<exists>r'. get_run (fst (fail_rows now p reason rows d)) i = Some r' \<and>
      (rn_status r' = rn_status r \<or> rn_status r' = Failed \<and> \<not> terminal (rn_status r)) \<and>
      rn_head_key r' = rn_head_key r"
proof (induction rows arbitrary: d r)
  case (Cons row rows)
  obtain d1 hit where o: "fail_one now p reason row d = (d1, hit)" by (cases "fail_one now p reason row d")
  have "\<exists>r1. get_run d1 i = Some r1 \<and>
      (rn_status r1 = rn_status r \<or> rn_status r1 = Failed \<and> \<not> terminal (rn_status r)) \<and>
      rn_head_key r1 = rn_head_key r"
    using Cons.prems o assms [of r]
    by (auto simp: fail_one_def Let_def get_run_stamp terminal_def)
  then obtain r1 where r1: "get_run d1 i = Some r1"
      "rn_status r1 = rn_status r \<or> rn_status r1 = Failed \<and> \<not> terminal (rn_status r)"
      "rn_head_key r1 = rn_head_key r" by blast
  from Cons.IH [OF r1(1)] r1(2,3) show ?case
    by (auto simp: o Let_def terminal_def split: prod.split)
qed simp

lemma fail_runs_status:
  assumes "\<And>x. p x \<Longrightarrow> rn_status x \<in> {Queued, Running, Cancelling, InputRequired}" "get_run d i = Some r"
  shows "\<exists>r'. get_run (fst (fail_runs now p reason d)) i = Some r' \<and>
    moves_to (rn_status r) (rn_status r') \<and> rn_head_key r' = rn_head_key r"
  using fail_rows_status [of p d i r now reason "filter p (db_runs d)"] assms
  by (auto simp: fail_runs_def moves_to_Failed)

text \<open>Writes to the other tables leave the runs alone.\<close>

lemma runs_upsert_agent [simp]: "db_runs (upsert_agent r d) = db_runs d"
  by (simp add: upsert_agent_def)

lemma runs_register_entries: "register_entries now k batch d = Inr (d', refs) \<Longrightarrow> db_runs d' = db_runs d"
  by (induction batch arbitrary: d refs) auto

lemma runs_ensure_provider: "ensure_provider C now k d = Inr d' \<Longrightarrow> db_runs d' = db_runs d"
  by (auto simp: ensure_provider_def split: if_splits)

lemma runs_register_agents: "register_agents C now k batch n d = Inr (d', refs) \<Longrightarrow> db_runs d' = db_runs d"
  by (auto simp: register_agents_def set_provider_name_def split: option.splits
      dest!: runs_ensure_provider runs_register_entries)

lemma runs_offerings: "db_runs (fst (register_offerings now k md names d)) = db_runs d"
proof (induction names arbitrary: d)
  case (Cons n names)
  have up: "db_runs (upsert_llm r d) = db_runs d" for r by (simp add: upsert_llm_def)
  show ?case using Cons by (simp add: Let_def up case_prod_beta)
qed simp

lemma runs_register_llm:
  "register_llm_providers C now k names md d = Inr (d', refs) \<Longrightarrow> db_runs d' = db_runs d"
proof -
  assume "register_llm_providers C now k names md d = Inr (d', refs)"
  then obtain d1 where d1: "ensure_provider C now k d = Inr d1"
    and d': "register_offerings now k md names d1 = (d', refs)"
    by (auto simp: register_llm_providers_def)
  from runs_offerings [of now k md names d1] d' have "db_runs d' = db_runs d1" by simp
  with runs_ensure_provider [OF d1] show "db_runs d' = db_runs d" by simp
qed

lemma runs_ensure_thread:
  "ensure_thread now fresh ag tid parent md create hk d = Inr (d', t) \<Longrightarrow> db_runs d' = db_runs d"
  by (auto simp: ensure_thread_def create_thread_def insert_thread_def split: option.splits if_splits)

lemma runs_append_messages:
  "append_thread_messages now tid rid ms d = Inr (d', stored) \<Longrightarrow> db_runs d' = db_runs d"
proof (induction ms arbitrary: d stored)
  case (Cons m ms)
  then show ?case by (cases m) (auto simp: Let_def insert_message_def split: if_splits)
qed simp

lemma get_run_same: "db_runs d' = db_runs d \<Longrightarrow> get_run d' i = get_run d i"
  by (simp add: get_run_def)

text \<open>C12: Statuses only move along the state machine. In one write of any kind a recorded run keeps its row
  (runs are never deleted) and its segment head, and its status stays or moves along a legal
  transition, except that \<open>reopen_run\<close> on this very run puts it back to \<open>queued\<close>. In particular a
  completed, failed or cancelled run is changed by no status write and by none of the three sweeps.\<close>

theorem statuses_move_along_the_machine:
  assumes "repo_step C d d'" "get_run d i = Some r"
  shows "\<exists>r'. get_run d' i = Some r' \<and> rn_head_key r' = rn_head_key r \<and>
    (moves_to (rn_status r) (rn_status r') \<and> (terminal (rn_status r) \<longrightarrow> rn_status r' = rn_status r)
     \<or> rn_status r' = Queued \<and> (\<exists>now inp md expected. d' = fst (reopen_run now i inp md expected d)))"
proof -
  have keep: ?thesis if "get_run d' i = Some r'" "rn_head_key r' = rn_head_key r"
      "moves_to (rn_status r) (rn_status r')" for r'
    using that(1,3) that(2) moves_from_terminal [OF _ that(3)] by blast
  have same: ?thesis if "db_runs d' = db_runs d"
    using assms(2) get_run_same [OF that, of i] by (intro keep [of r]) simp_all
  have sweep: ?thesis if "d' = fst (fail_runs now p reason d)"
      "\<And>x. p x \<Longrightarrow> rn_status x \<in> {Queued, Running, Cancelling, InputRequired}" for now p reason
    using fail_runs_status [of p, OF that(2) assms(2)] keep unfolding that(1) by blast
  from assms(1) show ?thesis
  proof (cases rule: repo_step.cases)
    case (p_create_run now fresh tid ag prot inp md hk rid)
    then have "get_run d' i = get_run d i"
      using assms(2) by (auto simp: create_run_def insert_run_def get_run_def find_append split: if_splits)
    with assms(2) show ?thesis using keep [of r] by simp
  next
    case (p_reopen now rid inp md expected)
    have g: "get_run d' i = map_option (\<lambda>x. if run_matches rid (\<lambda>s. case expected of None \<Rightarrow> True | Some e \<Rightarrow> s = e) x
        then x\<lparr>rn_status := Queued, rn_input_json := inp, rn_last_activity_at := Some now,
               rn_metadata := if truthy md then merge_run_metadata d rid md else rn_metadata x\<rparr> else x)
        (get_run d i)"
      unfolding p_reopen reopen_run_def Let_def fst_conv by (rule get_run_stamp) simp
    show ?thesis
    proof (cases "run_matches rid (\<lambda>s. case expected of None \<Rightarrow> True | Some e \<Rightarrow> s = e) r")
      case True
      then have "rid = i" using get_run_mem [OF assms(2)] by (simp add: run_matches_def)
      with g assms(2) True p_reopen show ?thesis by auto
    next
      case False
      with g assms(2) show ?thesis using keep [of r] by simp
    qed
  next
    case (p_mark now rid s md ok)
    from mark_status_of [OF p_mark assms(2)] show ?thesis using keep by blast
  next
    case (p_touch_run now rid)
    then have "get_run d' i = map_option (\<lambda>x. if rn_run_id x = rid then x\<lparr>rn_last_activity_at := Some now\<rparr> else x)
        (get_run d i)"
      unfolding touch_run_activity_def by (simp add: get_run_stamp)
    with assms(2) show ?thesis using keep by auto
  next
    case (p_orphaned now)
    show ?thesis by (rule sweep [OF p_orphaned [unfolded fail_orphaned_runs_def]]) auto
  next
    case (p_stalled now timeout)
    show ?thesis by (rule sweep [OF p_stalled [unfolded fail_stalled_runs_def]]) auto
  next
    case (p_paused now timeout)
    show ?thesis by (rule sweep [OF p_paused [unfolded fail_stale_paused_runs_def]]) auto
  qed (rule same; auto simp: touch_agents_def touch_llm_providers_def delete_llm_provider_def
        delete_agent_def append_run_event_def insert_event_def split: if_splits
        dest: runs_register_agents runs_register_llm runs_ensure_thread runs_append_messages)+
qed

lemma statuses_move_along_the_machine_witness:
  "\<exists>r r'. get_run demo_run ''r1'' = Some r \<and> get_run (fst (fail_orphaned_runs 9 demo_run)) ''r1'' = Some r'
     \<and> rn_head_key r' = rn_head_key r
     \<and> (moves_to (rn_status r) (rn_status r') \<and> (terminal (rn_status r) \<longrightarrow> rn_status r' = rn_status r)
     \<or> rn_status r' = Queued \<and> (\<exists>now inp md expected.
          fst (fail_orphaned_runs 9 demo_run) = fst (reopen_run now ''r1'' inp md expected demo_run)))"
proof -
  have "get_run demo_run ''r1'' \<noteq> None" by code_simp
  then obtain r where "get_run demo_run ''r1'' = Some r" by blast
  with statuses_move_along_the_machine [OF p_orphaned [of demo_scheme demo_run 9] this] show ?thesis
    by blast
qed

end
