(* ===== verification/RosterClaims.thy ===== *)
theory RosterClaims
  imports RosterLaws SdkLinks SignatureClaims RepoClaims
begin

text \<open>
  What the rosters promise, over both hosts: nobody serves a name without a live challenge answered
  under the registered key, proofs do not replay, a registration and a detach take down exactly what
  they should, and the in-process links complete the handshake with the funduq they are pinned to
  and with no other.
\<close>

subsection \<open>Attaching\<close>

text \<open>C20: Whoever is attached proved it. After a successful attach some names were given, every one of
  them is registered under the connection's key, and the connection signed, under that key, this
  funduq's own key with a challenge that was out and fresh (or minted in this very call) and those
  names; the challenge is spent, the answer is funduq's own signature where it has an identity, and
  the live table changed for exactly those names.\<close>

theorem attached_providers_proved_themselves:
  assumes "attach_provider C ck I face connection names minted offer w = (w', Inr answer)"
  shows "names \<noteq> [] \<and> set names \<subseteq> get_agent_names_for_provider (w_db w) (c_public_key connection)
    \<and> (\<exists>c nonce p. proof_presented (ck_time ck) I face names minted offer w c nonce p
        \<and> verify_signature C (c_public_key connection) p
            (provider_connect_signing_payload (own_key I) c nonce names)
        \<and> answer = map_option (\<lambda>i. sign C i (funduq_connect_signing_payload c nonce)) I
        \<and> dget (c_challenges w') c = None)
    \<and> (\<forall>agent. serving (w_broker w') agent =
        (if ar_provider_key agent = c_public_key connection \<and> ar_name agent \<in> set names
         then Some connection else serving (w_broker w) agent))"
proof -
  note e = assms [unfolded attach_provider_def]
  show ?thesis by (rule agents.attach_effect [OF e]) auto
qed

text \<open>What may happen to the challenges meanwhile: minting others, taking any back, and everything that
  leaves them alone.\<close>

inductive elapses :: "string \<Rightarrow> core \<Rightarrow> core \<Rightarrow> bool" for c where
  nothing: "elapses c w w"
| other: "elapses c w v \<Longrightarrow> c_challenges v' = c_challenges v \<Longrightarrow> elapses c w v'"
| issued: "elapses c w v \<Longrightarrow> n \<noteq> c \<Longrightarrow> elapses c w (issue_connect_challenge now n v)"
| consumed: "elapses c w v \<Longrightarrow> elapses c w (snd (consume_connect_challenge now n v))"

lemma elapses_spent:
  "elapses c w v \<Longrightarrow> dget (c_challenges w) c = None \<Longrightarrow> dget (c_challenges v) c = None"
proof (induction rule: elapses.induct)
  case (issued w v n now)
  then show ?case by (auto simp: issue_connect_challenge_def dget_None_iff)
qed (simp_all add: consume_connect_challenge_def)

text \<open>Attaching is one of the things that may happen.\<close>

lemma connect_proof_state:
  "fst (connect_proof now I face names minted offer w) = w \<or>
   fst (connect_proof now I face names minted offer w) = issue_connect_challenge now (fst minted) w"
  by (cases offer; cases minted) (auto simp: connect_proof_def split: option.split)

lemma attach_elapses:
  assumes "\<And>m w. c_challenges (ro_write_live R m w) = c_challenges w" "fst minted \<noteq> c"
  shows "elapses c w (fst (roster_attach C ck I R face connection names minted offer w))"
proof (cases "names = []")
  case True
  then show ?thesis by (simp add: roster_attach_def elapses.nothing)
next
  case False
  obtain w1 res where cp: "connect_proof (ck_time ck) I face names minted offer w = (w1, res)"
    by fastforce
  have w1: "elapses c w w1"
    using connect_proof_state [of "ck_time ck" I face names minted offer w] cp
      elapses.issued [OF elapses.nothing assms(2)] elapses.nothing by auto
  let ?w' = "fst (roster_attach C ck I R face connection names minted offer w)"
  show ?thesis
  proof (cases "\<exists>ch n p. res = Inr (Some ch, n, Some p)")
    case True
    then obtain ch n p where res: "res = Inr (Some ch, n, Some p)" by blast
    have "c_challenges ?w' = c_challenges (snd (consume_connect_challenge (ck_time ck) ch w1))"
      using False assms(1)
      by (auto simp: roster_attach_def cp res Let_def notify_change_def consume_connect_challenge_def
          split: option.split sum.split)
    then show ?thesis by (rule elapses.other [OF elapses.consumed [OF w1]])
  next
    case False
    then have "?w' = w1"
      using \<open>names \<noteq> []\<close> by (auto simp: roster_attach_def cp split: sum.split option.split prod.split)
    with w1 show ?thesis by simp
  qed
qed

lemma attach_spends:
  assumes "\<And>m w. c_challenges (ro_write_live R m w) = c_challenges w" "names \<noteq> []"
  shows "dget (c_challenges (fst (roster_attach C ck I R face connection names minted (Some c, n, Some p) w))) c = None"
  using assms
  by (auto simp: roster_attach_def connect_proof_def Let_def notify_change_def consume_connect_challenge_def
      split: option.split sum.split)


lemma elapses_attaches:
  assumes "fst minted \<noteq> c"
  shows "elapses c w (fst (attach_provider C ck I face connection names minted offer w))"
    "elapses c w (fst (attach_llm_provider C ck I face link names minted offer w))"
  unfolding attach_provider_def attach_llm_provider_def
  by (rule attach_elapses [OF _ assms], simp)+

subsection \<open>The in-process handshake\<close>

lemma handshake_payloads:
  "sdk_provider_connect_payload fk fn pn names = provider_connect_signing_payload fk fn pn names"
  "sdk_funduq_connect_payload fn pn = funduq_connect_signing_payload fn pn"
  by (simp_all add: payload_defs sdk_payload_defs tag_defs)

lemma fresh_challenge_consumed:
  "fst (consume_connect_challenge now c (issue_connect_challenge now c w))"
  by (simp add: consume_connect_challenge_def issue_connect_challenge_def SIGNATURE_FRESHNESS_WINDOW_SECONDS_def)

text \<open>Both halves over either roster.\<close>

lemma handshake_completes:
  assumes "crypto_ok C" "names \<noteq> []" "il_identity L = identity_of C s"
    "ro_public_key R connection = id_public_key (identity_of C s)"
    "set names \<subseteq> ro_registered_names R (w_db w) (ro_public_key R connection)"
    "il_funduq_public_key L = None \<or>
     (\<exists>f. I = Some (identity_of C f) \<and> il_funduq_public_key L = Some (id_public_key (identity_of C f)))"
  shows "snd (roster_attach C ck I R (link_face C L) connection names (c, n) (None, None, None) w) =
    Inr (map_option (\<lambda>i. sign C i (funduq_connect_signing_payload c n)) I)"
proof -
  have pin: "link_sign_connect C L (own_key I) c n names =
      Inr (sign_connect C (identity_of C s) (own_key I) c n names)"
    using assms(3,6) by (auto simp: link_sign_connect_def own_key_def identity_public_key_def)
  have confirm: "link_confirm_connect C L c n (map_option (\<lambda>i. sign C i (funduq_connect_signing_payload c n)) I) = Inr ()"
    using assms(1,6) by (auto simp: link_confirm_connect_def handshake_payloads)
  have w_db: "w_db (issue_connect_challenge t c w) = w_db w" for t
    by (simp add: issue_connect_challenge_def)
  show ?thesis
    using assms(1,2,4,5) fresh_challenge_consumed [of "ck_time ck" c w] pin confirm
    by (simp add: roster_attach_def connect_proof_def link_face_def consume_connect_challenge_def w_db opt_text_def
        sign_connect_def handshake_payloads Let_def)
qed

lemma handshake_refuses:
  assumes "names \<noteq> []" "il_funduq_public_key L = Some pin" "pin \<noteq> own_key I"
  shows "roster_attach C ck I R (link_face C L) connection names (c, n) (None, None, None) w =
    (issue_connect_challenge (ck_time ck) c w, Inl WrongFunduq)"
  using assms by (simp add: roster_attach_def connect_proof_def link_face_def link_sign_connect_def)

text \<open>The in-process link, unaltered, attaches to the right funduq and to no other. A link that is
  unpinned, or pinned to this funduq's key, completes the handshake for names registered under its
  own key and is handed funduq's signature; one pinned to another key raises WrongFunduq before it
  signs anything, and nothing but the unused challenge is left of the attempt.\<close>

theorem in_process_links_shake_hands:
  assumes "crypto_ok C" "names \<noteq> []" "c_public_key connection = id_public_key (identity_of C s)"
    "set names \<subseteq> get_agent_names_for_provider (w_db w) (c_public_key connection)"
  defines "L \<equiv> \<lambda>I pinned. in_process_link (identity_of C s) pinned (identity_public_key I)"
  shows "(I = map_option (identity_of C) f \<and> pinned \<in> {None, identity_public_key I} \<longrightarrow>
      snd (attach_provider C ck I (link_face C (L I pinned)) connection names (c, n) (None, None, None) w) =
        Inr (map_option (\<lambda>i. sign C i (funduq_connect_signing_payload c n)) I))
    \<and> (pinned = Some (x # xs) \<and> pinned \<noteq> identity_public_key I \<longrightarrow>
      attach_provider C ck I (link_face C (L I pinned)) connection names (c, n) (None, None, None) w =
        (issue_connect_challenge (ck_time ck) c w, Inl WrongFunduq))"
proof (intro conjI impI; elim conjE)
  assume I: "I = map_option (identity_of C) f" and p: "pinned \<in> {None, identity_public_key I}"
  have "il_funduq_public_key (L I pinned) = identity_public_key I"
    using p by (auto simp: L_def in_process_link_def split: option.split)
  then have pin: "il_funduq_public_key (L I pinned) = None \<or>
      (\<exists>f. I = Some (identity_of C f) \<and> il_funduq_public_key (L I pinned) = Some (id_public_key (identity_of C f)))"
    using I by (cases f) (auto simp: identity_public_key_def)
  show "snd (attach_provider C ck I (link_face C (L I pinned)) connection names (c, n) (None, None, None) w) =
        Inr (map_option (\<lambda>i. sign C i (funduq_connect_signing_payload c n)) I)"
    unfolding attach_provider_def
    by (rule handshake_completes [OF assms(1,2) _ _ _ pin, where s = s])
      (use assms(3,4) in \<open>simp_all add: L_def in_process_link_def\<close>)
next
  assume "pinned = Some (x # xs)" "pinned \<noteq> identity_public_key I"
  then show "attach_provider C ck I (link_face C (L I pinned)) connection names (c, n) (None, None, None) w =
        (issue_connect_challenge (ck_time ck) c w, Inl WrongFunduq)"
    unfolding attach_provider_def
    by (intro handshake_refuses [OF assms(2), where pin = "x # xs"])
      (auto simp: L_def in_process_link_def own_key_def split: option.split)
qed

text \<open>The demonstration: one registered agent, a link that signs for itself, a funduq without a key.\<close>

definition demo_core :: core where
  "demo_core = \<lparr>w_db = demo_registered, w_broker = start (new_broker None), w_changes = [], w_cancels = [],
     c_relay = new_kyok_relay, c_challenges = [], c_started = True, c_sweeping = True\<rparr>"

definition demo_connection :: connection where
  "demo_connection = \<lparr>c_id = 0, c_public_key = ''6b'', c_max_concurrent_runs = None\<rparr>"

definition demo_face :: connect_face where
  "demo_face = link_face toy_crypto (in_process_link (identity_of toy_crypto ''k'') None None)"

definition demo_clock :: clock where
  "demo_clock = \<lparr>ck_time = 100, ck_now = 100000000\<rparr>"

definition demo_attached :: core where
  "demo_attached = fst (attach_provider toy_crypto demo_clock None demo_face demo_connection [''a''] (''c'', ''n'')
     (None, None, None) demo_core)"

lemma demo_key: "c_public_key demo_connection = id_public_key (identity_of toy_crypto ''k'')"
  "get_agent_names_for_provider (w_db demo_core) ''6b'' = {''a''}"
  by code_simp+

lemma in_process_links_shake_hands_witness:
  "snd (attach_provider toy_crypto demo_clock None demo_face demo_connection [''a''] (''c'', ''n'')
     (None, None, None) demo_core) = Inr None"
proof -
  have "set [''a''] \<subseteq> get_agent_names_for_provider (w_db demo_core) (c_public_key demo_connection)"
    using demo_key(2) by (simp add: demo_connection_def)
  from in_process_links_shake_hands [OF toy_crypto_ok _ demo_key(1) this, where I = None and f = None and pinned = None
      and ck = demo_clock and c = "''c''" and n = "''n''"]
  show ?thesis by (simp add: demo_face_def identity_public_key_def)
qed

lemma demo_attach:
  "attach_provider toy_crypto demo_clock None demo_face demo_connection [''a''] (''c'', ''n'')
     (None, None, None) demo_core = (demo_attached, Inr None)"
proof -
  have n: "set [''a''] \<subseteq> ro_registered_names agent_roster (w_db demo_core) (ro_public_key agent_roster demo_connection)"
    using demo_key(2) by (simp add: demo_connection_def)
  have "snd (attach_provider toy_crypto demo_clock None demo_face demo_connection [''a''] (''c'', ''n'')
     (None, None, None) demo_core) = Inr None"
    unfolding attach_provider_def demo_face_def
    by (subst handshake_completes [OF toy_crypto_ok _ _ _ n, where s = "''k''"])
      (use demo_key(1) in \<open>simp_all add: in_process_link_def\<close>)
  then show ?thesis unfolding demo_attached_def by (cases "attach_provider toy_crypto demo_clock None demo_face
    demo_connection [''a''] (''c'', ''n'') (None, None, None) demo_core") simp
qed

lemma attached_providers_proved_themselves_witness:
  "serving (w_broker demo_attached) demo_ref = Some demo_connection"
proof -
  have "\<forall>agent. serving (w_broker demo_attached) agent =
        (if ar_provider_key agent = c_public_key demo_connection \<and> ar_name agent \<in> set [''a'']
         then Some demo_connection else serving (w_broker demo_core) agent)"
    using attached_providers_proved_themselves [OF demo_attach] by blast
  then show ?thesis by (simp add: demo_ref_def demo_connection_def)
qed


subsection \<open>Registering\<close>

lemma names_of_Inr: "names_of vs = Inr ns \<Longrightarrow> vs = map PStr ns"
  by (induction vs arbitrary: ns rule: names_of.induct) auto

lemma names_keys:
  "get_agent_names_for_provider d k = {n. \<lparr>ar_provider_key = k, ar_name = n\<rparr> \<in> agent_keys d}"
  by (force simp: get_agent_names_for_provider_def agent_keys_def agent_key_def)

lemma keys_upsert: "agent_keys (upsert_agent r d) = insert (agent_key r) (agent_keys d)"
proof (cases "agent_key r \<in> agent_keys d")
  case True
  have "map agent_key (update_where (\<lambda>x. agent_key x = agent_key r)
      (\<lambda>x. x\<lparr>ag_card := ag_card r, ag_metadata := ag_metadata r, ag_last_seen_at := ag_last_seen_at r\<rparr>) (db_agents d))
    = map agent_key (db_agents d)"
    by (rule map_update_where) (simp add: agent_key_def)
  with True show ?thesis by (simp add: upsert_agent_def agent_keys_def insert_absorb del: set_map list.set_map)
qed (simp add: upsert_agent_def agent_keys_def)

lemma names_upsert:
  "get_agent_names_for_provider (upsert_agent r d) k =
     (if ag_provider_key r = k then insert (ag_name r) (get_agent_names_for_provider d k)
      else get_agent_names_for_provider d k)"
  by (auto simp: names_keys keys_upsert agent_key_def)

lemma names_ensure_provider: "ensure_provider C now k d = Inr d' \<Longrightarrow>
    get_agent_names_for_provider d' j = get_agent_names_for_provider d j"
  by (auto simp: ensure_provider_def get_agent_names_for_provider_def split: if_splits)

lemma register_entries_names:
  "register_entries now k batch d = Inr (d', refs) \<Longrightarrow>
     traverseR (\<lambda>a. pindex a ''name'') batch = Inr (map PStr names) \<Longrightarrow>
     set (dkeys refs) = set names \<and>
     get_agent_names_for_provider d' k = get_agent_names_for_provider d k \<union> set names"
proof (induction now k batch d arbitrary: d' refs names rule: register_entries.induct)
  case (2 now k agent agents d)
  from 2(3) obtain n ns where n: "names = n # ns" "pindex agent ''name'' = Inr (PStr n)"
      "traverseR (\<lambda>a. pindex a ''name'') agents = Inr (map PStr ns)"
    by (cases names) auto
  from 2(2) n obtain card d1 refs1 where
      c: "entry_card agent n = Inr card" and
      r: "register_entries now k agents (upsert_agent \<lparr>ag_provider_key = k, ag_name = n, ag_card = card,
                 ag_metadata = pget_or agent ''metadata'' (PDict []), ag_joined_at = now,
                 ag_last_seen_at = now\<rparr> d) = Inr (d', refs1)"
      and refs: "refs = (n, \<lparr>ar_provider_key = k, ar_name = n\<rparr>) # dpop n refs1"
    by (auto simp: entry_name_def)
  from 2(1) [OF r n(3)] show ?case
    by (auto simp: refs n(1) names_upsert)
qed auto

lemma register_agents_names:
  assumes "register_agents C now k batch pname d = Inr (d', refs)"
    "traverseR (\<lambda>a. pindex a ''name'') batch = Inr (map PStr names)"
  shows "set (dkeys refs) = set names \<and>
     get_agent_names_for_provider d' k = get_agent_names_for_provider d k \<union> set names"
proof -
  from assms(1) obtain d1 where d1: "ensure_provider C now k d = Inr d1"
      "register_entries now k batch (case pname of None \<Rightarrow> d1 | Some n \<Rightarrow> set_provider_name now k n d1) = Inr (d', refs)"
    by (auto simp: register_agents_def)
  moreover have "get_agent_names_for_provider (case pname of None \<Rightarrow> d1 | Some n \<Rightarrow> set_provider_name now k n d1) k
      = get_agent_names_for_provider d k"
    using names_ensure_provider [OF d1(1), of k]
    by (simp add: set_provider_name_def get_agent_names_for_provider_def split: option.split)
  ultimately show ?thesis using register_entries_names [OF d1(2) assms(2)] by simp
qed

text \<open>C36: A registration is signed, adds, and withdraws. When registering agents succeeds, every entry had
  a string name, the timestamp was fresh and the key signed exactly those names; the key's registered
  names are the old ones and these; and of the live table exactly the key's served names that the
  batch leaves out are gone.\<close>

theorem registrations_withdraw_the_omitted:
  assumes "core_register_agents C ck key sig ts agents pname w = Inr (w', refs)"
  shows "\<exists>names. traverseR (\<lambda>a. pindex a ''name'') agents = Inr (map PStr names)
    \<and> is_timestamp_fresh (ck_time ck) ts
    \<and> verify_signature C key sig (registration_signing_payload names ts)
    \<and> set (dkeys refs) = set names
    \<and> get_agent_names_for_provider (w_db w') key = get_agent_names_for_provider (w_db w) key \<union> set names
    \<and> (\<forall>agent. serving (w_broker w') agent =
          (if ar_provider_key agent = key \<and> ar_name agent \<notin> set names then None else serving (w_broker w) agent))"
proof -
  from assms obtain vs where vs: "traverseR (\<lambda>a. pindex a ''name'') agents = Inr vs"
    "roster_register C ck agent_roster key sig ts vs (register_agents C (ck_now ck) key agents pname) w = Inr (w', refs)"
    by (auto simp: core_register_agents_def)
  obtain names d where r: "names_of vs = Inr names"
      "is_timestamp_fresh (ck_time ck) ts"
      "verify_signature C key sig (registration_signing_payload names ts)"
      "register_agents C (ck_now ck) key agents pname (w_db w) = Inr (d, refs)" "w_db w' = d"
    and live: "\<And>agent. serving (w_broker w') agent =
      (if ar_provider_key agent = key \<and> ar_name agent \<notin> set (dkeys refs) then None
       else serving (w_broker w) agent)"
    by (rule agents.register_effect [OF vs(2), unfolded agent_host_simps]) blast
  have t: "traverseR (\<lambda>a. pindex a ''name'') agents = Inr (map PStr names)"
    using vs(1) names_of_Inr [OF r(1)] by simp
  note n = register_agents_names [OF r(4) t]
  show ?thesis
    using t r(2,3,5) n live by (intro exI [of _ names]) simp
qed

definition demo_registration :: "(core \<times> (string, agent_ref) dict) result" where
  "demo_registration = core_register_agents toy_crypto demo_clock ''6b''
     (sign toy_crypto (identity_of toy_crypto ''k'') (registration_signing_payload [''b''] 100)) 100
     [PDict [(''name'', PStr ''b'')]] None demo_core"

lemma demo_registration_ok: "\<exists>w' refs. demo_registration = Inr (w', refs)"
proof -
  have "case demo_registration of Inr _ \<Rightarrow> True | Inl _ \<Rightarrow> False" by code_simp
  then show ?thesis by (auto split: sum.splits)
qed

lemma registrations_withdraw_the_omitted_witness:
  "\<exists>w' refs names. demo_registration = Inr (w', refs) \<and> set (dkeys refs) = set names \<and>
     get_agent_names_for_provider (w_db w') ''6b'' = {''a''} \<union> set names \<and> names = [''b'']"
proof -
  obtain w' refs where r: "demo_registration = Inr (w', refs)" using demo_registration_ok by blast
  from registrations_withdraw_the_omitted [OF r [unfolded demo_registration_def]] obtain names where
    "traverseR (\<lambda>a. pindex a ''name'') [PDict [(''name'', PStr ''b'')]] = Inr (map PStr names)"
    "set (dkeys refs) = set names"
    "get_agent_names_for_provider (w_db w') ''6b'' = get_agent_names_for_provider (w_db demo_core) ''6b'' \<union> set names"
    by blast
  moreover from this(1) have "names = [''b'']" by (cases names) auto
  ultimately show ?thesis using r demo_key(2) by (intro exI [of _ w'] exI [of _ refs] exI [of _ names]) simp
qed

subsection \<open>Detaching\<close>

text \<open>Cleaning up after a closed link cannot hurt its replacement. Detaching a connection takes down
  exactly the key's names that this very connection serves; when it serves none, nothing at all
  happens and no change is announced; taking a key offline takes down all of its agents and
  offerings and nobody else's.\<close>

theorem detach_spares_a_replacement:
  "(\<forall>agent. serving (w_broker (detach_provider now key connection w)) agent =
      (if ar_provider_key agent = key \<and> serving (w_broker w) agent = Some connection then None
       else serving (w_broker w) agent))
   \<and> ((\<forall>agent. ar_provider_key agent = key \<longrightarrow> serving (w_broker w) agent \<noteq> Some connection) \<longrightarrow>
        detach_provider now key connection w = w)
   \<and> (\<forall>agent ref. is_serving (detach_all_for now key w) agent = (is_serving w agent \<and> ar_provider_key agent \<noteq> key)
        \<and> is_serving_llm (detach_all_for now key w) ref = (is_serving_llm w ref \<and> lf_provider_key ref \<noteq> key))"
proof -
  have 1: "serving (w_broker (detach_provider now key connection w)) agent =
      (if ar_provider_key agent = key \<and> serving (w_broker w) agent = Some connection then None
       else serving (w_broker w) agent)" for agent
    using agents.detach_effect [of now key connection w agent] by (simp add: detach_provider_def)
  have 2: "detach_provider now key connection w = w"
    if "\<forall>agent. ar_provider_key agent = key \<longrightarrow> serving (w_broker w) agent \<noteq> Some connection"
    unfolding detach_provider_def by (rule agents.detach_replaced) (use that in simp)
  have b: "w_broker (roster_detach_all now llm_roster key v) = w_broker v"
    "c_relay (roster_detach_all now agent_roster key v) = c_relay v" for v
    by (simp_all add: roster_detach_all_def Let_def notify_change_def)
  have 3: "is_serving (detach_all_for now key w) agent = (is_serving w agent \<and> ar_provider_key agent \<noteq> key)" for agent
    using agents.detach_all_effect [of now key w agent] by (simp add: detach_all_for_def is_serving_def b)
  have 4: "is_serving_llm (detach_all_for now key w) ref = (is_serving_llm w ref \<and> lf_provider_key ref \<noteq> key)" for ref
    using llms.detach_all_effect [of now key "roster_detach_all now agent_roster key w" ref]
    by (simp add: detach_all_for_def is_serving_llm_def b)
  show ?thesis using 1 2 3 4 by blast
qed

lemma detach_spares_a_replacement_witness:
  "detach_provider 5 ''6b'' demo_connection demo_core = demo_core"
proof -
  have "\<forall>agent. ar_provider_key agent = ''6b'' \<longrightarrow> serving (w_broker demo_core) agent \<noteq> Some demo_connection"
    by (simp add: demo_core_def serving_def lr_serving_def start_def new_broker_def new_live_roster_def)
  with detach_spares_a_replacement [of 5 "''6b''" demo_connection demo_core] show ?thesis by blast
qed

end
