(* ===== verification/RepoHistory.thy ===== *)
theory RepoHistory
  imports RepoClaims
begin

text \<open>
  What the record keeps over time: message and event logs that only grow at their end, threads that
  stay with the agent and the segment head they were opened for, the queue limit, and the guarded
  reopen of a paused run.
\<close>

subsection \<open>Logs\<close>

lemma insort_key_append_last: "f y \<le> f x \<Longrightarrow> insort_key f y (zs @ [x]) = insort_key f y zs @ [x]"
  by (induction zs) auto

lemma sort_key_append_last: "(\<And>y. y \<in> set xs \<Longrightarrow> f y \<le> f x) \<Longrightarrow> sort_key f (xs @ [x]) = sort_key f xs @ [x]"
  by (induction xs) (auto simp: insort_key_append_last)

lemma foldl_max_ge: "(x :: int) \<le> foldl max x ys \<and> (\<forall>y \<in> set ys. y \<le> foldl max x ys)"
proof (induction ys arbitrary: x)
  case (Cons a ys)
  from Cons.IH [of "max x a"] show ?case by auto
qed simp

lemma last_seq_bound:
  "r \<in> set (db_events d) \<Longrightarrow> ev_run_id r = rid \<Longrightarrow> ev_seq r \<le> get_last_event_seq d rid"
proof -
  assume "r \<in> set (db_events d)" "ev_run_id r = rid"
  then have m: "ev_seq r \<in> set (map ev_seq (filter (\<lambda>r. ev_run_id r = rid) (db_events d)))"
    by auto
  show ?thesis
  proof (cases "map ev_seq (filter (\<lambda>r. ev_run_id r = rid) (db_events d))")
    case Nil
    with m show ?thesis by simp
  next
    case (Cons s ss)
    with m have "ev_seq r = s \<or> ev_seq r \<in> set ss" by simp
    then have "ev_seq r \<le> foldl max s ss" using foldl_max_ge [of s ss] by blast
    with Cons show ?thesis by (simp add: get_last_event_seq_def)
  qed
qed

lemma event_log_append:
  assumes "append_run_event now rid seq ev d = Inr d'" "get_last_event_seq d rid < seq"
    "0 \<le> get_last_event_seq d rid"
  shows "get_last_event_seq d' rid = seq
    \<and> (\<forall>n. n < seq \<longrightarrow> get_run_events d' rid n = get_run_events d rid n @ [ev])
    \<and> get_run_events d' rid (get_last_event_seq d rid) = [ev]
    \<and> (\<forall>other n. other \<noteq> rid \<longrightarrow> get_run_events d' other n = get_run_events d other n)"
proof -
  have d': "db_events d' = db_events d @ [\<lparr>ev_id = next_event_id d, ev_run_id = rid, ev_seq = seq,
      ev_event_json = ev, ev_created_at = now\<rparr>]"
    using assms(1) by (auto simp: append_run_event_def insert_event_def split: if_splits)
  have last: "get_last_event_seq d' rid = seq"
    using assms(2,3) unfolding get_last_event_seq_def d'
    by (auto split: list.splits)
  have grow: "get_run_events d' rid n = get_run_events d rid n @ [ev]" if "n < seq" for n
    unfolding get_run_events_def d' using that last_seq_bound [of _ d rid] assms(2)
    by (simp add: sort_key_append_last less_imp_le) (subst sort_key_append_last, fastforce+)
  have "get_run_events d rid (get_last_event_seq d rid) = []"
  proof -
    have "filter (\<lambda>r. ev_run_id r = rid \<and> get_last_event_seq d rid < ev_seq r) (db_events d) = []"
      using last_seq_bound [of _ d rid] by (fastforce simp: filter_empty_conv)
    then show ?thesis unfolding get_run_events_def by (simp only: sort_key_simps list.map)
  qed
  with last grow assms(2) show ?thesis by (auto simp: get_run_events_def d')
qed

text \<open>The event log of a run only grows at its end. Appending an event with a sequence number above
  the last one makes it the last, is seen by a reader at any earlier position after everything that
  reader saw before, and by a reader who was up to date as the only new event; readers of other runs
  see no change.\<close>

theorem event_log_grows_at_the_end:
  assumes "append_run_event now rid seq ev d = Inr d'" "get_last_event_seq d rid < seq"
    "0 \<le> get_last_event_seq d rid"
  shows "get_last_event_seq d' rid = seq
    \<and> (\<forall>n. n < seq \<longrightarrow> get_run_events d' rid n = get_run_events d rid n @ [ev])
    \<and> get_run_events d' rid (get_last_event_seq d rid) = [ev]
    \<and> (\<forall>other n. other \<noteq> rid \<longrightarrow> get_run_events d' other n = get_run_events d other n)"
  using assms by (rule event_log_append)

lemma event_log_grows_at_the_end_witness:
  "\<exists>d'. append_run_event 9 ''r1'' 1 (PStr ''e'') demo_run = Inr d' \<and> get_last_event_seq d' ''r1'' = 1"
proof -
  obtain d' where d': "append_run_event 9 ''r1'' 1 (PStr ''e'') demo_run = Inr d'"
    by (cases "append_run_event 9 ''r1'' 1 (PStr ''e'') demo_run") (code_simp, simp)
  have "get_last_event_seq demo_run ''r1'' = 0" by code_simp
  with event_log_grows_at_the_end [OF d'] d' show ?thesis by simp
qed

lemma message_id_bound: "r \<in> set (db_messages d) \<Longrightarrow> ms_id r \<le> next_message_id d"
proof -
  have "x \<in> set xs \<Longrightarrow> x \<le> foldr max xs (0::nat)" for x xs
    by (induction xs) auto
  then show "r \<in> set (db_messages d) \<Longrightarrow> ms_id r \<le> next_message_id d"
    unfolding next_message_id_def by (metis (no_types) imageI le_SucI set_map)
qed

lemma messages_append:
  assumes "append_thread_messages now tid rid ms d = Inr (d', stored)"
  shows "stored = map (\<lambda>(m, i). pset ''id'' (PStr i) m) ms
    \<and> get_thread_messages d' tid = get_thread_messages d tid @ stored
    \<and> (\<forall>other. other \<noteq> tid \<longrightarrow> get_thread_messages d' other = get_thread_messages d other)"
  using assms
proof (induction ms arbitrary: d stored)
  case (Cons x ms)
  obtain m i where x: "x = (m, i)" by (cases x)
  let ?r = "\<lparr>ms_id = next_message_id d, ms_thread_id = tid, ms_run_id = rid, ms_message_id = i,
      ms_message_json = pset ''id'' (PStr i) m, ms_metadata = pget_or m ''metadata'' (PDict []),
      ms_created_at = now\<rparr>"
  from Cons.prems obtain d1 st where
    ins: "insert_message ?r d = Inr d1" and
    rest: "append_thread_messages now tid rid ms d1 = Inr (d', st)" and
    stored: "stored = pset ''id'' (PStr i) m # st"
    by (auto simp: x Let_def)
  have d1: "db_messages d1 = db_messages d @ [?r]"
    using ins by (auto simp: insert_message_def split: if_splits)
  have here: "get_thread_messages d1 tid = get_thread_messages d tid @ [pset ''id'' (PStr i) m]"
    unfolding get_thread_messages_def d1
    by (simp, subst sort_key_append_last) (auto intro: message_id_bound)
  have other: "get_thread_messages d1 t = get_thread_messages d t" if "t \<noteq> tid" for t
    unfolding get_thread_messages_def d1 using that by simp
  from Cons.IH [OF rest] here other show ?case by (simp add: x stored)
qed simp

text \<open>Messages are stored in the order given, under fresh ids, after everything the thread already
  holds; other threads do not change. What the call returns is exactly what was stored, so the
  provider sees each message as the record has it.\<close>

theorem messages_are_appended_in_order:
  assumes "append_thread_messages now tid rid ms d = Inr (d', stored)"
  shows "stored = map (\<lambda>(m, i). pset ''id'' (PStr i) m) ms
    \<and> get_thread_messages d' tid = get_thread_messages d tid @ stored
    \<and> (\<forall>other. other \<noteq> tid \<longrightarrow> get_thread_messages d' other = get_thread_messages d other)"
  by (rule messages_append [OF assms])

lemma messages_are_appended_in_order_witness:
  "\<exists>d'. append_thread_messages 9 ''t1'' ''r1'' [(PDict [], ''m1''), (PDict [], ''m2'')] demo_run = Inr (d',
       [PDict [(''id'', PStr ''m1'')], PDict [(''id'', PStr ''m2'')]])
     \<and> get_thread_messages d' ''t1'' = [PDict [(''id'', PStr ''m1'')], PDict [(''id'', PStr ''m2'')]]"
proof -
  obtain d' st where d': "append_thread_messages 9 ''t1'' ''r1'' [(PDict [], ''m1''), (PDict [], ''m2'')] demo_run = Inr (d', st)"
    by (cases "append_thread_messages 9 ''t1'' ''r1'' [(PDict [], ''m1''), (PDict [], ''m2'')] demo_run") (code_simp, force)
  have "get_thread_messages demo_run ''t1'' = []" by code_simp
  with messages_are_appended_in_order [OF d'] d' show ?thesis by simp
qed

subsection \<open>Threads\<close>

lemma find_thread_same: "db_threads d' = db_threads d \<Longrightarrow> get_thread d' t = get_thread d t"
  by (simp add: get_thread_def)

lemma threads_upsert [simp]:
  "db_threads (upsert_agent r d) = db_threads d" "db_threads (upsert_llm r' d) = db_threads d"
  by (simp_all add: upsert_agent_def upsert_llm_def)

lemma threads_register_entries:
  "register_entries now k batch d = Inr (d', refs) \<Longrightarrow> db_threads d' = db_threads d"
  by (induction batch arbitrary: d refs) auto

lemma threads_ensure_provider: "ensure_provider C now k d = Inr d' \<Longrightarrow> db_threads d' = db_threads d"
  by (auto simp: ensure_provider_def split: if_splits)

lemma threads_register_agents:
  "register_agents C now k batch n d = Inr (d', refs) \<Longrightarrow> db_threads d' = db_threads d"
  by (auto simp: register_agents_def set_provider_name_def split: option.splits
      dest!: threads_ensure_provider threads_register_entries)

lemma threads_offerings: "db_threads (fst (register_offerings now k md names d)) = db_threads d"
  by (induction names arbitrary: d) (simp_all add: Let_def case_prod_beta)

lemma threads_register_llm:
  "register_llm_providers C now k names md d = Inr (d', refs) \<Longrightarrow> db_threads d' = db_threads d"
  using threads_offerings [of now k md names]
  by (auto simp: register_llm_providers_def dest!: threads_ensure_provider) (metis fst_conv)

lemma threads_append_messages:
  "append_thread_messages now tid rid ms d = Inr (d', stored) \<Longrightarrow> db_threads d' = db_threads d"
proof (induction ms arbitrary: d stored)
  case (Cons m ms)
  then show ?case by (cases m) (auto simp: Let_def insert_message_def split: if_splits)
qed simp

lemma threads_fail_rows: "db_threads (fst (fail_rows now p reason rows d)) = db_threads d"
  by (induction rows arbitrary: d) (simp_all add: Let_def case_prod_beta fail_one_def)

lemma threads_fail_runs [simp]: "db_threads (fst (fail_runs now p reason d)) = db_threads d"
  by (simp add: fail_runs_def threads_fail_rows)

lemma threads_mark: "mark_run_status now rid s md d = Inr (d', ok) \<Longrightarrow> db_threads d' = db_threads d"
  by (auto simp: mark_run_status_def Let_def split: option.splits if_splits)

text \<open>What a thread is bound to.\<close>

definition thread_binding :: "thread_row \<Rightarrow> agent_ref \<times> string option \<times> string option" where
  "thread_binding r = (thread_agent r, th_head_key r, th_parent_thread_id r)"

lemma get_thread_insert:
  assumes "insert_thread r d = Inr d'" "get_thread d t = Some th"
  shows "get_thread d' t = Some th"
  using assms by (auto simp: insert_thread_def get_thread_def find_append split: if_splits option.splits)

lemma get_thread_stamp:
  "get_thread (d\<lparr>db_threads := update_where p f (db_threads d)\<rparr>) t =
     map_option (\<lambda>r. if p r then f r else r) (get_thread d t)"
  if "\<And>r. th_thread_id (f r) = th_thread_id r"
  using that by (simp add: get_thread_def find_update_where)

lemma binding_ensure_thread:
  assumes "ensure_thread now fresh ag tid parent md create hk d = Inr (d', x)" "get_thread d t = Some th"
  shows "\<exists>th'. get_thread d' t = Some th' \<and> thread_binding th' = thread_binding th"
  using assms
  by (auto simp: ensure_thread_def create_thread_def get_thread_stamp
      thread_binding_def thread_agent_def split: option.splits if_splits dest: get_thread_insert)

lemma binding_step:
  assumes "repo_step C d d'" "get_thread d t = Some th"
  shows "\<exists>th'. get_thread d' t = Some th' \<and> thread_binding th' = thread_binding th"
proof -
  have same: ?thesis if "db_threads d' = db_threads d"
    using assms(2) find_thread_same [OF that] by simp
  from assms(1) show ?thesis
  proof (cases rule: repo_step.cases)
    case p_ensure_thread
    then show ?thesis by (rule binding_ensure_thread [OF _ assms(2)])
  qed (rule same; auto simp: touch_agents_def touch_llm_providers_def delete_llm_provider_def
        delete_agent_def append_run_event_def insert_event_def create_run_def insert_run_def
        reopen_run_def Let_def touch_run_activity_def sweep_defs split: if_splits
        dest: threads_register_agents threads_register_llm threads_append_messages threads_mark)+
qed

lemma binding_steps:
  "(repo_step C)\<^sup>*\<^sup>* d d' \<Longrightarrow> get_thread d t = Some th \<Longrightarrow>
     \<exists>th'. get_thread d' t = Some th' \<and> thread_binding th' = thread_binding th"
  by (induction rule: rtranclp_induct) (auto dest!: binding_step)

text \<open>C31: A thread stays with the agent and the segment head it was opened for. However the record is
  written afterwards, a later start on this thread is admitted exactly when it names the same agent
  and, if the thread has a head, comes from that head or from the provider that owns the agent.\<close>

theorem threads_admit_only_their_segment:
  assumes "get_thread d tid = Some th" "(repo_step C)\<^sup>*\<^sup>* d d'"
  shows "(\<exists>d''. ensure_thread now fresh ag (Some tid) parent md create hk d' = Inr (d'', tid)) \<longleftrightarrow>
    thread_agent th = ag \<and>
    (th_head_key th = None \<or> hk = th_head_key th \<or> hk = Some (ar_provider_key ag))"
proof -
  from binding_steps [OF assms(2,1)] obtain th' where
    "get_thread d' tid = Some th'" "thread_agent th' = thread_agent th" "th_head_key th' = th_head_key th"
    by (auto simp: thread_binding_def)
  then show ?thesis by (auto simp: ensure_thread_def)
qed

lemma threads_admit_only_their_segment_witness:
  "\<exists>th. get_thread demo_threaded ''t1'' = Some th \<and> th_head_key th = Some ''head'' \<and>
     \<not> (\<exists>d''. ensure_thread 5 ''t2'' demo_ref (Some ''t1'') None PNone False (Some ''other'') demo_run
          = Inr (d'', ''t1''))"
proof -
  have s: "(repo_step demo_scheme)\<^sup>*\<^sup>* demo_threaded demo_run"
    by (rule r_into_rtranclp, rule p_create_run [OF demo_writes(3)])
  have t: "map_option (\<lambda>th. (th_head_key th, thread_agent th)) (get_thread demo_threaded ''t1'') =
      Some (Some ''head'', demo_ref)" by code_simp
  then obtain th where th: "get_thread demo_threaded ''t1'' = Some th" "th_head_key th = Some ''head''"
    by auto
  have "ar_provider_key demo_ref \<noteq> ''other''" by code_simp
  with threads_admit_only_their_segment [OF th(1) s, of 5 "''t2''" demo_ref None PNone False "Some ''other''"]
    th show ?thesis by simp
qed

subsection \<open>Reopening a paused run\<close>

text \<open>C28: Of two callers that both saw a run paused, one resumes it. After a guarded \<open>reopen_run\<close> has
  taken a run out of a status other than \<open>queued\<close>, a second reopen guarded by the same status
  matches no row: it reports failure and changes nothing, so the first caller's input stays.\<close>

theorem one_resume_wins:
  assumes "db_ok d" "reopen_run now rid inp md (Some s) d = (d1, True)" "s \<noteq> Queued"
  shows "reopen_run now' rid inp' md' (Some s) d1 = (d1, False)
    \<and> (\<exists>r. get_run d1 rid = Some r \<and> rn_status r = Queued \<and> rn_input_json r = inp)"
proof -
  let ?p = "run_matches rid (\<lambda>x. x = s)"
  let ?f = "\<lambda>r. r\<lparr>rn_status := Queued, rn_input_json := inp, rn_last_activity_at := Some now,
      rn_metadata := (if truthy md then merge_run_metadata d rid md else rn_metadata r)\<rparr>"
  have d1: "d1 = d\<lparr>db_runs := update_where ?p ?f (db_runs d)\<rparr>" and hit: "0 < row_count ?p (db_runs d)"
    using assms(2) by (auto simp: reopen_run_def Let_def)
  have none: "\<not> ?p x" if "x \<in> set (db_runs d1)" for x
  proof -
    from that obtain y where "x = (if ?p y then ?f y else y)"
      unfolding d1 update_where_def by (simp del: if_image_distrib add: image_iff) blast
    with assms(3) show ?thesis by (cases "?p y") (simp_all add: run_matches_def)
  qed
  have "row_count ?p (db_runs d1) = 0" using none by (simp add: row_count_def filter_empty_conv)
  moreover have "update_where ?p g (db_runs d1) = db_runs d1" for g
    unfolding update_where_def using none by (intro map_idI) auto
  ultimately have "reopen_run now' rid inp' md' (Some s) d1 = (d1, False)"
    by (simp add: reopen_run_def Let_def)
  moreover have "\<exists>r. get_run d1 rid = Some r \<and> rn_status r = Queued \<and> rn_input_json r = inp"
  proof -
    from hit matched_iff [OF assms(1)] obtain r where r: "get_run d rid = Some r" "rn_status r = s" by auto
    then have "?p r" using get_run_mem [OF r(1)] by (simp add: run_matches_def)
    have "get_run d1 rid = map_option (\<lambda>r. if ?p r then ?f r else r) (get_run d rid)"
      unfolding d1 by (rule get_run_stamp) simp
    with r(1) \<open>?p r\<close> show ?thesis by simp
  qed
  ultimately show ?thesis by blast
qed

definition demo_paused :: db where
  "demo_paused = (case mark_run_status 4 ''r1'' Running PNone demo_run of
     Inr (d, _) \<Rightarrow> (case mark_run_status 5 ''r1'' InputRequired PNone d of Inr (d', _) \<Rightarrow> d' | Inl _ \<Rightarrow> empty_db)
   | Inl _ \<Rightarrow> empty_db)"

lemma ok_demo_paused: "db_ok demo_paused"
proof -
  obtain d ok1 where m: "mark_run_status 4 ''r1'' Running PNone demo_run = Inr (d, ok1)"
    by (cases "mark_run_status 4 ''r1'' Running PNone demo_run") (code_simp, force)
  have d: "db_ok d" by (rule ok_mark [OF m constraints.holds [OF reach_demo]])
  then show ?thesis
    by (auto simp: demo_paused_def m ok_init [unfolded repo_init_def] split: sum.split prod.split dest: ok_mark)
qed

lemma one_resume_wins_witness:
  "snd (reopen_run 6 ''r1'' (PStr ''first'') PNone (Some InputRequired) demo_paused) \<and>
   \<not> snd (reopen_run 7 ''r1'' (PStr ''second'') PNone (Some InputRequired)
       (fst (reopen_run 6 ''r1'' (PStr ''first'') PNone (Some InputRequired) demo_paused)))"
proof -
  have "snd (reopen_run 6 ''r1'' (PStr ''first'') PNone (Some InputRequired) demo_paused)" by code_simp
  then obtain d1 where d1: "reopen_run 6 ''r1'' (PStr ''first'') PNone (Some InputRequired) demo_paused = (d1, True)"
    by (metis (full_types) prod.collapse)
  from one_resume_wins [OF ok_demo_paused d1, of 7 "PStr ''second''" PNone] d1 show ?thesis by simp
qed

end
