(* ===== verification/RelayClaims.thy ===== *)
theory RelayClaims
  imports HandlerClaims
begin

text \<open>
  The relay: what the handlers of a run pass on to its subscribers is, event for event and in order,
  what its log in the record gains, and the run's counter stays at or above the last number stored.
\<close>

subsection \<open>What the steps leave alone\<close>

definition seen_of :: "run \<Rightarrow> string \<times> int \<times> out_item list" where
  "seen_of r = (r_run_id r, r_seq r, r_out_queue r)"

lemma seen_eqD:
  "seen_of r = seen_of r' \<Longrightarrow> r_run_id r = r_run_id r' \<and> r_seq r = r_seq r' \<and> r_out_queue r = r_out_queue r'"
  by (simp add: seen_of_def)

lemma seen_put_cmd [simp]: "seen_of (obj (put_cmd a c b) x) = seen_of (obj b x)"
  unfolding put_cmd_def by (rule obj_upd_same) (simp add: seen_of_def)

lemma seen_push: "seen_of (obj (snd (push now i c b)) x) = seen_of (obj b x)"
  by (auto simp: push_def split: option.split)

lemma length_push: "length (b_objs (snd (push now i c b))) = length (b_objs b)"
  by (auto simp: push_def split: option.split)

lemma events_mark_run_status:
  "mark_run_status now i s md d = Inr (d', ok) \<Longrightarrow> db_events d' = db_events d"
  by (auto simp: mark_run_status_def Let_def split: option.splits if_splits)

lemma events_mark_status [simp]: "db_events (w_db (fst (mark_status now i s md w))) = db_events (w_db w)"
  by (auto simp: mark_status_def notify_change_def Let_def split: sum.split prod.split
      dest: events_mark_run_status)

lemma events_mark_status': "mark_status now i s md w = (w', r) \<Longrightarrow> db_events (w_db w') = db_events (w_db w)"
  using events_mark_status [of now i s md w] by simp

lemma events_append_messages:
  "append_thread_messages now tid rid ms d = Inr (d', stored) \<Longrightarrow> db_events d' = db_events d"
proof (induction ms arbitrary: d stored)
  case (Cons m ms)
  then show ?case by (cases m) (auto simp: Let_def insert_message_def split: if_splits)
qed simp

lemma events_store_reply: "store_reply now fresh r d = Inr d' \<Longrightarrow> db_events d' = db_events d"
  by (auto simp: store_reply_def split: if_splits dest: events_append_messages)

lemma get_run_events_same: "db_events d' = db_events d \<Longrightarrow> get_run_events d' = get_run_events d"
  by (simp add: get_run_events_def fun_eq_iff)

lemma last_seq_same: "db_events d' = db_events d \<Longrightarrow> get_last_event_seq d' = get_last_event_seq d"
  by (simp add: get_last_event_seq_def fun_eq_iff)

subsection \<open>Growing in step\<close>

definition in_step :: "address \<Rightarrow> 'z world_scheme \<Rightarrow> bool" where
  "in_step a w \<longleftrightarrow> a < length (b_objs (w_broker w)) \<and>
     0 \<le> get_last_event_seq (w_db w) (r_run_id (run_at w a)) \<and>
     get_last_event_seq (w_db w) (r_run_id (run_at w a)) \<le> r_seq (run_at w a)"

definition relayed :: "address \<Rightarrow> pyval list \<Rightarrow> 'z world_scheme \<Rightarrow> 'z world_scheme \<Rightarrow> bool" where
  "relayed a es w w' \<longleftrightarrow>
     in_step a w' \<and> r_run_id (run_at w' a) = r_run_id (run_at w a) \<and>
     r_seq (run_at w a) \<le> r_seq (run_at w' a) \<and>
     r_out_queue (run_at w' a) = r_out_queue (run_at w a) @ map OutEvent es \<and>
     (\<forall>n \<le> r_seq (run_at w a). get_run_events (w_db w') (r_run_id (run_at w a)) n =
        get_run_events (w_db w) (r_run_id (run_at w a)) n @ es)"

lemma relayed_refl: "in_step a w \<Longrightarrow> relayed a [] w w"
  by (simp add: relayed_def)

lemma relayed_trans: "relayed a es w w1 \<Longrightarrow> relayed a es' w1 w2 \<Longrightarrow> relayed a (es @ es') w w2"
  by (simp add: relayed_def)

lemma relayed_quiet:
  assumes "in_step a w" "db_events (w_db w') = db_events (w_db w)"
    and "seen_of (run_at w' a) = seen_of (run_at w a)"
    and "length (b_objs (w_broker w')) = length (b_objs (w_broker w))"
  shows "relayed a [] w w'"
  using assms(1,4) seen_eqD [OF assms(3)]
  by (simp add: relayed_def in_step_def get_run_events_same [OF assms(2)] last_seq_same [OF assms(2)])

lemma relayed_upd:
  assumes "in_step a w" "\<And>r. seen_of (f r) = seen_of r"
  shows "relayed a [] w (upd_run a f w)"
  by (rule relayed_quiet [OF assms(1)])
    (simp_all add: upd_run_def run_at_def obj_upd_same [where g = seen_of] assms(2))

lemma run_next_seq:
  "in_step a w \<Longrightarrow> run_at (next_seq a w) a = (run_at w a)\<lparr>r_seq := r_seq (run_at w a) + 1\<rparr>"
  by (simp add: next_seq_def upd_run_def run_at_def obj_upd_obj in_step_def)

lemma relayed_next_seq: "in_step a w \<Longrightarrow> relayed a [] w (next_seq a w)"
  by (auto simp: relayed_def run_next_seq in_step_def) (simp_all add: next_seq_def upd_run_def)

lemma relayed_store:
  assumes "in_step a w" "store_event now a e (next_seq a w) = Inr w2"
    and "db_events (w_db w3) = db_events (w_db w2)" "w_broker w3 = w_broker w2"
  shows "relayed a [e] w (relay_out a e w3)"
proof -
  let ?i = "r_run_id (run_at w a)" and ?q = "r_seq (run_at w a) + 1"
  have r: "r_run_id (run_at (next_seq a w) a) = ?i" "r_seq (run_at (next_seq a w) a) = ?q"
    using assms(1) by (simp_all add: run_next_seq)
  from assms(2) obtain d where
    d: "append_run_event now ?i ?q e (w_db w) = Inr d" "w2 = (next_seq a w)\<lparr>w_db := d\<rparr>"
    by (auto simp: store_event_def r) (simp add: next_seq_def upd_run_def)
  have s: "get_last_event_seq (w_db w) ?i < ?q" "0 \<le> get_last_event_seq (w_db w) ?i"
    using assms(1) by (simp_all add: in_step_def)
  note g = event_log_append [OF d(1) s]
  have run: "run_at (relay_out a e w3) a =
      (run_at w a)\<lparr>r_seq := ?q, r_out_queue := r_out_queue (run_at w a) @ [OutEvent e]\<rparr>"
    using assms(1,4) d(2)
    by (simp add: relay_out_def run_at_def put_out_def obj_upd_obj in_step_def next_seq_def upd_run_def)
  have db: "db_events (w_db (relay_out a e w3)) = db_events d"
    using assms(3) d(2) by (simp add: relay_out_def)
  have len: "length (b_objs (w_broker (relay_out a e w3))) = length (b_objs (w_broker w))"
    using assms(4) d(2) by (simp add: relay_out_def next_seq_def upd_run_def)
  show ?thesis
    using assms(1) g unfolding relayed_def in_step_def run len get_run_events_same [OF db] last_seq_same [OF db]
    by simp
qed

subsection \<open>Each handler\<close>

lemma relayed_mark: "in_step a w \<Longrightarrow> relayed a [] w (fst (mark_status now i s md w))"
  by (rule relayed_quiet) (simp_all add: run_at_def)

lemma seen_note_event [simp]: "seen_of (note_event e r) = seen_of r"
  by (simp add: note_event_def seen_of_def Let_def split: option.split)

lemma in_step_relayed: "relayed a es w w' \<Longrightarrow> in_step a w'"
  by (simp add: relayed_def)

lemma relayed_noted: "in_step a w \<Longrightarrow> relayed a [] w (upd_run a (note_event e) w)"
  by (rule relayed_upd) simp_all

lemma relayed_stored:
  assumes "in_step a w" "store_event now a e (next_seq a (upd_run a (note_event e) w)) = Inr w2"
  shows "relayed a [e] w (relay_out a e (w2\<lparr>w_db := touch_run_activity now i (w_db w2)\<rparr>))"
  using relayed_trans [OF relayed_noted [OF assms(1)]
      relayed_store [OF in_step_relayed [OF relayed_noted [OF assms(1)]] assms(2)]]
  by (simp add: touch_run_activity_def)

lemma relayed_handle_relay:
  assumes "in_step a w"
  shows "\<exists>es. set es \<subseteq> {e} \<and> relayed a es w (handle_relay L now a e w)"
proof -
  let ?w0 = "upd_run a (\<lambda>r. r\<lparr>r_in_queue := []\<rparr>) w"
  let ?n = "upd_run a (note_event e) w"
  have drained: "relayed a [] w ?w0" by (rule relayed_upd [OF assms]) (simp add: seen_of_def)
  have pushed: "relayed a [] w (snd (broker_push now i c ?w0))" for i c
  proof -
    have "relayed a [] ?w0 (snd (broker_push now i c ?w0))"
      using seen_push [of now i c "w_broker ?w0" a] length_push [of now i c "w_broker ?w0"]
      by (intro relayed_quiet in_step_relayed [OF drained])
        (simp_all add: broker_push_def run_at_def case_prod_beta)
    with relayed_trans [OF drained] show ?thesis by fastforce
  qed
  note noted = relayed_noted [OF assms, of e]
  note n1 = relayed_next_seq [OF in_step_relayed [OF noted]]
  show ?thesis
  proof (cases "must_validate L e \<and> \<not> al_valid L e")
    case True
    then show ?thesis using pushed by (auto simp: handle_relay_def intro!: exI [of _ "[]"])
  next
    case False
    show ?thesis
    proof (cases "is_dict e")
      case True
      show ?thesis
      proof (cases "store_event now a e (next_seq a ?n)")
        case (Inl x)
        with False True relayed_trans [OF noted n1] show ?thesis
          by (auto simp: handle_relay_def Let_def intro!: exI [of _ "[]"])
      next
        case (Inr w2)
        with False True relayed_stored [OF assms Inr] show ?thesis
          by (auto simp: handle_relay_def Let_def intro!: exI [of _ "[e]"])
      qed
    next
      case no: False
      with False relayed_refl [OF assms] show ?thesis
        by (auto simp: handle_relay_def intro!: exI [of _ "[]"])
    qed
  qed
qed

lemma relayed_handle_fail:
  assumes "in_step a w"
  shows "\<exists>es. relayed a es w (handle_fail now a reason w)"
proof -
  let ?e = "fail_event reason"
  show ?thesis
  proof (cases "store_event now a ?e (next_seq a w)")
    case (Inl x)
    then show ?thesis using relayed_next_seq [OF assms] by (auto simp: handle_fail_def)
  next
    case (Inr w2)
    let ?i = "r_run_id (run_at w2 a)" and ?md = "PDict [(''failureReason'', PStr reason)]"
    obtain w3 res where m: "mark_status now ?i Failed ?md w2 = (w3, res)"
      by (cases "mark_status now ?i Failed ?md w2")
    from Inr obtain d where d: "append_run_event now (r_run_id (run_at (next_seq a w) a))
        (r_seq (run_at (next_seq a w) a)) ?e (w_db (next_seq a w)) = Inr d" "w2 = (next_seq a w)\<lparr>w_db := d\<rparr>"
      by (auto simp: store_event_def)
    have "?i = r_run_id (run_at (next_seq a w) a)" using d(2) by (simp add: run_at_def)
    then have "get_run d ?i \<noteq> None"
      using d(1) by (auto simp: append_run_event_def insert_event_def get_run_def find_None_iff run_ids_def
          split: if_splits)
    then have "res \<noteq> Inl x" for x
      using m d(2) by (auto simp: mark_status_def mark_run_status_def Let_def split: if_splits prod.splits)
    then obtain ok where "res = Inr ok" by (cases res) auto
    moreover have "relayed a [?e] w (relay_out a ?e w3)"
      by (rule relayed_store [OF assms Inr])
        (use events_mark_status' [OF m] broker_mark_status' [OF m] in simp_all)
    ultimately show ?thesis using Inr m by (auto simp: handle_fail_def)
  qed
qed

lemma relayed_handle_finish:
  assumes "in_step a w"
  shows "\<exists>es. (es = [] \<or> es = [unfinished_error]) \<and> relayed a es w (handle_finish now fresh a w)"
proof -
  obtain s md where f: "final_status (run_at w a) = (s, md)" by (cases "final_status (run_at w a)")
  let ?r = "run_at w a"
  obtain w1 res where m: "mark_status now (r_run_id ?r) s md w = (w1, res)"
    by (cases "mark_status now (r_run_id ?r) s md w")
  have w1: "relayed a [] w w1" using relayed_mark [OF assms, of now "r_run_id ?r" s md] m by simp
  note i1 = in_step_relayed [OF w1]
  show ?thesis
  proof (cases res)
    case (Inl x)
    with w1 m f show ?thesis by (auto simp: handle_finish_def)
  next
    case (Inr settled)
    let ?kept = "if settled \<and> s \<in> {Completed, InputRequired} then store_reply now fresh ?r (w_db w1) else Inr (w_db w1)"
    show ?thesis
    proof (cases ?kept)
      case (Inl x)
      then show ?thesis using w1 Inr m f by (auto simp: handle_finish_def simp del: insert_iff)
    next
      case kept: (Inr d)
      let ?w2 = "w1\<lparr>w_db := d\<rparr>"
      have e2: "db_events d = db_events (w_db w1)"
        using kept by (auto split: if_split_asm dest: events_store_reply)
      have w2: "relayed a [] w ?w2"
        using relayed_trans [OF w1 relayed_quiet [OF i1, of ?w2]] e2 by (simp add: run_at_def)
      show ?thesis
      proof (cases "s = Failed \<and> \<not> r_saw_run_error ?r")
        case False
        then have "handle_finish now fresh a w = ?w2"
          using Inr kept m f by (simp add: handle_finish_def del: insert_iff)
        with w2 show ?thesis by auto
      next
        case True
        show ?thesis
        proof (cases "store_event now a unfinished_error (next_seq a ?w2)")
          case (Inl x)
          then have "handle_finish now fresh a w = next_seq a w1"
            using Inr kept m f True by (simp add: handle_finish_def del: insert_iff)
          with relayed_trans [OF w1 relayed_next_seq [OF i1]] show ?thesis by auto
        next
          case st: (Inr w3)
          then have "handle_finish now fresh a w = relay_out a unfinished_error w3"
            using Inr kept m f True by (simp add: handle_finish_def del: insert_iff)
          with relayed_trans [OF w2 relayed_store [OF in_step_relayed [OF w2] st refl refl]]
          show ?thesis by auto
        qed
      qed
    qed
  qed
qed

lemma relayed_handle_cancel:
  assumes "in_step a w"
  shows "relayed a [] w (handle_cancel now a w)"
proof (rule relayed_quiet [OF assms])
  show "db_events (w_db (handle_cancel now a w)) = db_events (w_db w)"
    by (auto simp: handle_cancel_def Let_def split: prod.split sum.split option.split dest: events_mark_status')
  have "w_broker (handle_cancel now a w) = w_broker w"
    by (auto simp: handle_cancel_def Let_def split: prod.split sum.split option.split dest: broker_mark_status')
  then show "seen_of (run_at (handle_cancel now a w) a) = seen_of (run_at w a)"
    "length (b_objs (w_broker (handle_cancel now a w))) = length (b_objs (w_broker w))"
    by (simp_all add: run_at_def)
qed

lemma relayed_handle: "in_step a w \<Longrightarrow> \<exists>es. relayed a es w (handle L now fresh a cmd w)"
  by (cases cmd)
    (use relayed_handle_finish [of a w now fresh] in
      \<open>auto intro: relayed_handle_fail relayed_handle_cancel relayed_mark simp: handle_claim_def dest: relayed_handle_relay\<close>)

text \<open>A run's commands one after another, each with its own clock and fresh ids.\<close>

fun handle_all ::
    "agui_lib \<Rightarrow> address \<Rightarrow> (int \<times> (nat \<Rightarrow> string) \<times> command) list \<Rightarrow> 'z world_scheme \<Rightarrow> 'z world_scheme" where
  "handle_all L a [] w = w"
| "handle_all L a ((now, fresh, cmd) # cmds) w = handle_all L a cmds (handle L now fresh a cmd w)"

lemma relayed_handle_all: "in_step a w \<Longrightarrow> \<exists>es. relayed a es w (handle_all L a cmds w)"
proof (induction cmds arbitrary: w)
  case Nil
  then show ?case using relayed_refl by auto
next
  case (Cons c cmds)
  obtain now fresh cmd where c: "c = (now, fresh, cmd)" by (cases c)
  from relayed_handle [OF Cons.prems] obtain es where
    es: "relayed a es w (handle L now fresh a cmd w)" by blast
  from Cons.IH [OF in_step_relayed [OF es]] obtain es' where
    "relayed a es' (handle L now fresh a cmd w) (handle_all L a cmds (handle L now fresh a cmd w))" by blast
  with relayed_trans [OF es this] show ?case by (auto simp: c)
qed

text \<open>C9: What subscribers receive is what the record keeps. Whatever commands a run handles, in whatever
  order, with valid or malformed events and with or without a row in the record: the events added to
  its outgoing queue are, in order, exactly those its stored log gains behind everything stored
  before, as read from any earlier position; and its counter stays at or above the last stored
  number, so no number is used twice.\<close>

theorem relayed_stream_is_the_log:
  assumes "a < length (b_objs (w_broker w))" "rid = r_run_id (run_at w a)"
    and "0 \<le> get_last_event_seq (w_db w) rid" "get_last_event_seq (w_db w) rid \<le> r_seq (run_at w a)"
    and "w' = handle_all L a cmds w"
  shows "\<exists>es. r_out_queue (run_at w' a) = r_out_queue (run_at w a) @ map OutEvent es
    \<and> (\<forall>n \<le> r_seq (run_at w a). get_run_events (w_db w') rid n = get_run_events (w_db w) rid n @ es)
    \<and> get_last_event_seq (w_db w') rid \<le> r_seq (run_at w' a)"
proof -
  have "in_step a w" using assms(1-4) by (simp add: in_step_def)
  from relayed_handle_all [OF this, of L cmds] obtain es where "relayed a es w w'"
    unfolding assms(5) by blast
  then show ?thesis unfolding assms(2) by (auto simp: relayed_def in_step_def)
qed

text \<open>A run claimed, sending one event this AG-UI does not know and a malformed one.\<close>

definition demo_world :: world where
  "demo_world = \<lparr>w_db = demo_run, w_broker =
     (case enqueue_run 0 ''r1'' demo_ref ''t1'' (PDict []) ''ag-ui'' (Some ()) 0 (start (new_broker None)) of
        Inr (a, b) \<Rightarrow> b | Inl e \<Rightarrow> new_broker None), w_changes = [], w_cancels = []\<rparr>"

definition demo_lib :: agui_lib where
  "demo_lib = \<lparr>al_known = [''RUN_ERROR''], al_valid = (\<lambda>e. pget e ''message'' \<noteq> PNone)\<rparr>"

definition demo_commands :: "(int \<times> (nat \<Rightarrow> string) \<times> command) list" where
  "demo_commands = map (\<lambda>c. (5, (\<lambda>n. ''m''), c))
     [Claim, RelayEvent (PDict [(''type'', PStr ''NEWER'')]), RelayEvent (PDict [(''type'', PStr ''RUN_ERROR'')]),
      Fail ''gone'']"

lemma demo_world_facts:
  "0 < length (b_objs (w_broker demo_world))" "r_run_id (run_at demo_world 0) = ''r1''"
  "get_last_event_seq (w_db demo_world) ''r1'' = 0" "r_seq (run_at demo_world 0) = 0"
  "get_run_events (w_db demo_world) ''r1'' 0 = []" "r_out_queue (run_at demo_world 0) = []"
  by code_simp+

lemma demo_relayed_out: "r_out_queue (run_at (handle_all demo_lib 0 demo_commands demo_world) 0) =
    [OutEvent (PDict [(''type'', PStr ''NEWER'')]), OutEvent (fail_event ''gone'')]"
  by code_simp

lemma relayed_stream_is_the_log_witness:
  "get_run_events (w_db (handle_all demo_lib 0 demo_commands demo_world)) ''r1'' 0 =
     [PDict [(''type'', PStr ''NEWER'')], fail_event ''gone'']"
proof -
  obtain es where es: "r_out_queue (run_at (handle_all demo_lib 0 demo_commands demo_world) 0) =
      r_out_queue (run_at demo_world 0) @ map OutEvent es"
    "\<forall>n \<le> r_seq (run_at demo_world 0). get_run_events (w_db (handle_all demo_lib 0 demo_commands demo_world)) ''r1'' n =
      get_run_events (w_db demo_world) ''r1'' n @ es"
    using relayed_stream_is_the_log [OF demo_world_facts(1) demo_world_facts(2) [symmetric] _ _ refl,
        of demo_lib demo_commands] demo_world_facts(3,4) by auto
  from es(1) have "es = [PDict [(''type'', PStr ''NEWER'')], fail_event ''gone'']"
    unfolding demo_relayed_out demo_world_facts by (auto simp: map_eq_Cons_conv)
  with es(2) show ?thesis by (simp add: demo_world_facts)
qed

end
