(* ===== verification/SettleClaims.thy ===== *)
theory SettleClaims
  imports RelayClaims EventClaims
begin

text \<open>
  How runs end: the status a finished stream is settled on, the reply that becomes part of the
  thread, the error event that is owed to subscribers, and the sweeps that close what nobody holds.
\<close>

lemma get_run_stamped:
  "get_run (d\<lparr>db_runs := map (\<lambda>x. if rn_run_id x = i then f r else x) (db_runs d)\<rparr>) i = Some (f r)"
  if "get_run d i = Some r" "rn_run_id (f r) = i"
proof -
  have "find (\<lambda>x. rn_run_id x = i) rows = Some r \<Longrightarrow>
      find (\<lambda>x. rn_run_id x = i) (map (\<lambda>x. if rn_run_id x = i then f r else x) rows) = Some (f r)" for rows
    by (induction rows) (auto simp: that(2) split: if_splits)
  with that(1) show ?thesis by (simp add: get_run_def)
qed

lemma mark_status_applies:
  assumes "db_ok (w_db w)" "get_run (w_db w) i = Some r" "LEGAL_STATUS_TRANSITIONS s = Some from" "rn_status r \<in> set from"
  shows "\<exists>d. mark_status now i s md w =
      (notify_change (RunStatusChanged i s) (w\<lparr>w_db := d\<rparr>), Inr True) \<and>
    get_run d i = Some ((stamp_status now s r)\<lparr>rn_metadata :=
      if truthy md then pmerge (por (rn_metadata r) (PDict [])) md else rn_metadata r\<rparr>) \<and>
    db_events d = db_events (w_db w) \<and> db_messages d = db_messages (w_db w) \<and> db_threads d = db_threads (w_db w)
    \<and> run_ids d = run_ids (w_db w) \<and> db_ok d"
proof -
  let ?f = "\<lambda>r. (stamp_status now s r)\<lparr>rn_metadata :=
      if truthy md then pmerge (por (rn_metadata r) (PDict [])) md else rn_metadata r\<rparr>"
  let ?d = "(w_db w)\<lparr>db_runs := map (\<lambda>x. if rn_run_id x = i then ?f r else x) (db_runs (w_db w))\<rparr>"
  have e: "mark_run_status now i s md (w_db w) = Inr (?d, True)"
    using mark_run_status_eq [OF assms(1), of now i s md] assms(2-4) by simp
  have "get_run ?d i = Some (?f r)"
    by (rule get_run_stamped [OF assms(2)]) (use get_run_mem [OF assms(2)] in simp)
  moreover have "run_ids ?d = run_ids (w_db w)"
    using get_run_mem [OF assms(2)] by (force simp: run_ids_def)
  moreover have "db_ok ?d" by (rule ok_mark [OF e assms(1)])
  moreover have "mark_status now i s md w = (notify_change (RunStatusChanged i s) (w\<lparr>w_db := ?d\<rparr>), Inr True)"
    by (simp add: mark_status_def e Let_def)
  ultimately show ?thesis by (intro exI [of _ ?d]) simp
qed

lemma runs_store_reply: "store_reply now fresh r d = Inr d' \<Longrightarrow> db_runs d' = db_runs d"
  by (auto simp: store_reply_def split: if_splits dest: runs_append_messages)

text \<open>What a settled run leaves: its status, what subscribers of changes heard, and, when it failed
  without an error event of its own, that event as the last of its stream and its log.\<close>

definition settled_as :: "status \<Rightarrow> address \<Rightarrow> 'z world_scheme \<Rightarrow> 'z world_scheme \<Rightarrow> bool" where
  "settled_as s a w w' \<longleftrightarrow>
     (let i = r_run_id (run_at w a) in
      map_option rn_status (get_run (w_db w') i) = Some s \<and>
      w_changes w' = w_changes w @ [RunStatusChanged i s])"

lemma finish_failed:
  assumes "db_ok (w_db w)" "in_step a w" "get_run (w_db w) (r_run_id (run_at w a)) = Some row"
    "rn_status row \<in> {Running, Cancelling}" "final_status (run_at w a) = (Failed, md)"
  shows "settled_as Failed a w (handle_finish now fresh a w)
    \<and> relayed a (if r_saw_run_error (run_at w a) then [] else [unfinished_error]) w (handle_finish now fresh a w)
    \<and> get_thread_messages (w_db (handle_finish now fresh a w)) = get_thread_messages (w_db w)"
proof -
  let ?i = "r_run_id (run_at w a)" and ?r = "run_at w a"
  from mark_status_applies [OF assms(1,3), of Failed] assms(4) obtain d where
    m: "mark_status now ?i Failed md w = (notify_change (RunStatusChanged ?i Failed) (w\<lparr>w_db := d\<rparr>), Inr True)" and
    d: "map_option rn_status (get_run d ?i) = Some Failed" "db_events d = db_events (w_db w)"
      "run_ids d = run_ids (w_db w)" "db_messages d = db_messages (w_db w)"
    by fastforce
  have gm: "get_thread_messages x = get_thread_messages (w_db w)" if "db_messages x = db_messages d" for x
    using that d(4) by (simp add: get_thread_messages_def fun_eq_iff)
  let ?w1 = "notify_change (RunStatusChanged ?i Failed) (w\<lparr>w_db := d\<rparr>)"
  have w1: "relayed a [] w ?w1"
    by (rule relayed_quiet [OF assms(2)]) (simp_all add: notify_change_def run_at_def d)
  note i1 = in_step_relayed [OF w1]
  show ?thesis
  proof (cases "r_saw_run_error ?r")
    case True
    then have "handle_finish now fresh a w = ?w1"
      using assms(5) m by (simp add: handle_finish_def)
    with w1 d(1) True gm [of d] show ?thesis by (simp add: settled_as_def notify_change_def Let_def)
  next
    case False
    have known: "?i \<in> run_ids (w_db (next_seq a ?w1))"
      using get_run_mem [OF assms(3)] d(3)
      by (force simp: next_seq_def upd_run_def notify_change_def run_ids_def)
    have ri: "r_run_id (run_at (next_seq a ?w1) a) = ?i"
      using run_next_seq [OF i1] by (simp add: notify_change_def run_at_def)
    obtain w3 where st: "store_event now a unfinished_error (next_seq a ?w1) = Inr w3"
      using known ri by (simp add: store_event_def append_run_event_def insert_event_def)
    then have h: "handle_finish now fresh a w = relay_out a unfinished_error w3"
      using assms(5) m False by (simp add: handle_finish_def notify_change_def)
    have w3: "db_runs (w_db w3) = db_runs d" "w_changes w3 = w_changes ?w1" "db_messages (w_db w3) = db_messages d"
      using st by (auto simp: store_event_def append_run_event_def insert_event_def next_seq_def upd_run_def
          notify_change_def split: if_splits)
    then have "settled_as Failed a w (relay_out a unfinished_error w3)"
      using d(1) w3(1,2) by (simp add: settled_as_def relay_out_def notify_change_def get_run_def Let_def)
    with relayed_trans [OF w1 relayed_store [OF i1 st refl refl]] False h gm [of "w_db (relay_out a unfinished_error w3)"]
      w3(3) show ?thesis by (simp add: relay_out_def)
  qed
qed

text \<open>Messages under ids the record does not have yet are always stored.\<close>

definition unused :: "(nat \<Rightarrow> string) \<Rightarrow> db \<Rightarrow> bool" where
  "unused fresh d \<longleftrightarrow> inj fresh \<and> (\<forall>m \<in> set (db_messages d). ms_message_id m \<notin> range fresh)"

lemma append_messages_succeeds:
  assumes "tid \<in> thread_ids d" "rid \<in> run_ids d" "distinct (map snd ms)"
    "\<forall>m \<in> set (db_messages d). ms_message_id m \<notin> snd ` set ms"
  shows "\<exists>d' stored. append_thread_messages now tid rid ms d = Inr (d', stored)"
  using assms
proof (induction ms arbitrary: d)
  case (Cons x ms)
  obtain m i where x: "x = (m, i)" by (cases x)
  let ?r = "\<lparr>ms_id = next_message_id d, ms_thread_id = tid, ms_run_id = rid, ms_message_id = i,
      ms_message_json = pset ''id'' (PStr i) m, ms_metadata = pget_or m ''metadata'' (PDict []),
      ms_created_at = now\<rparr>"
  let ?d = "d\<lparr>db_messages := db_messages d @ [?r]\<rparr>"
  have ins: "insert_message ?r d = Inr ?d" using Cons.prems x by (force simp: insert_message_def)
  have "\<exists>d' stored. append_thread_messages now tid rid ms ?d = Inr (d', stored)"
    by (rule Cons.IH) (use Cons.prems x in \<open>auto simp: thread_ids_def run_ids_def image_iff\<close>)
  with ins show ?case by (auto simp: x Let_def)
qed simp

lemma messages_append_thread:
  assumes "append_thread_messages now tid rid ms d = Inr (d', stored)"
  shows "get_thread_messages d' tid = get_thread_messages d tid @ map (\<lambda>(m, i). pset ''id'' (PStr i) m) ms"
  using messages_append [OF assms] by simp

definition reply_of :: "(nat \<Rightarrow> string) \<Rightarrow> pyval list \<Rightarrow> pyval list" where
  "reply_of fresh ms = map (\<lambda>(m, i). pset ''id'' (PStr i) m) (zip ms (map fresh [0..<length ms]))"

lemma store_reply_succeeds:
  assumes "reduce_events_to_messages (get_run_events d (r_run_id r) (r_round_starting_seq r)) = Inr ms"
    "unused fresh d" "r_thread_id r \<in> thread_ids d" "r_run_id r \<in> run_ids d"
  shows "\<exists>d'. store_reply now fresh r d = Inr d' \<and>
    get_thread_messages d' (r_thread_id r) = get_thread_messages d (r_thread_id r) @ reply_of fresh ms"
proof (cases "ms = []")
  case True
  with assms(1) show ?thesis by (simp add: store_reply_def reply_of_def)
next
  case False
  let ?z = "zip ms (map fresh [0..<length ms])"
  have snd_z: "map snd ?z = map fresh [0..<length ms]" by simp
  have "inj_on fresh (set [0..<length ms])" using assms(2) unfolding unused_def by (blast intro: inj_on_subset)
  then have "distinct (map snd ?z)" unfolding snd_z by (simp add: distinct_map)
  moreover have "\<forall>m \<in> set (db_messages d). ms_message_id m \<notin> snd ` set ?z"
  proof -
    have "snd ` set ?z = fresh ` {0..<length ms}" by (metis atLeastLessThan_upt set_map snd_z)
    then show ?thesis using assms(2) unfolding unused_def by blast
  qed
  ultimately obtain d' stored where
    a: "append_thread_messages now (r_thread_id r) (r_run_id r) ?z d = Inr (d', stored)"
    using append_messages_succeeds [OF assms(3,4)] by blast
  with messages_append_thread [OF a] assms(1) False show ?thesis
    by (simp add: store_reply_def reply_of_def)
qed

lemma finish_kept:
  assumes "db_ok (w_db w)" "in_step a w" "get_run (w_db w) (r_run_id (run_at w a)) = Some row"
    "rn_status row \<in> {Running, Cancelling}" "final_status (run_at w a) = (s, md)" "s \<noteq> Failed"
    "rn_thread_id row = r_thread_id (run_at w a)" "unused fresh (w_db w)"
    "reduce_events_to_messages (get_run_events (w_db w) (r_run_id (run_at w a))
       (r_round_starting_seq (run_at w a))) = Inr ms"
  shows "settled_as s a w (handle_finish now fresh a w) \<and> relayed a [] w (handle_finish now fresh a w)
    \<and> get_thread_messages (w_db (handle_finish now fresh a w)) (r_thread_id (run_at w a)) =
        get_thread_messages (w_db w) (r_thread_id (run_at w a)) @
        (if s \<in> {Completed, InputRequired} then reply_of fresh ms else [])"
proof -
  let ?i = "r_run_id (run_at w a)" and ?r = "run_at w a"
  have s: "s \<in> {Completed, InputRequired, Cancelled}"
    using assms(5,6) by (auto simp: final_status_def split: option.splits if_splits)
  then obtain legal where "LEGAL_STATUS_TRANSITIONS s = Some legal" "rn_status row \<in> set legal"
    using assms(4) by auto
  from mark_status_applies [OF assms(1,3) this, of now md] obtain d where
    m: "mark_status now ?i s md w = (notify_change (RunStatusChanged ?i s) (w\<lparr>w_db := d\<rparr>), Inr True)" and
    d: "map_option rn_status (get_run d ?i) = Some s" "db_events d = db_events (w_db w)"
      "db_messages d = db_messages (w_db w)" "run_ids d = run_ids (w_db w)" "thread_ids d = thread_ids (w_db w)"
    by (auto simp: thread_ids_def)
  let ?w1 = "notify_change (RunStatusChanged ?i s) (w\<lparr>w_db := d\<rparr>)"
  have ids: "?i \<in> run_ids d" "r_thread_id ?r \<in> thread_ids d"
    using assms(1,7) get_run_mem [OF assms(3)] imageI [of row "set (db_runs (w_db w))" rn_run_id]
    unfolding d db_ok_def runs_ok_def by (auto simp: run_ids_def)
  have gm: "get_thread_messages d = get_thread_messages (w_db w)"
    using d(3) by (simp add: get_thread_messages_def fun_eq_iff)
  have quiet: "relayed a [] w (?w1\<lparr>w_db := d'\<rparr>)" if "db_events d' = db_events d" for d'
    by (rule relayed_quiet [OF assms(2)]) (simp_all add: notify_change_def run_at_def that d)
  have settled: "settled_as s a w (?w1\<lparr>w_db := d'\<rparr>)" if "db_runs d' = db_runs d" for d'
    using d(1) that by (simp add: settled_as_def notify_change_def get_run_def Let_def)
  have w1d: "w_db ?w1 = d" by (simp add: notify_change_def)
  show ?thesis
  proof (cases "s \<in> {Completed, InputRequired}")
    case True
    have "unused fresh d" "reduce_events_to_messages (get_run_events d ?i (r_round_starting_seq ?r)) = Inr ms"
      using assms(8,9) d(3) get_run_events_same [OF d(2)] by (simp_all add: unused_def)
    from store_reply_succeeds [OF this(2,1) ids(2,1)] obtain d' where
      st: "store_reply now fresh ?r d = Inr d'"
        "get_thread_messages d' (r_thread_id ?r) = get_thread_messages d (r_thread_id ?r) @ reply_of fresh ms"
      by blast
    then have "handle_finish now fresh a w = ?w1\<lparr>w_db := d'\<rparr>"
      using assms(5,6) m w1d True by (simp add: handle_finish_def)
    with quiet [OF events_store_reply [OF st(1)]] settled [OF runs_store_reply [OF st(1)]] st(2) gm True
    show ?thesis by (simp add: notify_change_def)
  next
    case False
    then have "handle_finish now fresh a w = ?w1\<lparr>w_db := d\<rparr>"
      using assms(5,6) m w1d by (auto simp: handle_finish_def)
    with quiet [of d] settled [of d] gm False show ?thesis by (simp add: notify_change_def)
  qed
qed

subsection \<open>What the events of a round call for\<close>

text \<open>The events a relay handler takes note of, and what it notes.\<close>

definition proper_event :: "agui_lib \<Rightarrow> pyval \<Rightarrow> bool" where
  "proper_event L e \<longleftrightarrow> is_dict e \<and> (must_validate L e \<longrightarrow> al_valid L e)"

fun noted :: "agui_lib \<Rightarrow> command list \<Rightarrow> pyval list" where
  "noted L [] = []"
| "noted L (RelayEvent e # cmds) = (if proper_event L e then [e] else []) @ noted L cmds"
| "noted L (_ # cmds) = noted L cmds"

definition flags_of :: "run \<Rightarrow> pyval option \<times> bool \<times> bool" where
  "flags_of r = (r_pause_payload r, r_saw_run_finished r, r_saw_run_error r)"

definition note_flags :: "pyval \<Rightarrow> pyval option \<times> bool \<times> bool \<Rightarrow> pyval option \<times> bool \<times> bool" where
  "note_flags e x = (let (payload, finished, failed) = x in
     if event_type e = PStr ''RUN_FINISHED'' then
       (case interrupt_outcome_of e of None \<Rightarrow> payload | Some i \<Rightarrow> Some (PDict [(''interrupts'', i)]), True, failed)
     else if event_type e = PStr ''RUN_ERROR'' then (payload, finished, True) else x)"

lemma flags_note_event: "flags_of (note_event e r) = note_flags e (flags_of r)"
  by (simp add: flags_of_def note_flags_def note_event_def Let_def split: option.split)

lemma flags_fold: "flags_of (fold note_event es r) = fold note_flags es (flags_of r)"
  by (induction es arbitrary: r) (simp_all add: flags_note_event)

lemma flags_upd: "(\<And>r. flags_of (f r) = flags_of r) \<Longrightarrow> flags_of (run_at (upd_run b f w) a) = flags_of (run_at w a)"
  unfolding run_at_def upd_run_def by (simp add: obj_upd_same [where g = flags_of])

lemma flags_next_seq [simp]: "flags_of (run_at (next_seq b w) a) = flags_of (run_at w a)"
  unfolding next_seq_def by (rule flags_upd) (simp add: flags_of_def)

lemma flags_relay_out [simp]: "flags_of (run_at (relay_out b e w) a) = flags_of (run_at w a)"
  unfolding relay_out_def run_at_def put_out_def by (simp, rule obj_upd_same) (simp add: flags_of_def)

lemma run_at_db [simp]: "run_at (w\<lparr>w_db := d\<rparr>) = run_at w"
  by (simp add: run_at_def fun_eq_iff)

lemma run_mark: "mark_status now i s md w = (w', r) \<Longrightarrow> run_at w' = run_at w"
  by (drule broker_mark_status') (simp add: run_at_def fun_eq_iff)

lemma run_store: "store_event now a e w = Inr w' \<Longrightarrow> run_at w' = run_at w"
  by (drule broker_store_event) (simp add: run_at_def fun_eq_iff)

lemma flags_push: "flags_of (run_at (snd (broker_push now i c w)) a) = flags_of (run_at w a)"
proof -
  have put: "flags_of (obj (put_cmd x c b) a) = flags_of (obj b a)" for x and b :: "unit broker"
    unfolding put_cmd_def by (rule obj_upd_same) (simp add: flags_of_def)
  show ?thesis
    by (auto simp: broker_push_def run_at_def push_def put case_prod_beta split: option.split)
qed

lemma flags_handle_relay:
  assumes "a < length (b_objs (w_broker w))"
  shows "flags_of (run_at (handle_relay L now a e w) a) =
    flags_of (fold note_event (noted L [RelayEvent e]) (run_at w a))"
proof -
  have n: "run_at (upd_run a (note_event e) w) a = note_event e (run_at w a)"
    using assms by (simp add: upd_run_def run_at_def obj_upd_obj)
  have q: "flags_of (run_at (upd_run a (\<lambda>r. r\<lparr>r_in_queue := []\<rparr>) w) a) = flags_of (run_at w a)"
    by (rule flags_upd) (simp add: flags_of_def)
  show ?thesis
    by (auto simp: handle_relay_def proper_event_def Let_def flags_push q n split: sum.split dest!: run_store)
qed

lemma flags_handle:
  assumes "a < length (b_objs (w_broker w))"
  shows "flags_of (run_at (handle L now fresh a cmd w) a) = flags_of (fold note_event (noted L [cmd]) (run_at w a))"
proof (cases cmd)
  case (RelayEvent e)
  then show ?thesis using flags_handle_relay [OF assms] by simp
next
  case FinishStream
  have "flags_of (run_at (handle_finish now fresh a w) a) = flags_of (run_at w a)"
    by (auto simp: handle_finish_def Let_def split: prod.split sum.split dest!: run_mark run_store)
  then show ?thesis by (simp add: FinishStream)
next
  case (Fail reason)
  have "flags_of (run_at (handle_fail now a reason w) a) = flags_of (run_at w a)"
    by (auto simp: handle_fail_def Let_def split: prod.split sum.split dest!: run_mark run_store)
  then show ?thesis by (simp add: Fail)
next
  case RequestCancel
  have "w_broker (handle_cancel now a w) = w_broker w"
    by (auto simp: handle_cancel_def Let_def split: prod.split sum.split option.split dest: broker_mark_status')
  then show ?thesis by (simp add: RequestCancel run_at_def)
next
  case Claim
  then show ?thesis by (simp add: handle_claim_def run_at_def)
qed

lemma length_handle: "in_step a w \<Longrightarrow> in_step a (handle L now fresh a cmd w)"
  using relayed_handle in_step_relayed by blast

lemma flags_handle_all:
  "in_step a w \<Longrightarrow>
     flags_of (run_at (handle_all L a cmds w) a) = flags_of (fold note_event (noted L (map (snd \<circ> snd) cmds)) (run_at w a))"
proof (induction cmds arbitrary: w)
  case Nil
  then show ?case by simp
next
  case (Cons c cmds)
  obtain now fresh cmd where c: "c = (now, fresh, cmd)" by (cases c)
  have a: "a < length (b_objs (w_broker w))" using Cons.prems by (simp add: in_step_def)
  have n: "noted L (map (snd \<circ> snd) (c # cmds)) = noted L [cmd] @ noted L (map (snd \<circ> snd) cmds)"
    by (cases cmd) (simp_all add: c)
  have "flags_of (run_at (handle_all L a (c # cmds) w) a) =
      flags_of (run_at (handle_all L a cmds (handle L now fresh a cmd w)) a)"
    by (simp add: c)
  also have "\<dots> = fold note_flags (noted L (map (snd \<circ> snd) cmds)) (flags_of (run_at (handle L now fresh a cmd w) a))"
    unfolding Cons.IH [OF length_handle [OF Cons.prems]] by (rule flags_fold)
  also have "\<dots> = fold note_flags (noted L (map (snd \<circ> snd) (c # cmds))) (flags_of (run_at w a))"
    unfolding n flags_handle [OF a] flags_fold by simp
  finally show ?case by (simp only: flags_fold)
qed

text \<open>The status a round's events call for.\<close>

definition called_for :: "pyval list \<Rightarrow> bool \<Rightarrow> status" where
  "called_for es cancelled =
     (if \<exists>e \<in> set es. event_type e = PStr ''RUN_FINISHED'' \<and> interrupt_outcome_of e \<noteq> None then InputRequired
      else if \<exists>e \<in> set es. event_type e = PStr ''RUN_FINISHED'' then Completed
      else if cancelled then Cancelled else Failed)"

definition says_error :: "pyval list \<Rightarrow> bool" where
  "says_error es \<longleftrightarrow> (\<exists>e \<in> set es. event_type e = PStr ''RUN_ERROR'')"

lemma note_event_flags:
  "r_pause_payload (note_event e r) \<noteq> None \<longleftrightarrow> r_pause_payload r \<noteq> None \<or>
     (event_type e = PStr ''RUN_FINISHED'' \<and> interrupt_outcome_of e \<noteq> None)"
  "r_saw_run_finished (note_event e r) \<longleftrightarrow> r_saw_run_finished r \<or> event_type e = PStr ''RUN_FINISHED''"
  "r_saw_run_error (note_event e r) \<longleftrightarrow> r_saw_run_error r \<or> event_type e = PStr ''RUN_ERROR''"
  by (simp_all add: note_event_def Let_def split: option.split)

lemma noted_flags:
  "r_pause_payload (fold note_event es r) \<noteq> None \<longleftrightarrow> r_pause_payload r \<noteq> None \<or>
     (\<exists>e \<in> set es. event_type e = PStr ''RUN_FINISHED'' \<and> interrupt_outcome_of e \<noteq> None)"
  "r_saw_run_finished (fold note_event es r) \<longleftrightarrow> r_saw_run_finished r \<or> (\<exists>e \<in> set es. event_type e = PStr ''RUN_FINISHED'')"
  "r_saw_run_error (fold note_event es r) \<longleftrightarrow> r_saw_run_error r \<or> says_error es"
proof (induction es arbitrary: r)
  case Nil
  case 1 show ?case by simp
  case 2 show ?case by simp
  case 3 show ?case by (simp add: says_error_def)
next
  case (Cons e es)
  case 1 show ?case using Cons(1) [of "note_event e r"] note_event_flags(1) [of e r] by auto
  case 2 show ?case using Cons(2) [of "note_event e r"] note_event_flags(2) [of e r] by auto
  case 3 show ?case using Cons(3) [of "note_event e r"] note_event_flags(3) [of e r] by (auto simp: says_error_def)
qed

lemma status_called_for:
  assumes "flags_of r = flags_of (fold note_event es r0)" "flags_of r0 = (None, False, False)"
  shows "fst (final_status r) = called_for es (r_cancel_requested r)" "r_saw_run_error r \<longleftrightarrow> says_error es"
  using assms noted_flags [of es r0]
  by (auto simp: flags_of_def final_status_def called_for_def split: option.splits)

text \<open>C11: A finished stream settles its run. Take a run at the start of a round, let it handle any
  commands, and let its stream end while it is running or being cancelled: the run gets the status
  the events of the round call for - paused if one of them finished it with interrupts, else
  completed if one finished it, also when a cancel was asked for, else cancelled if it was, else
  failed; subscribers of changes hear of exactly this transition, the messages the round's events
  fold into are appended to its thread when it completed or paused (and only then), and if it failed
  and none of the events was an error, one is added to its log and its stream.\<close>

theorem finished_streams_settle_their_run:
  assumes "in_step a w0" "flags_of (run_at w0 a) = (None, False, False)"
    "w = handle_all L a cmds w0" "es = noted L (map (snd \<circ> snd) cmds)" "db_ok (w_db w)"
    "get_run (w_db w) (r_run_id (run_at w a)) = Some row" "rn_status row \<in> {Running, Cancelling}"
    "rn_thread_id row = r_thread_id (run_at w a)" "unused fresh (w_db w)"
    "reduce_events_to_messages (get_run_events (w_db w) (r_run_id (run_at w a))
       (r_round_starting_seq (run_at w a))) = Inr ms"
    "s = called_for es (r_cancel_requested (run_at w a))"
  shows "settled_as s a w (handle_finish now fresh a w)
    \<and> get_thread_messages (w_db (handle_finish now fresh a w)) (r_thread_id (run_at w a)) =
        get_thread_messages (w_db w) (r_thread_id (run_at w a)) @
        (if s \<in> {Completed, InputRequired} then reply_of fresh ms else [])
    \<and> relayed a (if s = Failed \<and> \<not> says_error es then [unfinished_error] else []) w (handle_finish now fresh a w)"
proof -
  have "\<exists>es'. relayed a es' w0 w" unfolding assms(3) by (rule relayed_handle_all [OF assms(1)])
  then have step: "in_step a w" using in_step_relayed by blast
  note f = status_called_for [OF flags_handle_all [OF assms(1), of L cmds] assms(2), folded assms(3,4)]
  obtain md where fs: "final_status (run_at w a) = (s, md)" using f(1) assms(11) by (cases "final_status (run_at w a)") simp
  show ?thesis
  proof (cases "s = Failed")
    case True
    with finish_failed [OF assms(5) step assms(6,7), where now = now and fresh = fresh and md = md] fs f(2)
    show ?thesis by (cases "r_saw_run_error (run_at w a)") simp_all
  next
    case False
    with finish_kept [OF assms(5) step assms(6,7) fs False assms(8,9,10)] f(2) show ?thesis by simp
  qed
qed

text \<open>A run that sent one text message and finished.\<close>

definition lenient_lib :: agui_lib where
  "lenient_lib = \<lparr>al_known = [], al_valid = (\<lambda>e. True)\<rparr>"

definition finishing_commands :: "(int \<times> (nat \<Rightarrow> string) \<times> command) list" where
  "finishing_commands = map (\<lambda>c. (5, (\<lambda>n. ''m''), c))
     [Claim,
      RelayEvent (PDict [(''type'', PStr ''TEXT_MESSAGE_CONTENT''), (''messageId'', PStr ''x''), (''delta'', PStr ''hi'')]),
      RelayEvent (PDict [(''type'', PStr ''RUN_FINISHED'')])]"

definition demo_finishing :: world where
  "demo_finishing = handle_all lenient_lib 0 finishing_commands demo_world"

definition demo_fresh :: "nat \<Rightarrow> string" where
  "demo_fresh n = ''msg'' @ replicate n CHR ''x''"

lemma demo_finishing_facts:
  "0 < length (b_objs (w_broker demo_finishing)) \<and> get_last_event_seq (w_db demo_finishing) ''r1'' = 2
     \<and> r_seq (run_at demo_finishing 0) = 2"
  "r_run_id (run_at demo_finishing 0) = ''r1''" "r_thread_id (run_at demo_finishing 0) = ''t1''"
  "map_option (\<lambda>r. (rn_status r, rn_thread_id r)) (get_run (w_db demo_finishing) ''r1'') = Some (Running, ''t1'')"
  "called_for (noted lenient_lib (map (snd \<circ> snd) finishing_commands)) (r_cancel_requested (run_at demo_finishing 0)) = Completed"
  "db_messages (w_db demo_finishing) = []"
  "reduce_events_to_messages (get_run_events (w_db demo_finishing) ''r1'' (r_round_starting_seq (run_at demo_finishing 0))) =
     Inr [PDict [(''id'', PStr ''x''), (''role'', PStr ''assistant''), (''content'', PStr ''hi'')]]"
  by code_simp+

lemma demo_finishing_ok: "db_ok (w_db demo_finishing)"
  by code_simp

lemma finished_streams_settle_their_run_witness:
  "settled_as Completed 0 demo_finishing (handle_finish 9 demo_fresh 0 demo_finishing) \<and>
   get_thread_messages (w_db (handle_finish 9 demo_fresh 0 demo_finishing)) ''t1'' =
     [PDict [(''id'', PStr ''msg''), (''role'', PStr ''assistant''), (''content'', PStr ''hi'')]]"
proof -
  obtain row where row: "get_run (w_db demo_finishing) (r_run_id (run_at demo_finishing 0)) = Some row"
    "rn_status row = Running" "rn_thread_id row = r_thread_id (run_at demo_finishing 0)"
    using demo_finishing_facts(2-4) by auto
  have fresh: "unused demo_fresh (w_db demo_finishing)"
    by (auto simp: unused_def demo_finishing_facts inj_def demo_fresh_def replicate_eq_replicate)
  have step: "in_step 0 demo_world" using demo_world_facts by (simp add: in_step_def)
  have flags: "flags_of (run_at demo_world 0) = (None, False, False)" by code_simp
  have "get_thread_messages (w_db demo_finishing) ''t1'' = []"
    by (simp add: get_thread_messages_def demo_finishing_facts)
  with finished_streams_settle_their_run [OF step flags demo_finishing_def refl demo_finishing_ok row(1) _ row(3) fresh _
      demo_finishing_facts(5) [symmetric]]
    row(2) demo_finishing_facts(2,3,7)
  show ?thesis by (simp add: reply_of_def demo_fresh_def)
qed

end
