(* ===== verification/HealthClaims.thy ===== *)
theory HealthClaims
  imports Health SettleClaims
begin

text \<open>
  The health sweep fails exactly the runs that went silent or were never resumed, and leaves every
  one of them with a verdict: the failure waiting in its pipeline, or its error event in the log.
\<close>

subsection \<open>Failing rows\<close>

definition failed_row :: "int \<Rightarrow> string \<Rightarrow> run_row \<Rightarrow> run_row" where
  "failed_row now reason r = r\<lparr>rn_status := Failed, rn_completed_at := Some now,
     rn_metadata := pmerge (por (rn_metadata r) (PDict [])) (PDict [(''failureReason'', PStr reason)])\<rparr>"

lemma failed_row_simps [simp]:
  "rn_run_id (failed_row now reason r) = rn_run_id r" "rn_status (failed_row now reason r) = Failed"
  by (simp_all add: failed_row_def)

lemma distinct_rows_eq: "distinct (map rn_run_id rows) \<Longrightarrow> x \<in> set rows \<Longrightarrow> y \<in> set rows \<Longrightarrow>
    rn_run_id x = rn_run_id y \<Longrightarrow> x = y"
  by (simp add: distinct_map inj_on_def)

lemma fail_rows_eq:
  assumes "distinct (map rn_run_id rows)" "set pre \<union> set suf \<subseteq> {r \<in> set rows. p r}" "distinct (pre @ suf)"
  shows "fail_rows now p reason suf
      (d\<lparr>db_runs := map (\<lambda>r. if r \<in> set pre then failed_row now reason r else r) rows\<rparr>) =
    (d\<lparr>db_runs := map (\<lambda>r. if r \<in> set pre \<union> set suf then failed_row now reason r else r) rows\<rparr>,
     map rn_run_id suf)"
  using assms(2,3)
proof (induction suf arbitrary: pre)
  case (Cons x suf)
  let ?now = "\<lambda>S. map (\<lambda>r. if r \<in> S then failed_row now reason r else r) rows"
  let ?q = "\<lambda>r. rn_run_id r = rn_run_id x \<and> p r"
  have x: "x \<in> set rows" "p x" "x \<notin> set pre" using Cons.prems by auto
  have same: "y = x" if "y \<in> set rows" "rn_run_id y = rn_run_id x" for y
    using distinct_rows_eq [OF assms(1) that(1) x(1) that(2)] .
  have "fail_one now p reason x (d\<lparr>db_runs := ?now (set pre)\<rparr>) =
      (d\<lparr>db_runs := ?now (insert x (set pre))\<rparr>, True)"
  proof -
    have "update_where ?q (\<lambda>r. r\<lparr>rn_status := Failed, rn_completed_at := Some now,
        rn_metadata := pmerge (por (rn_metadata x) (PDict [])) (PDict [(''failureReason'', PStr reason)])\<rparr>)
        (?now (set pre)) = ?now (insert x (set pre))"
      unfolding update_where_def map_map using same x by (intro map_cong) (auto simp: failed_row_def)
    moreover have "0 < row_count ?q (?now (set pre))"
      using x by (auto simp: row_count_def filter_empty_conv intro!: bexI [of _ x])
    ultimately show ?thesis by (simp add: fail_one_def Let_def)
  qed
  moreover have "fail_rows now p reason suf (d\<lparr>db_runs := ?now (set (pre @ [x]))\<rparr>) =
      (d\<lparr>db_runs := ?now (set (pre @ [x]) \<union> set suf)\<rparr>, map rn_run_id suf)"
    by (rule Cons.IH) (use Cons.prems in auto)
  ultimately show ?case by (simp add: Un_commute insert_commute)
qed simp

lemma fail_runs_eq:
  assumes "db_ok d"
  shows "fail_runs now p reason d =
    (d\<lparr>db_runs := map (\<lambda>r. if p r then failed_row now reason r else r) (db_runs d)\<rparr>,
     map rn_run_id (filter p (db_runs d)))"
proof -
  have dist: "distinct (map rn_run_id (db_runs d))" using assms by (simp add: db_ok_def runs_ok_def)
  have "fail_rows now p reason (filter p (db_runs d))
      (d\<lparr>db_runs := map (\<lambda>r. if r \<in> set [] then failed_row now reason r else r) (db_runs d)\<rparr>) =
    (d\<lparr>db_runs := map (\<lambda>r. if r \<in> set [] \<union> set (filter p (db_runs d)) then failed_row now reason r else r) (db_runs d)\<rparr>,
     map rn_run_id (filter p (db_runs d)))"
    by (rule fail_rows_eq [OF dist]) (use dist in \<open>auto simp: distinct_map\<close>)
  then show ?thesis by (simp add: fail_runs_def cong: map_cong)
qed

lemma get_run_fail_runs:
  assumes "db_ok d" "get_run d i = Some r"
  shows "get_run (fst (fail_runs now p reason d)) i = Some (if p r then failed_row now reason r else r)"
proof -
  have "get_run (fst (fail_runs now p reason d)) i =
      map_option (\<lambda>r. if p r then failed_row now reason r else r) (get_run d i)"
    using get_run_stamp [where f = "failed_row now reason" and p = p and d = d and rid = i] by (simp add: fail_runs_eq [OF assms(1)] update_where_def)
  with assms(2) show ?thesis by simp
qed

subsection \<open>Verdicts\<close>

definition verdict :: "'z world_scheme \<Rightarrow> string \<Rightarrow> bool" where
  "verdict w i \<longleftrightarrow>
     (case dget (b_runs (w_broker w)) i of
        Some a \<Rightarrow> \<exists>reason. Fail reason \<in> set (r_in_queue (run_at w a))
      | None \<Rightarrow> \<exists>e \<in> set (get_run_events (w_db w) i 0). event_type e = PStr ''RUN_ERROR'')"

definition numbered :: "db \<Rightarrow> bool" where
  "numbered d \<longleftrightarrow> (\<forall>r \<in> set (db_events d). 0 \<le> ev_seq r)"

lemma last_seq_nonneg: "numbered d \<Longrightarrow> 0 \<le> get_last_event_seq d i"
proof -
  assume n: "numbered d"
  show ?thesis
  proof (cases "map ev_seq (filter (\<lambda>r. ev_run_id r = i) (db_events d))")
    case Nil
    then show ?thesis by (simp add: get_last_event_seq_def)
  next
    case (Cons s ss)
    then have "s \<in> set (map ev_seq (filter (\<lambda>r. ev_run_id r = i) (db_events d)))" by simp
    with n have "0 \<le> s" unfolding numbered_def by auto
    with foldl_max_ge [of s ss] have "0 \<le> foldl max s ss" by linarith
    with Cons show ?thesis by (simp add: get_last_event_seq_def)
  qed
qed

lemma tracked_push: "tracked_ok b \<Longrightarrow> tracked_ok (snd (push now i c b))"
proof -
  assume t: "tracked_ok b"
  have "b_runs (snd (push now i c b)) = b_runs b" by (auto simp: push_def split: option.split)
  moreover have "r_run_id (obj (snd (push now i c b)) x) = r_run_id (obj b x)" for x
    using seen_push [of now i c b x] by (simp add: seen_of_def)
  ultimately show ?thesis using t length_push [of now i c b] by (simp add: tracked_ok_def)
qed

lemma queue_push:
  assumes "dget (b_runs b) i = Some a" "a < length (b_objs b)"
  shows "r_in_queue (obj (snd (push now i c b)) x) = (if x = a then r_in_queue (obj b a) @ [c] else r_in_queue (obj b x))"
  using assms by (auto simp: push_def put_cmd_def obj_upd_obj split: option.split)

text \<open>Closing one run gives it its verdict and takes nobody's away.\<close>

lemma close_verdict:
  assumes "tracked_ok (w_broker w)" "numbered (w_db w)" "i \<in> run_ids (w_db w)"
  shows "\<exists>w'. close_with_terminal_event now i reason w = Inr w' \<and> verdict w' i \<and>
    (\<forall>j. verdict w j \<longrightarrow> verdict w' j) \<and> tracked_ok (w_broker w') \<and> numbered (w_db w') \<and>
    db_runs (w_db w') = db_runs (w_db w)"
proof (cases "dget (b_runs (w_broker w)) i")
  case (Some a)
  let ?b = "snd (push now i (Fail reason) (w_broker w))"
  have a: "a < length (b_objs (w_broker w))" using assms(1) Some by (simp add: tracked_ok_def)
  have runs: "b_runs ?b = b_runs (w_broker w)" by (auto simp: push_def split: option.split)
  note q = queue_push [OF Some a, of now "Fail reason"]
  have "close_with_terminal_event now i reason w = Inr (w\<lparr>w_broker := ?b\<rparr>)"
    using Some by (simp add: close_with_terminal_event_def broker_push_def case_prod_beta push_def)
  moreover have "verdict (w\<lparr>w_broker := ?b\<rparr>) i"
    using Some by (simp add: verdict_def runs run_at_def q) blast
  moreover have "verdict w j \<Longrightarrow> verdict (w\<lparr>w_broker := ?b\<rparr>) j" for j
    by (auto simp: verdict_def runs run_at_def q split: option.splits)
  ultimately show ?thesis using tracked_push [OF assms(1)] assms(2) by simp
next
  case None
  let ?e = "fail_event reason" and ?seq = "get_last_event_seq (w_db w) i + 1"
  have p: "push now i (Fail reason) (w_broker w) = (False, w_broker w)" using None by (simp add: push_def)
  show ?thesis
  proof (cases "\<exists>e \<in> set (get_run_events (w_db w) i 0). event_type e = PStr ''RUN_ERROR''")
    case True
    then show ?thesis using None p assms
      by (simp add: close_with_terminal_event_def broker_push_def verdict_def)
  next
    case False
    obtain d where d: "append_run_event now i ?seq ?e (w_db w) = Inr d"
      using assms(3) by (simp add: append_run_event_def insert_event_def)
    note nn = last_seq_nonneg [OF assms(2), of i]
    from event_log_append [OF d] nn have
      here: "get_run_events d i 0 = get_run_events (w_db w) i 0 @ [?e]" and
      there: "\<And>j. j \<noteq> i \<Longrightarrow> get_run_events d j 0 = get_run_events (w_db w) j 0"
      by simp_all
    have "close_with_terminal_event now i reason w = Inr (w\<lparr>w_db := d\<rparr>)"
      using p False d by (simp add: close_with_terminal_event_def broker_push_def)
    moreover have "verdict (w\<lparr>w_db := d\<rparr>) i"
      using None here by (simp add: verdict_def event_type_def fail_event_def pget_def pget_or_def)
    moreover have "verdict w j \<Longrightarrow> verdict (w\<lparr>w_db := d\<rparr>) j" for j
      using here there by (cases "j = i") (auto simp: verdict_def run_at_def split: option.splits)
    moreover have "numbered d" "db_runs d = db_runs (w_db w)"
      using d assms(2) nn by (auto simp: append_run_event_def insert_event_def numbered_def split: if_splits)
    ultimately show ?thesis using assms(1) by simp
  qed
qed

lemma close_all_verdicts:
  assumes "tracked_ok (w_broker w)" "numbered (w_db w)" "set is \<subseteq> run_ids (w_db w)"
  shows "\<exists>w'. close_all now reason is w = Inr w' \<and> (\<forall>i \<in> set is. verdict w' i) \<and>
    (\<forall>j. verdict w j \<longrightarrow> verdict w' j) \<and> tracked_ok (w_broker w') \<and> numbered (w_db w') \<and>
    db_runs (w_db w') = db_runs (w_db w)"
  using assms
proof (induction "is" arbitrary: w)
  case (Cons i "is")
  from close_verdict [OF Cons.prems(1,2), of i now reason] Cons.prems(3) obtain w1 where
    w1: "close_with_terminal_event now i reason w = Inr w1" "verdict w1 i" "\<forall>j. verdict w j \<longrightarrow> verdict w1 j"
      "tracked_ok (w_broker w1)" "numbered (w_db w1)" "db_runs (w_db w1) = db_runs (w_db w)"
    by auto
  have "set is \<subseteq> run_ids (w_db w1)" using Cons.prems(3) w1(6) by (simp add: run_ids_def)
  from Cons.IH [OF w1(4,5) this] w1 show ?case by auto
qed simp

subsection \<open>One sweep\<close>

lemma mem_failed_ids:
  assumes "db_ok d" "get_run d i = Some r"
  shows "i \<in> set (snd (fail_runs now p reason d)) \<longleftrightarrow> p r"
proof -
  have r: "r \<in> set (db_runs d)" "rn_run_id r = i" using get_run_mem [OF assms(2)] by simp_all
  have "x = r" if "x \<in> set (db_runs d)" "rn_run_id x = i" for x
    using get_run_unique [OF assms(1) that(1)] that(2) assms(2) by simp
  note uniq = this
  have "i \<in> rn_run_id ` set (filter p (db_runs d)) \<longleftrightarrow> p r"
  proof
    assume "i \<in> rn_run_id ` set (filter p (db_runs d))"
    then obtain x where "x \<in> set (db_runs d)" "p x" "rn_run_id x = i" by auto
    with uniq [of x] show "p r" by simp
  next
    assume "p r"
    with r show "i \<in> rn_run_id ` set (filter p (db_runs d))" by (intro image_eqI [of _ _ r]) simp_all
  qed
  then show ?thesis by (simp add: fail_runs_eq [OF assms(1)])
qed

lemma failed_ids_known: "db_ok d \<Longrightarrow> set (snd (fail_runs now p reason d)) \<subseteq> run_ids d"
  by (auto simp: fail_runs_eq run_ids_def)

lemma run_ids_fail_runs: "db_ok d \<Longrightarrow> run_ids (fst (fail_runs now p reason d)) = run_ids d"
proof -
  assume "db_ok d"
  have "map rn_run_id (map (\<lambda>r. if p r then failed_row now reason r else r) (db_runs d)) = map rn_run_id (db_runs d)"
    by simp
  then have "set (map rn_run_id (map (\<lambda>r. if p r then failed_row now reason r else r) (db_runs d))) = run_ids d"
    by (simp only: run_ids_def)
  then show ?thesis by (simp add: fail_runs_eq [OF \<open>db_ok d\<close>] run_ids_def)
qed

lemma events_fail_runs: "db_ok d \<Longrightarrow> db_events (fst (fail_runs now p reason d)) = db_events d"
  by (simp add: fail_runs_eq)

text \<open>C33: A health sweep fails exactly the runs that went silent and leaves each of them a verdict. On a
  consistent record it never raises; the runs it fails are those running or being cancelled without
  activity since the stall timeout, and, only when a pause timeout is set, those paused longer; every
  other run keeps its status; and each failed run has its failure waiting in its pipeline if the
  broker still tracks it, and an error event in its log otherwise.\<close>

theorem sweeps_leave_a_verdict:
  assumes "db_ok (w_db w)" "tracked_ok (w_broker w)" "numbered (w_db w)"
  shows "\<exists>w' stalled stale. sweep_once now stall_timeout paused_timeout w = Inr (w', stalled, stale)
    \<and> (\<forall>i r. get_run (w_db w) i = Some r \<longrightarrow>
          (i \<in> set stalled \<longleftrightarrow> rn_status r \<in> {Running, Cancelling} \<and> inactive_since (now - stall_timeout) r)
        \<and> (i \<in> set stale \<longleftrightarrow> (\<exists>t. paused_timeout = Some t \<and> rn_status r = InputRequired \<and> inactive_since (now - t) r))
        \<and> map_option rn_status (get_run (w_db w') i) =
            Some (if i \<in> set stalled \<union> set stale then Failed else rn_status r))
    \<and> (\<forall>i \<in> set stalled \<union> set stale. verdict w' i)"
proof -
  let ?d = "w_db w"
  let ?p1 = "\<lambda>r. rn_status r \<in> {Running, Cancelling} \<and> inactive_since (now - stall_timeout) r"
  let ?p2 = "\<lambda>r. \<exists>t. paused_timeout = Some t \<and> rn_status r = InputRequired \<and> inactive_since (now - t) r"
  obtain d1 stalled where s1: "fail_stalled_runs now stall_timeout ?d = (d1, stalled)"
    by (cases "fail_stalled_runs now stall_timeout ?d")
  then have f1: "d1 = fst (fail_runs now ?p1 ''stalled_no_activity'' ?d)"
      "stalled = snd (fail_runs now ?p1 ''stalled_no_activity'' ?d)"
    by (simp_all add: fail_stalled_runs_def)
  have ok1: "db_ok d1" unfolding f1 by (rule ok_fail_runs [OF assms(1)])
  obtain d2 stale where s2: "(case paused_timeout of None \<Rightarrow> (d1, [])
      | Some t \<Rightarrow> fail_stale_paused_runs now t d1) = (d2, stale)" by fastforce
  have f2: "d2 = fst (fail_runs now ?p2 ''paused_no_resume'' d1) \<and>
      stale = snd (fail_runs now ?p2 ''paused_no_resume'' d1)"
  proof (cases paused_timeout)
    case None
    then show ?thesis using s2 by (simp add: fail_runs_def)
  next
    case (Some t)
    then show ?thesis using s2 by (simp add: fail_stale_paused_runs_def)
  qed
  have known: "set stalled \<subseteq> run_ids d2" "set stale \<subseteq> run_ids d2"
    using failed_ids_known [OF assms(1)] failed_ids_known [OF ok1] f1 f2
      run_ids_fail_runs [OF assms(1)] run_ids_fail_runs [OF ok1] by auto
  have num: "numbered d2"
  proof -
    have "db_events d2 = db_events d1" using conjunct1 [OF f2] events_fail_runs [OF ok1] by simp
    also have "\<dots> = db_events ?d" unfolding f1 by (rule events_fail_runs [OF assms(1)])
    finally show ?thesis using assms(3) by (simp add: numbered_def)
  qed
  from close_all_verdicts [of "w\<lparr>w_db := d2\<rparr>" stalled now "''stalled_no_activity''"] assms(2) num known(1)
  obtain w1 where w1: "close_all now ''stalled_no_activity'' stalled (w\<lparr>w_db := d2\<rparr>) = Inr w1"
    "\<forall>i \<in> set stalled. verdict w1 i" "tracked_ok (w_broker w1)" "numbered (w_db w1)" "db_runs (w_db w1) = db_runs d2"
    by auto
  from close_all_verdicts [OF w1(3,4), of stale now "''paused_no_resume''"] known(2) w1(5)
  obtain w2 where w2: "close_all now ''paused_no_resume'' stale w1 = Inr w2"
    "\<forall>i \<in> set stale. verdict w2 i" "\<forall>j. verdict w1 j \<longrightarrow> verdict w2 j" "db_runs (w_db w2) = db_runs d2"
    by (auto simp: run_ids_def)
  have run: "sweep_once now stall_timeout paused_timeout w = Inr (w2, stalled, stale)"
    using s1 s2 w1(1) w2(1) by (simp add: sweep_once_def)
  have each: "(i \<in> set stalled \<longleftrightarrow> ?p1 r) \<and> (i \<in> set stale \<longleftrightarrow> ?p2 r) \<and>
      map_option rn_status (get_run (w_db w2) i) = Some (if i \<in> set stalled \<union> set stale then Failed else rn_status r)"
    if r: "get_run ?d i = Some r" for i r
  proof -
    let ?r1 = "if ?p1 r then failed_row now ''stalled_no_activity'' r else r"
    have g1: "get_run d1 i = Some ?r1" unfolding f1 by (rule get_run_fail_runs [OF assms(1) r])
    have g2: "get_run d2 i = Some (if ?p2 ?r1 then failed_row now ''paused_no_resume'' ?r1 else ?r1)"
      unfolding conjunct1 [OF f2] by (rule get_run_fail_runs [OF ok1 g1])
    have m1: "i \<in> set stalled \<longleftrightarrow> ?p1 r" unfolding f1 by (rule mem_failed_ids [OF assms(1) r])
    have "i \<in> set stale \<longleftrightarrow> ?p2 ?r1"
      unfolding conjunct2 [OF f2] by (rule mem_failed_ids [OF ok1 g1])
    then have m2: "i \<in> set stale \<longleftrightarrow> ?p2 r" by (auto split: if_splits)
    have "get_run (w_db w2) i = get_run d2 i" using w2(4) by (simp add: get_run_def)
    with g2 m1 m2 show ?thesis by (auto split: if_splits)
  qed
  show ?thesis
  proof (intro exI conjI)
    show "sweep_once now stall_timeout paused_timeout w = Inr (w2, stalled, stale)" by (rule run)
    show "\<forall>i r. get_run ?d i = Some r \<longrightarrow> (i \<in> set stalled \<longleftrightarrow> ?p1 r) \<and> (i \<in> set stale \<longleftrightarrow> ?p2 r) \<and>
      map_option rn_status (get_run (w_db w2) i) = Some (if i \<in> set stalled \<union> set stale then Failed else rn_status r)"
      by (intro allI impI, rule each)
    show "\<forall>i \<in> set stalled \<union> set stale. verdict w2 i" using w1(2) w2(2) w2(3) by blast
  qed
qed

text \<open>A run claimed a long time ago.\<close>

lemma sweeps_leave_a_verdict_witness:
  "\<exists>w'. sweep_once 1000 30 None demo_finishing = Inr (w', [''r1''], []) \<and> verdict w' ''r1''"
proof -
  have t: "tracked_ok (w_broker demo_finishing)"
  proof -
    have r: "b_runs (w_broker demo_finishing) = [(''r1'', 0)]" by code_simp
    show ?thesis using demo_finishing_facts(1,2) by (simp add: tracked_ok_def r run_at_def)
  qed
  have n: "numbered (w_db demo_finishing)" by code_simp
  have f: "map_option (\<lambda>(w, s, p). (s, p)) (case sweep_once 1000 30 None demo_finishing of
      Inr x \<Rightarrow> Some x | Inl e \<Rightarrow> None) = Some ([''r1''], [])" by code_simp
  from sweeps_leave_a_verdict [OF demo_finishing_ok t n, of 1000 30 None] obtain w' st sl where
    "sweep_once 1000 30 None demo_finishing = Inr (w', st, sl)" "\<forall>i \<in> set st \<union> set sl. verdict w' i" by blast
  with f show ?thesis by auto
qed

end
