(* ===== verification/KyokClaims.thy ===== *)
theory KyokClaims
  imports KyokDoor SignatureClaims RepoClaims
begin

text \<open>
  What the KYOK door promises: tokens are worth what was signed into them until they expire, a
  completion reaches only the link that serves the offering the run was bound to, every drained
  completion is counted once, and a collapsed stream holds each choice's text in order.
\<close>

subsection \<open>Tokens\<close>

abbreviation token_body :: "codec \<Rightarrow> rat \<Rightarrow> string \<Rightarrow> agent_ref \<Rightarrow> string" where
  "token_body K now run_id agent \<equiv> cd_b64_json K (token_payload now run_id agent)"

lemma split_issued:
  "codec_ok K (token_payload now run_id agent) \<Longrightarrow>
     split_dot (issue_kyok_token K now run_id agent secret) =
       Some (token_body K now run_id agent, cd_hmac_hex K secret (token_body K now run_id agent))"
  by (simp add: issue_kyok_token_def Let_def split_dot_append codec_ok_def)

lemma token_payload_fields [simp]:
  "is_dict (token_payload now run_id agent)"
  "pget_or (token_payload now run_id agent) ''exp'' x = PInt (int_time now + KYOK_TOKEN_TTL_SECONDS)"
  "token_of_payload (token_payload now run_id agent) = Some \<lparr>kt_run_id = run_id, kt_agent = agent\<rparr>"
  by (simp_all add: token_payload_def pget_or_def token_of_payload_def pget_def)

lemma verify_issued:
  assumes "codec_ok K (token_payload now run_id agent)"
  shows "verify_kyok_token K now' (issue_kyok_token K now run_id agent secret) secret' =
    Inr (if cd_hmac_hex K secret' (token_body K now run_id agent) =
              cd_hmac_hex K secret (token_body K now run_id agent)
            \<and> now' \<le> of_int (int_time now + KYOK_TOKEN_TTL_SECONDS)
         then Some \<lparr>kt_run_id = run_id, kt_agent = agent\<rparr> else None)"
proof -
  have "cd_unb64_json K (token_body K now run_id agent) = Some (token_payload now run_id agent)"
    "\<And>k m. is_ascii (cd_hmac_hex K k m)"
    using assms by (simp_all add: codec_ok_def)
  then show ?thesis
    by (simp add: verify_kyok_token_def split_issued [OF assms] compare_digest_def expired_def not_less
        del: of_int_add)
qed

text \<open>C35: A KYOK token is worth what was signed into it, for an hour. Verified under a secret that signs
  its body alike (its own, in particular) it yields the run and the agent it was issued for up to
  its expiry, \<open>int(now) + 3600\<close>, and nothing after; under any other secret it yields nothing.\<close>

theorem kyok_tokens_round_trip:
  assumes "codec_ok K (token_payload now run_id agent)"
  shows "verify_kyok_token K now' (issue_kyok_token K now run_id agent secret) secret' =
    Inr (if cd_hmac_hex K secret' (cd_b64_json K (token_payload now run_id agent)) =
              cd_hmac_hex K secret (cd_b64_json K (token_payload now run_id agent))
            \<and> now' \<le> of_int (int_time now + KYOK_TOKEN_TTL_SECONDS)
         then Some \<lparr>kt_run_id = run_id, kt_agent = agent\<rparr> else None)"
  by (rule verify_issued [OF assms])

text \<open>A codec for the witnesses: it decodes the one body it is used with, and signs with the hex of
  the secret in front of the hex of the message.\<close>

definition demo_payload :: pyval where
  "demo_payload = token_payload 1000 ''r1'' demo_ref"

definition demo_codec :: codec where
  "demo_codec = \<lparr>cd_hmac_hex = (\<lambda>k m. to_hex k @ to_hex m),
     cd_b64_json = (\<lambda>v. to_hex (py_repr v)),
     cd_unb64_json = (\<lambda>s. if s = to_hex (py_repr demo_payload) then Some demo_payload else None)\<rparr>"

lemma hex_digit_plain: "n < 16 \<Longrightarrow> hex_digit n \<noteq> CHR ''.'' \<and> (of_char (hex_digit n) :: nat) < 128"
  by (auto simp: hex_digit_def dest!: arg_cong [where f = "of_char :: char \<Rightarrow> nat"])

lemma to_hex_plain: "c \<in> set (to_hex s) \<Longrightarrow> c \<noteq> CHR ''.'' \<and> (of_char c :: nat) < 128"
proof -
  have n: "(of_char b :: nat) div 16 < 16" "(of_char b :: nat) mod 16 < 16" for b :: char
    by (rule less_mult_imp_div_less, simp, simp)
  show "c \<in> set (to_hex s) \<Longrightarrow> ?thesis"
    using hex_digit_plain [OF n(1)] hex_digit_plain [OF n(2)] by (auto simp: to_hex_def Let_def)
qed

lemma demo_codec_ok: "codec_ok demo_codec (token_payload 1000 ''r1'' demo_ref)"
proof -
  have "CHR ''.'' \<notin> set (to_hex s)" "is_ascii (to_hex k @ to_hex s)" for s k
    using to_hex_plain by (auto simp: is_ascii_def)
  then show ?thesis by (simp add: codec_ok_def demo_codec_def demo_payload_def)
qed

lemma kyok_tokens_round_trip_witness:
  "verify_kyok_token demo_codec 4600 (issue_kyok_token demo_codec 1000 ''r1'' demo_ref ''s'') ''s'' =
     Inr (Some \<lparr>kt_run_id = ''r1'', kt_agent = demo_ref\<rparr>) \<and>
   verify_kyok_token demo_codec 4601 (issue_kyok_token demo_codec 1000 ''r1'' demo_ref ''s'') ''s'' = Inr None \<and>
   verify_kyok_token demo_codec 4600 (issue_kyok_token demo_codec 1000 ''r1'' demo_ref ''s'') ''t'' = Inr None"
  unfolding kyok_tokens_round_trip [OF demo_codec_ok]
  by (simp add: int_time_def KYOK_TOKEN_TTL_SECONDS_def demo_codec_def to_hex_def hex_digit_def Let_def)

subsection \<open>Admission\<close>

lemma genuine_forward:
  assumes "crypto_ok C" "codec_ok K (token_payload t0 run_id agent)"
    and "now \<le> of_int (int_time t0 + KYOK_TOKEN_TTL_SECONDS)" "is_timestamp_fresh now ts"
    and "get_run_snapshot b run_id = Some r" "\<not> rs_cancel_requested r" "rs_agent r = agent"
    and "ar_provider_key agent = id_public_key (identity_of C s)" "get_agent d agent = Some row"
    and "binding_for k run_id = Some bd" "kyok_serving k (kb_llm_provider bd) = Some link"
    and "json body = Parsed (PDict kvs)"
    and "bearer = issue_kyok_token K t0 run_id agent secret"
    and "signature = sign C (identity_of C s) (sdk_kyok_call_payload bearer ts (sha256_hex C body))"
    and "signature \<noteq> []"
  shows "kyok_complete C K json secret now b d k bearer body (render_int ts) signature =
    Inr \<lparr>cr_stream_requested = truthy (pget (PDict kvs) ''stream''),
         cr_counted_key = lf_provider_key (kb_llm_provider bd), cr_link = link,
         cr_request = \<lparr>cq_run_id = run_id, cq_agent = agent, cq_body = PDict kvs,
           cq_llm_name = lf_name (kb_llm_provider bd), cq_context = kb_context bd,
           cq_actor_chain = kb_actor_chain bd\<rparr>\<rparr>"
proof -
  have p: "sdk_kyok_call_payload bearer ts h = kyok_call_signing_payload bearer ts h" for h
    by (simp add: payload_defs sdk_payload_defs tag_defs)
  have "verify_kyok_token K now bearer secret = Inr (Some \<lparr>kt_run_id = run_id, kt_agent = agent\<rparr>)"
    using verify_issued [OF assms(2), of now secret secret] assms(3) by (simp add: assms(13))
  moreover have "render_int ts \<noteq> []"
    using int_of_render [of ts] by (auto simp: int_of_string_def strip_def)
  then have "verify_caller C now d \<lparr>kt_run_id = run_id, kt_agent = agent\<rparr> bearer body (render_int ts) signature
      = Inr ()"
    using assms(4,8,9,15) own_signature_verifies [OF assms(1), of s]
    by (simp add: verify_caller_def assms(14) p)
  ultimately show ?thesis
    using assms(5-7,10-12) by (simp add: kyok_complete_def run_of_token_def forward_completion_def)
qed

text \<open>C34: A genuine call reaches the link of its run's own offering. For a tracked run that is not being
  cancelled, a call with the token issued for it and its agent, signed by the agent's provider
  within a minute of funduq's clock and before the token expires, is handed to the link that serves
  the offering the run is bound to, with the parsed body, the run's context and its actor chain.\<close>

theorem genuine_call_is_forwarded:
  assumes "crypto_ok C" "codec_ok K (token_payload t0 run_id agent)"
    and "now \<le> of_int (int_time t0 + KYOK_TOKEN_TTL_SECONDS)" "is_timestamp_fresh now ts"
    and "get_run_snapshot b run_id = Some r" "\<not> rs_cancel_requested r" "rs_agent r = agent"
    and "ar_provider_key agent = id_public_key (identity_of C s)" "get_agent d agent = Some row"
    and "binding_for k run_id = Some bd" "kyok_serving k (kb_llm_provider bd) = Some link"
    and "json body = Parsed (PDict kvs)"
    and "bearer = issue_kyok_token K t0 run_id agent secret"
    and "signature = sign C (identity_of C s) (sdk_kyok_call_payload bearer ts (sha256_hex C body))"
    and "signature \<noteq> []"
  shows "kyok_complete C K json secret now b d k bearer body (render_int ts) signature =
    Inr \<lparr>cr_stream_requested = truthy (pget (PDict kvs) ''stream''),
         cr_counted_key = lf_provider_key (kb_llm_provider bd), cr_link = link,
         cr_request = \<lparr>cq_run_id = run_id, cq_agent = agent, cq_body = PDict kvs,
           cq_llm_name = lf_name (kb_llm_provider bd), cq_context = kb_context bd,
           cq_actor_chain = kb_actor_chain bd\<rparr>\<rparr>"
  using assms by (rule genuine_forward)

text \<open>One run on a broker, bound to an offering that one link serves.\<close>

definition kyok_demo_broker :: "unit broker" where
  "kyok_demo_broker =
     (case enqueue_run 0 ''r1'' demo_ref ''t1'' (PDict []) ''ag-ui'' None 0 (start (new_broker None)) of
        Inr (a, b) \<Rightarrow> b | Inl e \<Rightarrow> new_broker None)"

definition demo_llm :: llm_ref where
  "demo_llm = \<lparr>lf_provider_key = ''m'', lf_name = ''gpt''\<rparr>"

definition kyok_demo_relay :: kyok_relay where
  "kyok_demo_relay = bind_run ''r1'' \<lparr>kb_llm_provider = demo_llm, kb_context = PNone, kb_actor_chain = None\<rparr>
     (kyok_attach [(demo_llm, \<lparr>lk_id = 7, lk_public_key = ''m''\<rparr>)] new_kyok_relay)"

definition demo_bearer :: string where
  "demo_bearer = issue_kyok_token demo_codec 1000 ''r1'' demo_ref ''s''"

definition demo_signature :: string where
  "demo_signature = sign toy_crypto (identity_of toy_crypto ''k'')
     (sdk_kyok_call_payload demo_bearer 1005 (sha256_hex toy_crypto ''{}''))"

definition demo_relayed :: completion_relay where
  "demo_relayed = \<lparr>cr_stream_requested = False, cr_counted_key = ''m'',
     cr_link = \<lparr>lk_id = 7, lk_public_key = ''m''\<rparr>,
     cr_request = \<lparr>cq_run_id = ''r1'', cq_agent = demo_ref, cq_body = PDict [], cq_llm_name = ''gpt'',
       cq_context = PNone, cq_actor_chain = None\<rparr>\<rparr>"

lemma demo_call_facts:
  "map_option (\<lambda>r. rs_cancel_requested r \<or> rs_agent r \<noteq> demo_ref) (get_run_snapshot kyok_demo_broker ''r1'') = Some False"
  "ar_provider_key demo_ref = id_public_key (identity_of toy_crypto ''k'')"
  "map_option agent_key (get_agent demo_run demo_ref) = Some demo_ref"
  "binding_for kyok_demo_relay ''r1'' =
     Some \<lparr>kb_llm_provider = demo_llm, kb_context = PNone, kb_actor_chain = None\<rparr>"
  "kyok_serving kyok_demo_relay demo_llm = Some \<lparr>lk_id = 7, lk_public_key = ''m''\<rparr>"
  by code_simp+

lemma demo_signature_some: "demo_signature \<noteq> []"
  by (simp add: demo_signature_def sign_def toy_crypto_def identity_of_def to_hex_def Let_def)

lemma demo_call_premises:
  obtains r row where "get_run_snapshot kyok_demo_broker ''r1'' = Some r" "\<not> rs_cancel_requested r"
    "rs_agent r = demo_ref" "get_agent demo_run demo_ref = Some row"
    "(1010 :: rat) \<le> of_int (int_time 1000 + KYOK_TOKEN_TTL_SECONDS)" "is_timestamp_fresh 1010 1005"
proof -
  obtain r where r: "get_run_snapshot kyok_demo_broker ''r1'' = Some r" "\<not> rs_cancel_requested r" "rs_agent r = demo_ref"
    using demo_call_facts(1) by auto
  obtain row where row: "get_agent demo_run demo_ref = Some row" using demo_call_facts(3) by auto
  show ?thesis
    by (rule that [OF r row]) (simp_all add: int_time_def KYOK_TOKEN_TTL_SECONDS_def is_timestamp_fresh_def
        SIGNATURE_FRESHNESS_WINDOW_SECONDS_def)
qed

lemma demo_serving: "kyok_serving kyok_demo_relay
    (kb_llm_provider \<lparr>kb_llm_provider = demo_llm, kb_context = PNone, kb_actor_chain = None\<rparr>) =
  Some \<lparr>lk_id = 7, lk_public_key = ''m''\<rparr>"
  using demo_call_facts(5) by simp

lemma demo_call:
  "kyok_complete toy_crypto demo_codec (\<lambda>_. Parsed (PDict [])) ''s'' 1010 kyok_demo_broker demo_run
     kyok_demo_relay demo_bearer ''{}'' (render_int 1005) demo_signature = Inr demo_relayed"
proof -
  obtain r row where p: "get_run_snapshot kyok_demo_broker ''r1'' = Some r" "\<not> rs_cancel_requested r"
    "rs_agent r = demo_ref" "get_agent demo_run demo_ref = Some row"
    "(1010 :: rat) \<le> of_int (int_time 1000 + KYOK_TOKEN_TTL_SECONDS)" "is_timestamp_fresh 1010 1005"
    by (rule demo_call_premises)
  show ?thesis
    using genuine_forward [where json = "\<lambda>_. Parsed (PDict [])", OF toy_crypto_ok demo_codec_ok p(5,6,1,2,3)
        demo_call_facts(2) p(4) demo_call_facts(4) demo_serving refl demo_bearer_def demo_signature_def
        demo_signature_some]
    by (simp add: demo_relayed_def demo_llm_def pget_def pget_or_def)
qed

lemma genuine_call_is_forwarded_witness:
  "kyok_complete toy_crypto demo_codec (\<lambda>_. Parsed (PDict [])) ''s'' 1010 kyok_demo_broker demo_run
     kyok_demo_relay demo_bearer ''{}'' (render_int 1005) demo_signature = Inr demo_relayed"
proof -
  obtain r row where p: "get_run_snapshot kyok_demo_broker ''r1'' = Some r" "\<not> rs_cancel_requested r"
    "rs_agent r = demo_ref" "get_agent demo_run demo_ref = Some row"
    "(1010 :: rat) \<le> of_int (int_time 1000 + KYOK_TOKEN_TTL_SECONDS)" "is_timestamp_fresh 1010 1005"
    by (rule demo_call_premises)
  show ?thesis
    using genuine_call_is_forwarded [where json = "\<lambda>_. Parsed (PDict [])", OF toy_crypto_ok demo_codec_ok p(5,6,1,2,3)
        demo_call_facts(2) p(4) demo_call_facts(4) demo_serving refl demo_bearer_def demo_signature_def
        demo_signature_some]
    by (simp add: demo_relayed_def demo_llm_def pget_def pget_or_def)
qed

text \<open>C5: Nothing else gets a completion. Whatever is forwarded was asked for with a token signed under
  funduq's secret and not expired, naming a tracked, uncancelled run and its agent, with a signature
  under that registered agent's key over this token, this timestamp (at most a minute off) and this
  body; and it goes to the link that serves the offering this run is bound to, under its provider's
  name in the counters.\<close>

theorem only_the_runs_agent_gets_completions:
  assumes "kyok_complete C K json secret now b d k bearer body timestamp signature = Inr relay"
  shows "\<exists>part run_id agent r ts row bd link.
      bearer = part @ CHR ''.'' # cd_hmac_hex K secret part
    \<and> map_option token_of_payload (cd_unb64_json K part) =
        Some (Some \<lparr>kt_run_id = run_id, kt_agent = agent\<rparr>)
    \<and> get_run_snapshot b run_id = Some r \<and> \<not> rs_cancel_requested r \<and> rs_agent r = agent
    \<and> get_agent d agent = Some row
    \<and> int_of_string timestamp = Some ts \<and> is_timestamp_fresh now ts
    \<and> verify_signature C (ar_provider_key agent) signature
        (kyok_call_signing_payload bearer ts (sha256_hex C body))
    \<and> binding_for k run_id = Some bd \<and> kyok_serving k (kb_llm_provider bd) = Some link
    \<and> cr_link relay = link \<and> cr_counted_key relay = lf_provider_key (kb_llm_provider bd)
    \<and> json body = Parsed (cq_body (cr_request relay)) \<and> cq_agent (cr_request relay) = agent
    \<and> cq_run_id (cr_request relay) = run_id"
proof -
  from assms obtain token payload where
    t: "verify_kyok_token K now bearer secret = Inr (Some token)" and
    r: "run_of_token b token = Inr ()" and
    c: "verify_caller C now d token bearer body timestamp signature = Inr ()" and
    j: "json body = Parsed payload" and
    f: "forward_completion k token payload = Inr relay"
  proof -
    from assms obtain v where v: "verify_kyok_token K now bearer secret = Inr v"
      and rest: "(case v of None \<Rightarrow> Inl (KyokRejected 401) | Some token \<Rightarrow>
           bindR (run_of_token b token) (\<lambda>_.
           bindR (verify_caller C now d token bearer body timestamp signature) (\<lambda>_.
             case json body of NotJson \<Rightarrow> Inl (KyokRejected 400) | NotText \<Rightarrow> Inl UnicodeDecodeError
             | Parsed payload \<Rightarrow> forward_completion k token payload))) = Inr relay"
      by (auto simp: kyok_complete_def)
    then show ?thesis using that by (cases v; cases "json body") auto
  qed
  from t obtain part sig v where
    sp: "split_dot bearer = Some (part, sig)" "sig = cd_hmac_hex K secret part"
      "cd_unb64_json K part = Some v" "token_of_payload v = Some token"
    by (auto simp: verify_kyok_token_def compare_digest_def split: option.splits if_splits)
  from c obtain ts row where
    ts: "int_of_string timestamp = Some ts" "is_timestamp_fresh now ts" "get_agent d (kt_agent token) = Some row"
      "verify_signature C (ar_provider_key (kt_agent token)) signature
        (kyok_call_signing_payload bearer ts (sha256_hex C body))"
    by (auto simp: verify_caller_def split: option.splits if_splits)
  from r obtain snap where
    "get_run_snapshot b (kt_run_id token) = Some snap" "\<not> rs_cancel_requested snap" "rs_agent snap = kt_agent token"
    by (auto simp: run_of_token_def split: option.splits if_splits)
  moreover from f obtain bd link where
    "binding_for k (kt_run_id token) = Some bd" "kyok_serving k (kb_llm_provider bd) = Some link"
      "cr_link relay = link" "cr_counted_key relay = lf_provider_key (kb_llm_provider bd)"
      "cq_body (cr_request relay) = payload" "cq_agent (cr_request relay) = kt_agent token"
      "cq_run_id (cr_request relay) = kt_run_id token"
    by (auto simp: forward_completion_def split: option.splits if_splits)
  moreover have "bearer = part @ CHR ''.'' # cd_hmac_hex K secret part"
    using split_dot_Some [OF sp(1)] sp(2) by simp
  moreover have "map_option token_of_payload (cd_unb64_json K part) =
      Some (Some \<lparr>kt_run_id = kt_run_id token, kt_agent = kt_agent token\<rparr>)"
    using sp(3,4) by simp
  ultimately show ?thesis using ts j by blast
qed

lemma only_the_runs_agent_gets_completions_witness:
  "\<exists>part. demo_bearer = part @ CHR ''.'' # cd_hmac_hex demo_codec ''s'' part"
  using only_the_runs_agent_gets_completions [OF demo_call] by blast

text \<open>A bearer with a character outside ASCII after its first full stop is not refused with
  \<open>KyokRejected\<close>: \<open>hmac.compare_digest\<close> raises \<open>TypeError\<close>, which neither \<open>verify_kyok_token\<close> nor
  \<open>complete\<close> catches.\<close>

theorem non_ascii_bearer_escapes:
  assumes "split_dot bearer = Some (part, sig)" "\<not> is_ascii sig"
  shows "verify_kyok_token K now bearer secret = Inl TypeError
    \<and> kyok_complete C K json secret now b d k bearer body timestamp signature = Inl TypeError"
  using assms by (simp add: verify_kyok_token_def compare_digest_def kyok_complete_def)

lemma non_ascii_bearer_escapes_witness:
  "verify_kyok_token demo_codec 5 [CHR ''a'', CHR ''.'', CHR 0xE9] ''s'' = Inl TypeError"
proof -
  have "split_dot [CHR ''a'', CHR ''.'', CHR 0xE9] = Some (''a'', [CHR 0xE9])" "\<not> is_ascii [CHR 0xE9]"
    by (simp_all add: is_ascii_def)
  from non_ascii_bearer_escapes [OF this] show ?thesis by blast
qed

end
