(* ===== verification/CoreClaims.thy ===== *)
theory CoreClaims
  imports RosterClaims HealthClaims KyokClaims
begin

text \<open>
  What the facade promises beyond its rosters: deleting cannot break the record, only the holder of a
  run can speak for it, a start leaves no run of a former process behind, and the end of a run ends
  what its provider may ask of an LLM.
\<close>

subsection \<open>Deleting\<close>

lemma count_zero_iff:
  "count_threads_for_agent d a = 0 \<longleftrightarrow> (\<forall>r \<in> set (db_threads d). thread_agent r \<noteq> a)"
  "count_runs_for_agent d a None = 0 \<longleftrightarrow> (\<forall>r \<in> set (db_runs d). run_agent r \<noteq> a)"
  by (auto simp: count_threads_for_agent_def count_runs_for_agent_def row_count_def filter_empty_conv)

lemma get_agent_filter:
  "find (\<lambda>r. agent_key r = x) (filter (\<lambda>r. agent_key r \<noteq> a) rows) =
     (if x = a then None else find (\<lambda>r. agent_key r = x) rows)"
  by (induction rows) auto

text \<open>Deleting an agent is safe. On a consistent record the database never refuses it: it fails only
  for a bad signature, an unknown agent or one in use; and when it succeeds, the key signed the
  deletion, nobody serves the agent and no thread or run refers to it, it is gone from the record,
  every other agent is as before, and the record is consistent.\<close>

theorem deleting_an_agent_is_safe:
  assumes "db_ok (w_db w)"
  shows "case core_delete_agent C now key name sig ts w of
      Inl e \<Rightarrow> e \<in> {InvalidRegistration, AgentNotFound} \<union> range AgentInUse
    | Inr w' \<Rightarrow> verify_signature C key sig (agent_deletion_signing_payload name ts) \<and> is_timestamp_fresh now ts
        \<and> serving (w_broker w) \<lparr>ar_provider_key = key, ar_name = name\<rparr> = None
        \<and> (\<forall>r \<in> set (db_threads (w_db w)). thread_agent r \<noteq> \<lparr>ar_provider_key = key, ar_name = name\<rparr>)
        \<and> (\<forall>r \<in> set (db_runs (w_db w)). run_agent r \<noteq> \<lparr>ar_provider_key = key, ar_name = name\<rparr>)
        \<and> (\<forall>a. get_agent (w_db w') a =
              (if a = \<lparr>ar_provider_key = key, ar_name = name\<rparr> then None else get_agent (w_db w) a))
        \<and> db_ok (w_db w')"
proof -
  let ?a = "\<lparr>ar_provider_key = key, ar_name = name\<rparr>"
  let ?fine = "is_timestamp_fresh now ts \<and> verify_signature C key sig (agent_deletion_signing_payload name ts) \<and>
    get_agent (w_db w) ?a \<noteq> None \<and> serving (w_broker w) ?a = None \<and>
    count_runs_for_agent (w_db w) ?a (Some ACTIVE_RUN_STATUSES) = 0 \<and>
    count_threads_for_agent (w_db w) ?a = 0 \<and> count_runs_for_agent (w_db w) ?a None = 0"
  show ?thesis
  proof (cases ?fine)
    case True
    then obtain d gone where d: "delete_agent ?a (w_db w) = Inr (d, gone)"
      by (auto simp: delete_agent_def)
    have "core_delete_agent C now key name sig ts w = Inr (notify_change RosterChanged (w\<lparr>w_db := d\<rparr>))"
      using True d by (simp add: core_delete_agent_def Let_def)
    moreover have "get_agent d a = (if a = ?a then None else get_agent (w_db w) a)" for a
      using d by (auto simp: delete_agent_def get_agent_def get_agent_filter split: if_splits)
    moreover have "db_ok d" by (rule ok_delete_agent [OF d assms])
    ultimately show ?thesis using True by (simp add: notify_change_def count_zero_iff)
  next
    case False
    then show ?thesis by (auto simp: core_delete_agent_def Let_def)
  qed
qed

lemma deleting_an_agent_is_safe_witness:
  "\<exists>w'. core_delete_agent toy_crypto 100 ''6b'' ''a''
       (sign toy_crypto (identity_of toy_crypto ''k'') (agent_deletion_signing_payload ''a'' 100)) 100 demo_core = Inr w'
     \<and> get_agent (w_db w') demo_ref = None"
proof -
  let ?r = "core_delete_agent toy_crypto 100 ''6b'' ''a''
       (sign toy_crypto (identity_of toy_crypto ''k'') (agent_deletion_signing_payload ''a'' 100)) 100 demo_core"
  have "case ?r of Inr _ \<Rightarrow> True | Inl _ \<Rightarrow> False" by code_simp
  then obtain w' where r: "?r = Inr w'" by (auto split: sum.splits)
  have "db_ok (w_db demo_core)"
    using ok_register_agents [OF demo_writes(1)] ok_init by (simp add: demo_core_def repo_init_def)
  from deleting_an_agent_is_safe [OF this, where C = toy_crypto and now = 100 and key = "''6b''" and name = "''a''"
      and ts = 100 and sig = "sign toy_crypto (identity_of toy_crypto ''k'') (agent_deletion_signing_payload ''a'' 100)"]
  show ?thesis by (simp add: r demo_ref_def)
qed

subsection \<open>Reporting\<close>

lemma late_ack_claims:
  assumes "dget (b_runs b) i = Some a" "a < length (b_objs b)" "accept_late_ack now i key b = (True, b')"
  shows "dget (b_runs b') i = Some a" "a < length (b_objs b')" "r_claimed_by (obj b' a) = Some key"
proof -
  from assms obtain p where p: "c_public_key p = key"
    and b': "b' = claim_run a p (note_abnormal now key ''answered_late'' (take_capacity key (queue_remove (r_agent (obj b a)) i b)))"
    by (auto simp: accept_late_ack_def split: if_splits option.splits)
  show "dget (b_runs b') i = Some a" "a < length (b_objs b')" "r_claimed_by (obj b' a) = Some key"
    using assms(1,2) p by (simp_all add: b' claim_run_obj)
qed

lemma broker_push_tracked:
  assumes "dget (b_runs (w_broker w)) i = Some a" "a < length (b_objs (w_broker w))"
    "broker_push now i (RelayEvent e) w = (ok, w')"
  shows "ok" "r_claimed_by (run_at w' a) = r_claimed_by (run_at w a)"
    "r_in_queue (run_at w' a) = r_in_queue (run_at w a) @ [RelayEvent e]"
  using assms by (auto simp: broker_push_def push_def put_cmd_def run_at_def obj_upd_obj split: option.splits)



subsection \<open>Starting\<close>

lemma close_frame:
  assumes "close_with_terminal_event now i reason w = Inr w'"
  shows "\<exists>d b. w' = w\<lparr>w_broker := b, w_db := d\<rparr>"
proof -
  obtain pushed b where b: "push now i (Fail reason) (w_broker w) = (pushed, b)" by fastforce
  have same: "v\<lparr>w_broker := b\<rparr> = v\<lparr>w_broker := b, w_db := w_db v\<rparr>" for v :: "'z world_scheme" by simp
  have "w' = w\<lparr>w_broker := b\<rparr> \<or> (\<exists>d. w' = w\<lparr>w_broker := b, w_db := d\<rparr>)"
    using assms b by (simp add: close_with_terminal_event_def broker_push_def split: if_splits) blast+
  with same [of w] show ?thesis by metis
qed

lemma close_all_started:
  "close_all now reason is w = Inr w' \<Longrightarrow> c_started w' = c_started (w :: core)"
proof (induction "is" arbitrary: w)
  case (Cons i "is")
  then obtain w1 where w1: "close_with_terminal_event now i reason w = Inr w1" "close_all now reason is w1 = Inr w'"
    by auto
  from close_frame [OF w1(1)] have "c_started w1 = c_started w" by auto
  with Cons.IH [OF w1(2)] show ?case by simp
qed simp

lemma not_failed_after:
  assumes "db_ok d" "r \<in> set (db_runs (fst (fail_runs now p reason d)))" "\<And>r. \<not> p (failed_row now reason r)"
  shows "\<not> p r"
proof -
  have "r \<in> (\<lambda>x. if p x then failed_row now reason x else x) ` set (db_runs d)"
    using assms(2) by (simp add: fail_runs_eq [OF assms(1)])
  then obtain x where "r = (if p x then failed_row now reason x else x)" by (rule imageE)
  with assms(3) show ?thesis by (cases "p x") simp_all
qed

text \<open>C32: A start settles what a former process left behind, once. On a consistent record the first start
  does not raise; it returns exactly the runs that were queued, running or being cancelled; each of
  them is failed and has its verdict; no run is left in one of those three states; dispatch is on. A
  second start returns nothing and changes nothing.\<close>

theorem start_reaps_the_orphans:
  assumes "db_ok (w_db w)" "tracked_ok (w_broker w)" "numbered (w_db w)" "\<not> c_started w"
  shows "\<exists>w' orphaned. core_start now w = (w', Inr orphaned)
    \<and> (\<forall>i r. get_run (w_db w) i = Some r \<longrightarrow>
          (i \<in> set orphaned \<longleftrightarrow> rn_status r \<in> {Queued, Running, Cancelling})
        \<and> map_option rn_status (get_run (w_db w') i) = Some (if i \<in> set orphaned then Failed else rn_status r))
    \<and> (\<forall>i \<in> set orphaned. verdict w' i)
    \<and> (\<forall>r \<in> set (db_runs (w_db w')). rn_status r \<notin> {Queued, Running, Cancelling})
    \<and> b_is_running (w_broker w') \<and> core_start later w' = (w', Inr [])"
proof -
  let ?p = "\<lambda>r. rn_status r \<in> {Queued, Running, Cancelling}"
  let ?f = "fail_runs now ?p ''orphaned_by_funduq_restart'' (w_db w)"
  obtain d orphaned where f: "?f = (d, orphaned)" by (cases ?f)
  let ?w = "w\<lparr>c_started := True, w_db := d\<rparr>"
  have ids: "set orphaned \<subseteq> run_ids d"
    using failed_ids_known [OF assms(1), of now ?p "''orphaned_by_funduq_restart''"]
      run_ids_fail_runs [OF assms(1), of now ?p "''orphaned_by_funduq_restart''"] f by simp
  have num: "numbered d"
    using events_fail_runs [OF assms(1), of now ?p "''orphaned_by_funduq_restart''"] assms(3) f
    by (simp add: numbered_def)
  from close_all_verdicts [of ?w orphaned now "''orphaned_by_funduq_restart''"] assms(2) num ids
  obtain w1 where w1: "close_all now ''orphaned_by_funduq_restart'' orphaned ?w = Inr w1"
    "\<forall>i \<in> set orphaned. verdict w1 i" "db_runs (w_db w1) = db_runs d"
    by auto
  let ?w' = "w1\<lparr>w_broker := start (w_broker w1), c_sweeping := True\<rparr>"
  have started: "c_started w1" using close_all_started [OF w1(1)] by simp
  have run: "core_start now w = (?w', Inr orphaned)"
    using assms(4) f w1(1) by (simp add: core_start_def start_dispatch_def fail_orphaned_runs_def)
  have each: "(i \<in> set orphaned \<longleftrightarrow> ?p r) \<and>
      map_option rn_status (get_run (w_db ?w') i) = Some (if i \<in> set orphaned then Failed else rn_status r)"
    if r: "get_run (w_db w) i = Some r" for i r
    using mem_failed_ids [OF assms(1) r, of now ?p "''orphaned_by_funduq_restart''"]
      get_run_fail_runs [OF assms(1) r, of now ?p "''orphaned_by_funduq_restart''"] f w1(3)
    by (simp add: get_run_def)
  have none: "\<not> ?p r" if "r \<in> set (db_runs (w_db ?w'))" for r
    using not_failed_after [OF assms(1), of r now ?p "''orphaned_by_funduq_restart''"] that f w1(3) by simp
  have "verdict ?w' i = verdict w1 i" for i
    by (simp add: verdict_def run_at_def start_def obj_def split: option.split)
  with w1(2) have "\<forall>i \<in> set orphaned. verdict ?w' i" by simp
  note verdicts = this
  have on: "b_is_running (w_broker ?w')" by (simp add: start_def)
  have again: "core_start later ?w' = (?w', Inr [])" using started by (simp add: core_start_def)
  show ?thesis
  proof (intro exI conjI)
    show "core_start now w = (?w', Inr orphaned)" by (rule run)
    show "\<forall>i r. get_run (w_db w) i = Some r \<longrightarrow> (i \<in> set orphaned \<longleftrightarrow> ?p r)
        \<and> map_option rn_status (get_run (w_db ?w') i) = Some (if i \<in> set orphaned then Failed else rn_status r)"
      using each by blast
    show "\<forall>i \<in> set orphaned. verdict ?w' i" by (rule verdicts)
    show "\<forall>r \<in> set (db_runs (w_db ?w')). rn_status r \<notin> {Queued, Running, Cancelling}"
      using none by blast
  qed (rule on, rule again)
qed

definition demo_restarted :: core where
  "demo_restarted = \<lparr>w_db = demo_run, w_broker = new_broker None, w_changes = [], w_cancels = [],
     c_relay = new_kyok_relay, c_challenges = [], c_started = False, c_sweeping = False\<rparr>"

lemma demo_restarted_ok: "db_ok (w_db demo_restarted)" "tracked_ok (w_broker demo_restarted)"
  "numbered (w_db demo_restarted)" "\<not> c_started demo_restarted"
proof -
  show "db_ok (w_db demo_restarted)" using constraints.holds [OF reach_demo] by (simp add: demo_restarted_def)
  show "tracked_ok (w_broker demo_restarted)" by (simp add: demo_restarted_def tracked_ok_def new_broker_def)
  show "numbered (w_db demo_restarted)" by code_simp
  show "\<not> c_started demo_restarted" by (simp add: demo_restarted_def)
qed

lemma start_reaps_the_orphans_witness:
  "\<exists>w'. core_start 9 demo_restarted = (w', Inr [''r1'']) \<and> verdict w' ''r1'' \<and> core_start 10 w' = (w', Inr [])"
proof -
  have "(case core_start 9 demo_restarted of (w', Inr ids) \<Rightarrow> Some ids | (w', Inl e) \<Rightarrow> None) = Some [''r1'']"
    by code_simp
  moreover obtain w' orphaned where "core_start 9 demo_restarted = (w', Inr orphaned)"
    "\<forall>i \<in> set orphaned. verdict w' i" "core_start 10 w' = (w', Inr [])"
    using start_reaps_the_orphans [OF demo_restarted_ok] by blast
  ultimately show ?thesis by simp
qed

subsection \<open>The end of a run\<close>

lemma relay_mark_status: "mark_status now i s md w = (w', r) \<Longrightarrow> c_relay w' = c_relay w"
  by (auto simp: mark_status_def notify_change_def Let_def split: sum.splits prod.splits if_splits)

lemma relay_store_event: "store_event now a e w = Inr w' \<Longrightarrow> c_relay w' = c_relay w"
  by (auto simp: store_event_def)

lemma relay_simps [simp]: "c_relay (next_seq a w) = c_relay w" "c_relay (relay_out a e w) = c_relay w"
  "c_relay (upd_run a f w) = c_relay w" "c_relay (snd (broker_push now i c w)) = c_relay w"
  by (simp_all add: next_seq_def relay_out_def upd_run_def broker_push_def case_prod_beta)

lemma relay_handle: "c_relay (handle L now fresh a cmd w) = c_relay w"
proof (cases cmd)
  case Claim
  then show ?thesis
    using relay_mark_status [of now _ Running PNone w] by (simp add: handle_claim_def) (metis prod.collapse)
next
  case (RelayEvent e)
  then show ?thesis
    by (auto simp: handle_relay_def Let_def dest: relay_store_event split: sum.split)
next
  case FinishStream
  then show ?thesis
    by (auto simp: handle_finish_def Let_def dest!: relay_mark_status relay_store_event split: prod.split sum.split)
next
  case RequestCancel
  then show ?thesis
    using relay_mark_status [of now _ Cancelled PNone w]
    by (auto simp: handle_cancel_def Let_def dest!: relay_mark_status split: prod.split sum.split option.split)
      (metis prod.collapse)+
next
  case (Fail reason)
  then show ?thesis
    by (auto simp: handle_fail_def Let_def dest!: relay_mark_status relay_store_event split: prod.split sum.split)
qed

lemma effect_frame:
  "handler_effect a b b' \<Longrightarrow> b_forget_calls b' = b_forget_calls b \<and> b_runs b' = b_runs b \<and>
     length (b_objs b') = length (b_objs b) \<and> (\<forall>x. r_run_id (obj b' x) = r_run_id (obj b x))"
proof (induction rule: handler_effect.induct)
  case (eff_write a b b' f)
  have "r_run_id (f r) = r_run_id r" for r using eff_write.hyps(2) [of r] by (simp add: standing_def)
  then have "r_run_id (obj (upd_obj a f b') x) = r_run_id (obj b' x)" for x
    by (cases "a < length (b_objs b')"; cases "x = a")
      (simp_all add: obj_def upd_obj_def list_update_beyond)
  with eff_write.IH show ?case by (simp add: upd_obj_def)
next
  case (eff_push a b b' now i c)
  have "b_forget_calls (snd (push now i c b')) = b_forget_calls b'" "b_runs (snd (push now i c b')) = b_runs b'"
    by (auto simp: push_def put_cmd_def upd_obj_def split: option.split)
  moreover have "r_run_id (obj (snd (push now i c b')) x) = r_run_id (obj b' x)" for x
    using seen_push [of now i c b' x] by (simp add: seen_of_def)
  ultimately show ?case using eff_push.IH length_push [of now i c b'] by simp
qed simp

lemma end_run_frame:
  "b_forget_calls (end_run a b) = b_forget_calls b @ [r_run_id (obj b a)]"
  "b_runs (end_run a b) = dpop (r_run_id (obj b a)) (b_runs b)"
proof -
  have id: "r_run_id (obj (put_out a EndOfStream b) a) = r_run_id (obj b a)"
    by (cases "a < length (b_objs b)") (simp_all add: put_out_def obj_def upd_obj_def list_update_beyond)
  have put: "b_forget_calls (put_out a EndOfStream b) = b_forget_calls b"
    "b_runs (put_out a EndOfStream b) = b_runs b"
    by (simp_all add: put_out_def upd_obj_def)
  have release: "b_forget_calls (release_capacity k v) = b_forget_calls v" "b_runs (release_capacity k v) = b_runs v"
    for k and v :: "'a broker"
    by (simp_all add: release_capacity_def split: option.split)
  show "b_forget_calls (end_run a b) = b_forget_calls b @ [r_run_id (obj b a)]"
    "b_runs (end_run a b) = dpop (r_run_id (obj b a)) (b_runs b)"
    by (simp_all add: end_run_def forget_def Let_def put release id split: option.split)
qed

lemma ended_world:
  assumes "b_forget_calls (w_broker w') = b_forget_calls (w_broker w) @ [i]" "c_relay w' = c_relay w"
    "b_runs (w_broker w') = dpop i (b_runs (w_broker w))" "w'' = with_forget_listener (\<lambda>_. w') w"
  shows "get_run_snapshot (w_broker w'') i = None" "binding_for (c_relay w'') j =
      (if j = i then None else binding_for (c_relay w) j)"
  using assms by (simp_all add: with_forget_listener_def get_run_snapshot_def)


definition demo_bound :: core where
  "demo_bound = \<lparr>w_db = demo_run, w_broker = cancel_one_shot, w_changes = [], w_cancels = [],
     c_relay = kyok_demo_relay, c_challenges = [], c_started = True, c_sweeping = True\<rparr>"


end
