(* ===== verification/RunClaims.thy ===== *)
theory RunClaims
  imports CoreRuns HealthClaims
begin

text \<open>
  Starting runs and reading thread trees: a started run is in the record and in the broker, an input
  that cannot be used leaves its run behind in the record, and the tree of any thread is finite.
\<close>

subsection \<open>Starting a run\<close>

lemma create_run_row:
  assumes "create_run now rid tid agent prot inp md hk d = Inr (d', i)"
  shows "i = rid" "db_threads d' = db_threads d" "get_run d rid = None"
    "get_run d' j = (if j = rid then Some \<lparr>rn_run_id = rid, rn_thread_id = tid,
       rn_provider_key = ar_provider_key agent, rn_agent_name = ar_name agent, rn_protocol = prot,
       rn_status = Queued, rn_head_key = hk, rn_input_json = inp, rn_started_at = None,
       rn_completed_at = None, rn_last_activity_at = Some now, rn_metadata = por md (PDict []),
       rn_created_at = now\<rparr> else get_run d j)"
    "count_queued_runs_for_thread d' tid = Suc (count_queued_runs_for_thread d tid)"
proof -
  from assms have new: "rid \<notin> run_ids d" and d': "i = rid" "db_runs d' = db_runs d @ [\<lparr>rn_run_id = rid, rn_thread_id = tid,
       rn_provider_key = ar_provider_key agent, rn_agent_name = ar_name agent, rn_protocol = prot,
       rn_status = Queued, rn_head_key = hk, rn_input_json = inp, rn_started_at = None,
       rn_completed_at = None, rn_last_activity_at = Some now, rn_metadata = por md (PDict []),
       rn_created_at = now\<rparr>]" "db_threads d' = db_threads d"
    by (auto simp: create_run_def insert_run_def split: if_splits)
  show none: "get_run d rid = None"
    using new by (auto simp: get_run_def run_ids_def find_None_iff)
  show "i = rid" "db_threads d' = db_threads d" by (rule d')+
  show "get_run d' j = (if j = rid then Some \<lparr>rn_run_id = rid, rn_thread_id = tid,
       rn_provider_key = ar_provider_key agent, rn_agent_name = ar_name agent, rn_protocol = prot,
       rn_status = Queued, rn_head_key = hk, rn_input_json = inp, rn_started_at = None,
       rn_completed_at = None, rn_last_activity_at = Some now, rn_metadata = por md (PDict []),
       rn_created_at = now\<rparr> else get_run d j)"
    using none by (simp add: get_run_def d'(2) find_append split: option.split)
  show "count_queued_runs_for_thread d' tid = Suc (count_queued_runs_for_thread d tid)"
    by (simp add: count_queued_runs_for_thread_def row_count_def d'(2))
qed

lemma enqueued_run:
  assumes "core_enqueue_run now i agent tid inp prot seq w = Inr (a, w')"
  shows "b_is_running (w_broker w)" "w_db w' = w_db w" "dget (b_runs (w_broker w')) i = Some a"
    "r_input_json (run_at w' a) = inp" "r_run_id (run_at w' a) = i" "r_claimed_by (run_at w' a) = None"
    "queue_of (w_broker w') agent = queue_of (w_broker w) agent @ [i]" "b_work_to_do (w_broker w')"
    "dget (b_handlers (w_broker w')) i \<noteq> None"
  using assms
  by (auto simp: core_enqueue_run_def enqueue_run_def Let_def run_at_def obj_def queue_of_def split: if_splits)

text \<open>A started run is in the record and on its way. When a start succeeds, the thread had room for
  it; the record has the run, queued, on that thread, for that agent, with the caller's input; and the
  broker tracks it with its handlers, unclaimed, last in its agent's queue, carrying the input that
  the AG-UI package validated, with the sweep awake.\<close>

theorem started_runs_are_recorded_and_queued:
  assumes "start_run validate st now ids agent run_input thread_id metadata w = (w', Inr h)"
  shows "\<exists>tid input. h = \<lparr>rh_run_id = mi_run ids, rh_thread_id = tid, rh_subscribed = rh_subscribed h\<rparr>
    \<and> complete_run_agent_input validate (mi_message ids) tid (mi_run ids) run_input = Inr input
    \<and> (\<forall>n. st_thread_queue_limit st = Some n \<longrightarrow> int (count_queued_runs_for_thread (w_db w') tid) \<le> n)
    \<and> get_run (w_db w) (mi_run ids) = None
    \<and> map_option (\<lambda>r. (rn_status r, rn_thread_id r, run_agent r, rn_input_json r)) (get_run (w_db w') (mi_run ids))
        = Some (Queued, tid, agent, run_input)
    \<and> dget (b_runs (w_broker w')) (mi_run ids) = Some (rh_subscribed h)
    \<and> dget (b_handlers (w_broker w')) (mi_run ids) \<noteq> None
    \<and> r_input_json (run_at w' (rh_subscribed h)) = input \<and> r_claimed_by (run_at w' (rh_subscribed h)) = None
    \<and> queue_of (w_broker w') agent = queue_of (w_broker w) agent @ [mi_run ids] \<and> b_work_to_do (w_broker w')"
proof -
  from assms obtain d tid d' rid where
      t: "ensure_thread now (mi_thread ids) agent thread_id None metadata True None (w_db w) = Inr (d, tid)"
    and q: "ensure_queue_room d tid (st_thread_queue_limit st) = Inr ()"
    and c: "create_run now (mi_run ids) tid agent ''ag-ui'' run_input metadata None d = Inr (d', rid)"
    and l: "launch_run validate now (mi_message ids) rid agent tid run_input ''ag-ui'' 0 (w\<lparr>w_db := d'\<rparr>) = (w', Inr h)"
    by (auto simp: start_run_def split: sum.splits)
  note row = create_run_row [OF c]
  from l obtain input a where i: "complete_run_agent_input validate (mi_message ids) tid rid run_input = Inr input"
    and e: "core_enqueue_run now rid agent tid input ''ag-ui'' 0 (w\<lparr>w_db := d'\<rparr>) = Inr (a, w')"
    and h: "h = \<lparr>rh_run_id = rid, rh_thread_id = tid, rh_subscribed = a\<rparr>"
    by (auto simp: launch_run_def split: sum.splits)
  note en = enqueued_run [OF e]
  have same: "db_runs d = db_runs (w_db w)"
    using t by (auto simp: ensure_thread_def create_thread_def insert_thread_def split: option.splits if_splits)
  have room: "int (count_queued_runs_for_thread (w_db w') tid) \<le> n" if "st_thread_queue_limit st = Some n" for n
    using q that row(5) en(2) by (simp add: ensure_queue_room_def split: if_splits)
  have "get_run (w_db w) (mi_run ids) = None" using row(3) same by (simp add: get_run_def)
  moreover have "map_option (\<lambda>r. (rn_status r, rn_thread_id r, run_agent r, rn_input_json r)) (get_run (w_db w') (mi_run ids))
        = Some (Queued, tid, agent, run_input)"
    using row(4) [of "mi_run ids"] en(2) by (simp add: run_agent_def)
  ultimately show ?thesis
    using i h en(3-9) row(1) room by (intro exI [of _ tid] exI [of _ input]) simp
qed


definition demo_ids :: minted_ids where
  "demo_ids = \<lparr>mi_thread = ''t2'', mi_run = ''r2'', mi_message = (\<lambda>i. ''m'')\<rparr>"

definition demo_ready_world :: world where
  "demo_ready_world = \<lparr>w_db = demo_run, w_broker = start (new_broker None), w_changes = [], w_cancels = []\<rparr>"

definition demo_input :: pyval where
  "demo_input = PDict [(''messages'', PList [PDict [(''role'', PStr ''user''), (''content'', PStr ''hi'')]])]"

lemma started_runs_are_recorded_and_queued_witness:
  "\<exists>w' h. start_run Some (default_settings ''s'') 5 demo_ids demo_ref demo_input None PNone demo_ready_world = (w', Inr h)
     \<and> map_option rn_status (get_run (w_db w') ''r2'') = Some Queued \<and> queue_of (w_broker w') demo_ref = [''r2'']"
proof -
  let ?s = "start_run Some (default_settings ''s'') 5 demo_ids demo_ref demo_input None PNone demo_ready_world"
  have "case snd ?s of Inr _ \<Rightarrow> True | Inl _ \<Rightarrow> False" by code_simp
  then obtain w' h where s: "?s = (w', Inr h)" by (cases ?s) (auto split: sum.splits)
  have "queue_of (w_broker demo_ready_world) demo_ref = []" "mi_run demo_ids = ''r2''" by code_simp+
  with started_runs_are_recorded_and_queued [OF s] s show ?thesis by auto
qed

definition bad_input :: pyval where
  "bad_input = PDict [(''messages'', PNone)]"

definition stranding_thread :: db where
  "stranding_thread =
     (case ensure_thread 5 (mi_thread demo_ids) demo_ref None None PNone True None demo_registered of
        Inr (d, t) \<Rightarrow> d | Inl e \<Rightarrow> empty_db)"

definition stranded :: db where
  "stranded =
     (case create_run 5 (mi_run demo_ids) ''t2'' demo_ref ''ag-ui'' bad_input PNone None stranding_thread of
        Inr (d, r) \<Rightarrow> d | Inl e \<Rightarrow> empty_db)"

lemma stranded_writes:
  "ensure_thread 5 (mi_thread demo_ids) demo_ref None None PNone True None demo_registered = Inr (stranding_thread, ''t2'')"
  "ensure_queue_room stranding_thread ''t2'' (st_thread_queue_limit (default_settings ''s'')) = Inr ()"
  "create_run 5 (mi_run demo_ids) ''t2'' demo_ref ''ag-ui'' bad_input PNone None stranding_thread = Inr (stranded, ''r2'')"
  "complete_run_agent_input Some (mi_message demo_ids) ''t2'' (mi_run demo_ids) bad_input = Inl TypeError"
  by code_simp+


subsection \<open>Thread trees\<close>

text \<open>A thread's parent was there before it: every insert but a thread that names itself as its parent
  keeps this.\<close>

definition parents_first :: "thread_row list \<Rightarrow> bool" where
  "parents_first rows \<longleftrightarrow>
     (\<forall>i < length rows. \<forall>p. th_parent_thread_id (rows ! i) = Some p \<longrightarrow> (\<exists>j < i. th_thread_id (rows ! j) = p))"

lemma parents_first_insert:
  assumes "insert_thread r d = Inr d'" "th_parent_thread_id r \<noteq> Some (th_thread_id r)" "parents_first (db_threads d)"
  shows "parents_first (db_threads d')"
proof -
  from assms(1) have d': "db_threads d' = db_threads d @ [r]"
    and p: "\<And>p. th_parent_thread_id r = Some p \<Longrightarrow> p \<in> thread_ids d \<or> p = th_thread_id r"
    by (auto simp: insert_thread_def split: if_splits option.splits)
  show ?thesis
    unfolding parents_first_def d'
  proof (intro allI impI)
    fix i q assume i: "i < length (db_threads d @ [r])" and q: "th_parent_thread_id ((db_threads d @ [r]) ! i) = Some q"
    show "\<exists>j < i. th_thread_id ((db_threads d @ [r]) ! j) = q"
    proof (cases "i < length (db_threads d)")
      case True
      with q assms(3) obtain j where "j < i" "th_thread_id (db_threads d ! j) = q"
        unfolding parents_first_def by (auto simp: nth_append)
      with True show ?thesis by (intro exI [of _ j]) (simp add: nth_append)
    next
      case False
      with i have "i = length (db_threads d)" by simp
      with q p assms(2) have "q \<in> thread_ids d" by auto
      then obtain j where "j < length (db_threads d)" "th_thread_id (db_threads d ! j) = q"
        by (auto simp: thread_ids_def in_set_conv_nth)
      with \<open>i = length (db_threads d)\<close> show ?thesis by (intro exI [of _ j]) (simp add: nth_append)
    qed
  qed
qed

inductive descends :: "db \<Rightarrow> string \<Rightarrow> thread_row \<Rightarrow> bool" for d where
  child: "r \<in> set (db_threads d) \<Longrightarrow> th_parent_thread_id r = Some t \<Longrightarrow> descends d t r"
| further: "descends d t s \<Longrightarrow> r \<in> set (db_threads d) \<Longrightarrow> th_parent_thread_id r = Some (th_thread_id s) \<Longrightarrow> descends d t r"

primrec tree_rows :: "thread_tree \<Rightarrow> thread_row set" where
  "tree_rows (ThreadTree r ts) = insert r (\<Union> (set (map tree_rows ts)))"

definition place :: "db \<Rightarrow> thread_row \<Rightarrow> nat" where
  "place d r = (LEAST i. i < length (db_threads d) \<and> db_threads d ! i = r)"

lemma place_nth:
  assumes "r \<in> set (db_threads d)"
  shows "place d r < length (db_threads d) \<and> db_threads d ! place d r = r"
  unfolding place_def by (rule LeastI_ex) (use assms in \<open>auto simp: in_set_conv_nth\<close>)

lemma child_later:
  assumes "parents_first (db_threads d)" "distinct (map th_thread_id (db_threads d))"
    "r \<in> set (db_threads d)" "c \<in> set (get_thread_children d (th_thread_id r))"
  shows "c \<in> set (db_threads d)" "place d r < place d c"
proof -
  show c: "c \<in> set (db_threads d)" using assms(4) by (simp add: get_thread_children_def)
  have "th_parent_thread_id (db_threads d ! place d c) = Some (th_thread_id r)"
    using assms(4) place_nth [OF c] by (simp add: get_thread_children_def)
  then obtain j where j: "j < place d c" "th_thread_id (db_threads d ! j) = th_thread_id r"
    using assms(1) place_nth [OF c] unfolding parents_first_def by blast
  have "j < length (db_threads d)" using j(1) place_nth [OF c] by simp
  moreover have "th_thread_id (db_threads d ! j) = th_thread_id (db_threads d ! place d r)"
    using j(2) place_nth [OF assms(3)] by simp
  ultimately have "j = place d r"
    using assms(2) place_nth [OF assms(3)] by (simp add: distinct_conv_nth) metis
  with j(1) show "place d r < place d c" by simp
qed

lemma children_set: "set (get_thread_children d t) = {r \<in> set (db_threads d). th_parent_thread_id r = Some t}"
  by (auto simp: get_thread_children_def)

lemma descends_unfold:
  "descends d t x \<longleftrightarrow> (\<exists>c \<in> set (get_thread_children d t). x = c \<or> descends d (th_thread_id c) x)"
proof
  show "\<exists>c \<in> set (get_thread_children d t). x = c \<or> descends d (th_thread_id c) x" if "descends d t x"
    using that
  proof (induction rule: descends.induct)
    case (child r t)
    then show ?case by (auto simp: children_set)
  next
    case (further t s r)
    then show ?case by (blast intro: descends.intros)
  qed
next
  assume "\<exists>c \<in> set (get_thread_children d t). x = c \<or> descends d (th_thread_id c) x"
  then obtain c where c: "c \<in> set (db_threads d)" "th_parent_thread_id c = Some t"
    and x: "x = c \<or> descends d (th_thread_id c) x" by (auto simp: children_set)
  have "descends d u x \<Longrightarrow> u = th_thread_id c \<Longrightarrow> descends d t x" for u
    by (induction rule: descends.induct) (use c in \<open>blast intro: descends.intros\<close>)+
  with x c show "descends d t x" by (auto intro: descends.intros)
qed

lemma build_tree_total:
  assumes ok: "parents_first (db_threads d)" "distinct (map th_thread_id (db_threads d))"
  shows "set rows \<subseteq> set (db_threads d) \<Longrightarrow> \<forall>r \<in> set rows. length (db_threads d) - place d r \<le> n \<Longrightarrow>
    \<exists>ts. build_tree d rows = Some ts \<and>
      \<Union> (tree_rows ` set ts) = set rows \<union> {x. \<exists>s \<in> set rows. descends d (th_thread_id s) x}"
proof (induction n arbitrary: rows)
  case 0
  have "rows = []"
  proof (cases rows)
    case (Cons r rs)
    with 0 place_nth [of r d] show ?thesis by auto
  qed simp
  then show ?case by (simp add: build_tree.simps)
next
  case (Suc n)
  note deeper = Suc.IH
  from Suc.prems show ?case
  proof (induction rows)
    case Nil
    then show ?case by (simp add: build_tree.simps)
  next
    case (Cons r rs)
    let ?cs = "get_thread_children d (th_thread_id r)"
    have r: "r \<in> set (db_threads d)" using Cons.prems(1) by simp
    have "set ?cs \<subseteq> set (db_threads d)" by (auto simp: children_set)
    moreover have "\<forall>c \<in> set ?cs. length (db_threads d) - place d c \<le> n"
      using child_later(2) [OF ok r] Cons.prems(2) place_nth by fastforce
    ultimately obtain ts where ts: "build_tree d ?cs = Some ts"
      "\<Union> (tree_rows ` set ts) = set ?cs \<union> {x. \<exists>s \<in> set ?cs. descends d (th_thread_id s) x}"
      using deeper by blast
    from Cons obtain us where us: "build_tree d rs = Some us"
      "\<Union> (tree_rows ` set us) = set rs \<union> {x. \<exists>s \<in> set rs. descends d (th_thread_id s) x}"
      by auto
    have "build_tree d (r # rs) = Some (ThreadTree r ts # us)"
      by (subst build_tree.simps) (simp add: ts(1) us(1))
    moreover have "tree_rows (ThreadTree r ts) = insert r {x. descends d (th_thread_id r) x}"
      using ts(2) descends_unfold [of d "th_thread_id r"] by auto
    ultimately show ?case using us(2) by auto
  qed
qed



end
