(* ===== verification/SdkRuntime.thy ===== *)
theory SdkRuntime
  imports SdkLinks
begin

text \<open>
  \<open>funduq_provider_sdk/runtime.py\<close>: the provider's side of a run.  A runtime keeps a bounded queue of
  delivered runs, a task per running one and a queue of output; its two loops and its tasks take
  their steps in any order.  The agent's stream is not part of the repository: a running task may
  emit any event or end at any step, also after it was asked to stop.  A task that is cancelled
  before its first step never enters \<open>_execute\<close>.  \<open>rt_sent\<close> is what the link was told, in order, and
  \<open>rt_accepted\<close> the ids of the runs taken on.
\<close>

record execution =
  ex_task :: nat
  ex_run_id :: string
  ex_started :: bool
  ex_cancelled :: bool

record 'i runtime =
  rt_max_queued :: nat
  rt_max_concurrent :: "int option"
  rt_running :: bool
  rt_linked :: bool
  rt_jobs :: "'i delivered_run list"
  rt_tasks :: "execution list"
  rt_next_task :: nat
  rt_in_flight :: "(string, nat) dict"
  rt_output :: "(string \<times> pyval option) list"
  rt_sent :: "(string \<times> pyval option) list"
  rt_accepted :: "string list"

text \<open>\<open>maxsize\<close> 0 is a queue without a bound.\<close>

definition new_runtime :: "nat \<Rightarrow> int option \<Rightarrow> 'i runtime" where
  "new_runtime max_queued_runs max_concurrent_runs =
     \<lparr>rt_max_queued = (case max_concurrent_runs of None \<Rightarrow> 0 | Some _ \<Rightarrow> max_queued_runs),
      rt_max_concurrent = max_concurrent_runs, rt_running = False, rt_linked = False, rt_jobs = [],
      rt_tasks = [], rt_next_task = 0, rt_in_flight = [], rt_output = [], rt_sent = [], rt_accepted = []\<rparr>"

definition jobs_full :: "'i runtime \<Rightarrow> bool" where
  "jobs_full s = (rt_max_queued s \<noteq> 0 \<and> rt_max_queued s \<le> length (rt_jobs s))"

definition rt_deliver :: "'i delivered_run \<Rightarrow> 'i runtime \<Rightarrow> bool \<times> 'i runtime" where
  "rt_deliver run s =
     (if \<not> rt_running s then (False, s)
      else if (case rt_max_concurrent s of None \<Rightarrow> False | Some m \<Rightarrow> m \<le> int (length (rt_in_flight s)))
      then (False, s)
      else if jobs_full s then (False, s)
      else (True, s\<lparr>rt_jobs := rt_jobs s @ [run], rt_accepted := rt_accepted s @ [dr_run_id run]\<rparr>))"

definition rt_cancel :: "string \<Rightarrow> 'i runtime \<Rightarrow> 'i runtime" where
  "rt_cancel run_id s =
     (case dget (rt_in_flight s) run_id of
        None \<Rightarrow> s
      | Some t \<Rightarrow> s\<lparr>rt_tasks := map (\<lambda>x. if ex_task x = t then x\<lparr>ex_cancelled := True\<rparr> else x) (rt_tasks s)\<rparr>)"

definition rt_start :: "'i runtime \<Rightarrow> 'i runtime" where
  "rt_start s = s\<lparr>rt_running := True\<rparr>"

text \<open>\<open>aclose\<close> up to its wait: both loops end, and the tasks in flight are cancelled if asked for.\<close>

definition rt_aclose :: "bool \<Rightarrow> 'i runtime \<Rightarrow> 'i runtime" where
  "rt_aclose cancel_in_flight s =
     (let s' = s\<lparr>rt_running := False\<rparr> in
      if cancel_in_flight
      then s'\<lparr>rt_tasks := map (\<lambda>x. if ex_task x \<in> snd ` set (rt_in_flight s)
                                  then x\<lparr>ex_cancelled := True\<rparr> else x) (rt_tasks s)\<rparr>
      else s')"

text \<open>One turn of \<open>_run_jobs\<close>.\<close>

definition run_job :: "'i runtime \<Rightarrow> 'i runtime" where
  "run_job s =
     (case rt_jobs s of
        [] \<Rightarrow> s
      | run # runs \<Rightarrow>
          s\<lparr>rt_jobs := runs,
            rt_tasks := rt_tasks s @ [\<lparr>ex_task = rt_next_task s, ex_run_id = dr_run_id run,
                                       ex_started = False, ex_cancelled = False\<rparr>],
            rt_next_task := Suc (rt_next_task s),
            rt_in_flight := dset (dr_run_id run) (rt_next_task s) (rt_in_flight s)\<rparr>)"

text \<open>The steps of a task: entering \<open>_execute\<close>, an event of the stream, and the end with its marker;
  the done callback takes the run out of flight.\<close>

definition start_task :: "execution \<Rightarrow> 'i runtime \<Rightarrow> 'i runtime" where
  "start_task x s =
     s\<lparr>rt_tasks := map (\<lambda>y. if ex_task y = ex_task x then y\<lparr>ex_started := True\<rparr> else y) (rt_tasks s)\<rparr>"

definition emit :: "execution \<Rightarrow> pyval \<Rightarrow> 'i runtime \<Rightarrow> 'i runtime" where
  "emit x event s = s\<lparr>rt_output := rt_output s @ [(ex_run_id x, Some event)]\<rparr>"

definition drop_task :: "execution \<Rightarrow> 'i runtime \<Rightarrow> 'i runtime" where
  "drop_task x s =
     s\<lparr>rt_tasks := filter (\<lambda>y. ex_task y \<noteq> ex_task x) (rt_tasks s),
       rt_in_flight := dpop (ex_run_id x) (rt_in_flight s)\<rparr>"

definition end_task_run :: "execution \<Rightarrow> 'i runtime \<Rightarrow> 'i runtime" where
  "end_task_run x s =
     (if ex_started x
      then drop_task x (s\<lparr>rt_output := rt_output s @ [(ex_run_id x, None)]\<rparr>)
      else drop_task x s)"

text \<open>One turn of \<open>_report_output\<close>: without a link the item is dropped.\<close>

definition report_output :: "'i runtime \<Rightarrow> 'i runtime" where
  "report_output s =
     (case rt_output s of
        [] \<Rightarrow> s
      | item # items \<Rightarrow>
          s\<lparr>rt_output := items, rt_sent := (if rt_linked s then rt_sent s @ [item] else rt_sent s)\<rparr>)"

text \<open>The runtime as a transition system.  A run id is offered again only after the runtime is done
  with it; the link is set before the loops run.\<close>

inductive rt_step :: "'i runtime \<Rightarrow> 'i runtime \<Rightarrow> bool" where
  t_deliver: "dr_run_id run \<notin> set (rt_accepted s) \<Longrightarrow> rt_step s (snd (rt_deliver run s))"
| t_cancel: "rt_step s (rt_cancel run_id s)"
| t_start: "rt_step s (rt_start s)"
| t_aclose: "rt_step s (rt_aclose cancel_in_flight s)"
| t_run_job: "rt_running s \<Longrightarrow> rt_step s (run_job s)"
| t_start_task: "x \<in> set (rt_tasks s) \<Longrightarrow> \<not> ex_cancelled x \<Longrightarrow> rt_step s (start_task x s)"
| t_emit: "x \<in> set (rt_tasks s) \<Longrightarrow> ex_started x \<Longrightarrow> rt_step s (emit x event s)"
| t_end: "x \<in> set (rt_tasks s) \<Longrightarrow> ex_started x \<Longrightarrow> rt_step s (end_task_run x s)"
| t_never_started: "x \<in> set (rt_tasks s) \<Longrightarrow> \<not> ex_started x \<Longrightarrow> ex_cancelled x \<Longrightarrow> rt_step s (end_task_run x s)"
| t_report: "rt_running s \<Longrightarrow> rt_step s (report_output s)"

definition rt_init :: "'i runtime \<Rightarrow> bool" where
  "rt_init s \<longleftrightarrow> (\<exists>q m. s = (new_runtime q m)\<lparr>rt_linked := True\<rparr>)"

inductive_simps rt_step_iff: "rt_step s s'"

text \<open>An offer over the in-process link.\<close>

definition in_process_offer :: "'i delivered_run \<Rightarrow> 'i runtime \<Rightarrow> answer \<times> 'i runtime" where
  "in_process_offer run s = (let (ok, s') = rt_deliver run s in (Answered ok, s'))"

end
