(* ===== verification/SdkClaims.thy ===== *)
theory SdkClaims
  imports SdkRuntime
begin

text \<open>
  What the provider runtime promises: for every run the link hears the events first and one finish
  last, and a run the runtime is done with was finished, unless it was cancelled before its task took
  its first step; and what its queue bound does to a funduq that offers two runs at once.
\<close>

definition items_of_run :: "string \<Rightarrow> 'i runtime \<Rightarrow> (string \<times> pyval option) list" where
  "items_of_run i s = filter (\<lambda>x. fst x = i) (rt_sent s @ rt_output s)"

definition busy_ids :: "'i runtime \<Rightarrow> string list" where
  "busy_ids s = map dr_run_id (rt_jobs s) @ map ex_run_id (rt_tasks s)"

definition unfinished :: "(string \<times> pyval option) list \<Rightarrow> bool" where
  "unfinished xs \<longleftrightarrow> (\<forall>x \<in> set xs. snd x \<noteq> None)"

definition well_finished :: "(string \<times> pyval option) list \<Rightarrow> bool" where
  "well_finished xs \<longleftrightarrow> unfinished xs \<or> (\<exists>ys i. xs = ys @ [(i, None)] \<and> unfinished ys)"

text \<open>The invariant: ids are apart, a run whose task has not started has said nothing, one whose task
  is running has not finished, and one that is gone has finished or never said anything.\<close>

definition runtime_ok :: "'i runtime \<Rightarrow> bool" where
  "runtime_ok s \<longleftrightarrow> rt_linked s \<and> distinct (busy_ids s) \<and> set (busy_ids s) \<subseteq> set (rt_accepted s) \<and>
     distinct (map ex_task (rt_tasks s)) \<and> (\<forall>x \<in> set (rt_tasks s). ex_task x < rt_next_task s) \<and>
     (\<forall>i. i \<notin> set (rt_accepted s) \<or> i \<in> dr_run_id ` set (rt_jobs s) \<longrightarrow> items_of_run i s = []) \<and>
     (\<forall>x \<in> set (rt_tasks s). unfinished (items_of_run (ex_run_id x) s) \<and>
        (\<not> ex_started x \<longrightarrow> items_of_run (ex_run_id x) s = [])) \<and>
     (\<forall>i. well_finished (items_of_run i s)) \<and>
     (\<forall>i. i \<in> set (rt_accepted s) \<and> i \<notin> set (busy_ids s) \<longrightarrow>
        items_of_run i s = [] \<or> last (items_of_run i s) = (i, None))"

lemma same_task: "distinct (map ex_task xs) \<Longrightarrow> x \<in> set xs \<Longrightarrow> y \<in> set xs \<Longrightarrow> ex_task x = ex_task y \<Longrightarrow> x = y"
  by (simp add: distinct_map inj_on_def)

lemma same_run: "distinct (map ex_run_id xs) \<Longrightarrow> x \<in> set xs \<Longrightarrow> y \<in> set xs \<Longrightarrow> ex_run_id x = ex_run_id y \<Longrightarrow> x = y"
  by (simp add: distinct_map inj_on_def)

lemma unfinished_snoc [simp]: "unfinished (xs @ [x]) \<longleftrightarrow> unfinished xs \<and> snd x \<noteq> None"
  by (auto simp: unfinished_def)

lemma ok_init_rt: "rt_init s \<Longrightarrow> runtime_ok s"
  by (auto simp: rt_init_def new_runtime_def runtime_ok_def busy_ids_def items_of_run_def well_finished_def unfinished_def)

text \<open>Steps that touch neither the items nor the ids.\<close>

lemma ok_tasks_map:
  assumes "runtime_ok s" "\<And>x. ex_task (f x) = ex_task x" "\<And>x. ex_run_id (f x) = ex_run_id x"
    "\<And>x. ex_started x \<Longrightarrow> ex_started (f x)"
    "rt_jobs s' = rt_jobs s" "rt_tasks s' = map f (rt_tasks s)" "rt_next_task s' = rt_next_task s"
    "rt_output s' = rt_output s" "rt_sent s' = rt_sent s" "rt_accepted s' = rt_accepted s" "rt_linked s' = rt_linked s"
  shows "runtime_ok s'"
proof -
  have i: "items_of_run i s' = items_of_run i s" for i using assms by (simp add: items_of_run_def)
  have b: "busy_ids s' = busy_ids s" using assms by (simp add: busy_ids_def)
  have t: "map ex_task (rt_tasks s') = map ex_task (rt_tasks s)" using assms by simp
  show ?thesis
    using assms(1) unfolding runtime_ok_def i b t using assms(2-) by auto
qed

lemma items_sent_or_output:
  "rt_sent s' @ rt_output s' = rt_sent s @ rt_output s \<Longrightarrow> items_of_run i s' = items_of_run i s"
  unfolding items_of_run_def by simp

lemma ok_report: "runtime_ok s \<Longrightarrow> runtime_ok (report_output s)"
proof -
  assume ok: "runtime_ok s"
  then have "rt_linked s" by (simp add: runtime_ok_def)
  then have i: "items_of_run i (report_output s) = items_of_run i s" for i
    by (intro items_sent_or_output) (simp add: report_output_def split: list.split)
  have same: "rt_jobs (report_output s) = rt_jobs s" "rt_tasks (report_output s) = rt_tasks s"
    "rt_accepted (report_output s) = rt_accepted s" "rt_next_task (report_output s) = rt_next_task s"
    "rt_linked (report_output s) = rt_linked s"
    by (simp_all add: report_output_def split: list.split)
  have b: "busy_ids (report_output s) = busy_ids s" using same by (simp add: busy_ids_def)
  show ?thesis using ok unfolding runtime_ok_def same b i .
qed

lemma ok_deliver:
  assumes "runtime_ok s" "dr_run_id run \<notin> set (rt_accepted s)"
  shows "runtime_ok (snd (rt_deliver run s))"
proof (cases "fst (rt_deliver run s)")
  case True
  let ?s = "s\<lparr>rt_jobs := rt_jobs s @ [run], rt_accepted := rt_accepted s @ [dr_run_id run]\<rparr>"
  have s': "snd (rt_deliver run s) = ?s" using True by (auto simp: rt_deliver_def split: if_splits)
  have i: "items_of_run i ?s = items_of_run i s" for i by (simp add: items_of_run_def)
  have b: "set (busy_ids ?s) = insert (dr_run_id run) (set (busy_ids s))"
    "distinct (busy_ids ?s) \<longleftrightarrow> distinct (busy_ids s) \<and> dr_run_id run \<notin> set (busy_ids s)"
    by (auto simp: busy_ids_def)
  show ?thesis
    using assms unfolding s' runtime_ok_def i b by auto
next
  case False
  then have "snd (rt_deliver run s) = s" by (auto simp: rt_deliver_def split: if_splits)
  with assms(1) show ?thesis by simp
qed

lemma ok_run_job: "runtime_ok s \<Longrightarrow> runtime_ok (run_job s)"
proof (cases "rt_jobs s")
  case Nil
  then show "runtime_ok s \<Longrightarrow> ?thesis" by (simp add: run_job_def)
next
  case (Cons run runs)
  assume ok: "runtime_ok s"
  let ?s = "run_job s"
  let ?x = "\<lparr>ex_task = rt_next_task s, ex_run_id = dr_run_id run, ex_started = False, ex_cancelled = False\<rparr>"
  have f: "rt_jobs ?s = runs" "rt_tasks ?s = rt_tasks s @ [?x]" "rt_accepted ?s = rt_accepted s"
    "rt_next_task ?s = Suc (rt_next_task s)" "rt_linked ?s = rt_linked s"
    by (simp_all add: run_job_def Cons)
  have i: "items_of_run i ?s = items_of_run i s" for i by (simp add: items_of_run_def run_job_def Cons)
  have b: "set (busy_ids ?s) = set (busy_ids s)" "distinct (busy_ids ?s) \<longleftrightarrow> distinct (busy_ids s)"
    by (auto simp: busy_ids_def f Cons)
  have none: "items_of_run (dr_run_id run) s = []" using ok Cons by (simp add: runtime_ok_def)
  show ?thesis
    using ok none unfolding runtime_ok_def i b f by (auto simp: unfinished_def Cons less_Suc_eq)
qed

lemma items_output:
  "items_of_run i (s\<lparr>rt_output := rt_output s @ [(j, e)]\<rparr>) = items_of_run i s @ (if i = j then [(j, e)] else [])"
  by (simp add: items_of_run_def)

lemma busy_task:
  assumes "runtime_ok s" "x \<in> set (rt_tasks s)"
  shows "ex_run_id x \<in> set (rt_accepted s)" "ex_run_id x \<notin> dr_run_id ` set (rt_jobs s)"
    "\<And>y. y \<in> set (rt_tasks s) \<Longrightarrow> ex_run_id y = ex_run_id x \<Longrightarrow> y = x"
    "\<And>y. y \<in> set (rt_tasks s) \<Longrightarrow> ex_task y = ex_task x \<Longrightarrow> y = x"
proof -
  have d: "distinct (map ex_run_id (rt_tasks s))" using assms(1) by (simp add: runtime_ok_def busy_ids_def)
  show "ex_run_id x \<in> set (rt_accepted s)" "ex_run_id x \<notin> dr_run_id ` set (rt_jobs s)"
    using assms unfolding runtime_ok_def busy_ids_def by auto
  show "\<And>y. y \<in> set (rt_tasks s) \<Longrightarrow> ex_run_id y = ex_run_id x \<Longrightarrow> y = x"
    using same_run [OF d] assms(2) by blast
  show "\<And>y. y \<in> set (rt_tasks s) \<Longrightarrow> ex_task y = ex_task x \<Longrightarrow> y = x"
    using same_task [of "rt_tasks s"] assms unfolding runtime_ok_def by blast
qed

lemma ok_emit:
  assumes ok: "runtime_ok s" and x: "x \<in> set (rt_tasks s)" "ex_started x"
  shows "runtime_ok (emit x e s)"
proof -
  note b = busy_task [OF ok x(1)]
  have f: "rt_jobs (emit x e s) = rt_jobs s" "rt_tasks (emit x e s) = rt_tasks s" "rt_accepted (emit x e s) = rt_accepted s"
    "rt_next_task (emit x e s) = rt_next_task s" "rt_linked (emit x e s) = rt_linked s" "busy_ids (emit x e s) = busy_ids s"
    by (simp_all add: emit_def busy_ids_def)
  have i: "items_of_run i (emit x e s) = items_of_run i s @ (if i = ex_run_id x then [(ex_run_id x, Some e)] else [])" for i
    unfolding emit_def by (rule items_output)
  have u: "unfinished (items_of_run (ex_run_id x) s)" using ok x(1) unfolding runtime_ok_def by blast
  have busy: "ex_run_id x \<in> set (busy_ids s)" using x(1) by (simp add: busy_ids_def)
  have w: "well_finished (items_of_run i s @ (if i = ex_run_id x then [(ex_run_id x, Some e)] else []))" for i
    using ok u by (cases "i = ex_run_id x") (simp_all add: well_finished_def runtime_ok_def)
  have t: "unfinished (items_of_run (ex_run_id y) s @ (if ex_run_id y = ex_run_id x then [(ex_run_id x, Some e)] else []))
      \<and> (\<not> ex_started y \<longrightarrow> items_of_run (ex_run_id y) s @ (if ex_run_id y = ex_run_id x then [(ex_run_id x, Some e)] else []) = [])"
    if "y \<in> set (rt_tasks s)" for y
  proof (cases "ex_run_id y = ex_run_id x")
    case True
    with b(3) that x(2) u show ?thesis by auto
  next
    case False
    with that ok show ?thesis unfolding runtime_ok_def by simp
  qed
  show ?thesis
    using ok b(1,2) busy w t unfolding runtime_ok_def f i by auto
qed

lemma ok_end:
  assumes ok: "runtime_ok s" and x: "x \<in> set (rt_tasks s)"
  shows "runtime_ok (end_task_run x s)"
proof -
  note b = busy_task [OF ok x]
  let ?s = "end_task_run x s" and ?k = "filter (\<lambda>y. ex_task y \<noteq> ex_task x) (rt_tasks s)"
  let ?more = "\<lambda>i. if ex_started x \<and> i = ex_run_id x then [(ex_run_id x, None)] else []"
  have f: "rt_jobs ?s = rt_jobs s" "rt_tasks ?s = ?k" "rt_accepted ?s = rt_accepted s"
    "rt_next_task ?s = rt_next_task s" "rt_linked ?s = rt_linked s"
    by (simp_all add: end_task_run_def drop_task_def)
  have i: "items_of_run i ?s = items_of_run i s @ ?more i" for i
    by (simp add: end_task_run_def drop_task_def items_of_run_def)
  have keep: "y \<in> set ?k \<longleftrightarrow> y \<in> set (rt_tasks s) \<and> y \<noteq> x" for y using b(4) by auto
  have ids: "set (busy_ids ?s) = set (busy_ids s) - {ex_run_id x}"
    unfolding busy_ids_def f using b(2,3) keep by (auto simp: image_iff)
  have dist: "distinct (busy_ids ?s)" "distinct (map ex_task ?k)"
    using ok unfolding runtime_ok_def busy_ids_def f by (auto simp: distinct_map_filter)
  have u: "unfinished (items_of_run (ex_run_id x) s)" "\<not> ex_started x \<Longrightarrow> items_of_run (ex_run_id x) s = []"
    using ok x unfolding runtime_ok_def by blast+
  have w: "well_finished (items_of_run i s @ ?more i)" for i
    using ok u by (cases "ex_started x \<and> i = ex_run_id x") (auto simp: well_finished_def runtime_ok_def)
  have gone: "items_of_run i s @ ?more i = [] \<or> last (items_of_run i s @ ?more i) = (i, None)"
    if "i \<in> set (rt_accepted s)" "i \<notin> set (busy_ids s) - {ex_run_id x}" for i
    using ok u(2) that unfolding runtime_ok_def by (cases "i = ex_run_id x") auto
  have t: "unfinished (items_of_run (ex_run_id y) s @ ?more (ex_run_id y)) \<and>
      (\<not> ex_started y \<longrightarrow> items_of_run (ex_run_id y) s @ ?more (ex_run_id y) = [])" if "y \<in> set ?k" for y
    using that b(3) [of y] ok unfolding keep runtime_ok_def by auto
  show ?thesis
    unfolding runtime_ok_def f(3-5) i ids f(1) f(2)
  proof (intro conjI)
    show "distinct (busy_ids ?s)" "distinct (map ex_task ?k)" by (rule dist)+
    show "\<forall>y \<in> set ?k. unfinished (items_of_run (ex_run_id y) s @ ?more (ex_run_id y)) \<and>
      (\<not> ex_started y \<longrightarrow> items_of_run (ex_run_id y) s @ ?more (ex_run_id y) = [])" using t by blast
    show "\<forall>i. well_finished (items_of_run i s @ ?more i)" using w by blast
    show "\<forall>i. i \<in> set (rt_accepted s) \<and> i \<notin> set (busy_ids s) - {ex_run_id x} \<longrightarrow>
      items_of_run i s @ ?more i = [] \<or> last (items_of_run i s @ ?more i) = (i, None)" using gone by blast
    show "\<forall>i. i \<notin> set (rt_accepted s) \<or> i \<in> dr_run_id ` set (rt_jobs s) \<longrightarrow> items_of_run i s @ ?more i = []"
      using ok b(1,2) unfolding runtime_ok_def by auto
  qed (use ok in \<open>auto simp: runtime_ok_def\<close>)
qed

lemma ok_rt_step: "rt_step s s' \<Longrightarrow> runtime_ok s \<Longrightarrow> runtime_ok s'"
proof (induction rule: rt_step.induct)
  case (t_cancel s run_id)
  then show ?case
    by (cases "dget (rt_in_flight s) run_id")
      (auto simp: rt_cancel_def intro: ok_tasks_map [where f = "\<lambda>x. if ex_task x = a then x\<lparr>ex_cancelled := True\<rparr> else x" for a])
next
  case (t_start s)
  then show ?case by (rule ok_tasks_map [where f = "\<lambda>x. x"]) (simp_all add: rt_start_def)
next
  case (t_aclose s c)
  then show ?case
    by (rule ok_tasks_map [where f = "\<lambda>x. if c \<and> ex_task x \<in> snd ` set (rt_in_flight s)
        then x\<lparr>ex_cancelled := True\<rparr> else x"]) (simp_all add: rt_aclose_def Let_def)
next
  case (t_start_task x s)
  show ?case
    by (rule ok_tasks_map [OF t_start_task.prems, where f = "\<lambda>y. if ex_task y = ex_task x then y\<lparr>ex_started := True\<rparr> else y"])
      (simp_all add: start_task_def)
qed (auto intro: ok_deliver ok_run_job ok_emit ok_end ok_report)

interpretation runtime: inductive_invariant rt_init rt_step runtime_ok
  by unfold_locales (auto intro: ok_init_rt ok_rt_step)

lemma well_finished_prefix: "well_finished (xs @ ys) \<Longrightarrow> well_finished xs"
proof (cases ys rule: rev_cases)
  case (snoc zs z)
  assume "well_finished (xs @ ys)"
  then have "unfinished (xs @ zs)" using snoc by (auto simp: well_finished_def simp flip: append_assoc)
  then show ?thesis by (simp add: well_finished_def unfinished_def)
qed simp


subsection \<open>A run cancelled too early\<close>

definition demo_delivered :: "string \<Rightarrow> unit delivered_run" where
  "demo_delivered i = \<lparr>dr_run_id = i, dr_agent_name = ''a'', dr_run_input = (), dr_thread_id = None, dr_metadata = PDict []\<rparr>"

definition demo_runtime :: "unit runtime" where
  "demo_runtime = rt_start ((new_runtime 1 (Some 2))\<lparr>rt_linked := True\<rparr>)"

definition demo_spawned :: "unit runtime" where
  "demo_spawned = run_job (snd (rt_deliver (demo_delivered ''r1'') demo_runtime))"

definition early_cancelled :: "unit runtime" where
  "early_cancelled = (let s = rt_cancel ''r1'' demo_spawned in end_task_run (hd (rt_tasks s)) s)"

lemma reach_spawned: "reach rt_init rt_step demo_spawned"
proof -
  have "reach rt_init rt_step ((new_runtime 1 (Some 2))\<lparr>rt_linked := True\<rparr> :: unit runtime)"
    by (rule reach.reach_init) (auto simp: rt_init_def)
  then have r: "reach rt_init rt_step demo_runtime"
    unfolding demo_runtime_def by (rule reach.reach_step) (rule t_start)
  have "dr_run_id (demo_delivered ''r1'') \<notin> set (rt_accepted demo_runtime)" by code_simp
  from reach.reach_step [OF r t_deliver [OF this]]
  have d: "reach rt_init rt_step (snd (rt_deliver (demo_delivered ''r1'') demo_runtime))" .
  have "rt_running (snd (rt_deliver (demo_delivered ''r1'') demo_runtime))" by code_simp
  then have "rt_step (snd (rt_deliver (demo_delivered ''r1'') demo_runtime)) demo_spawned"
    unfolding demo_spawned_def by (rule t_run_job)
  with d show ?thesis by (rule reach.reach_step)
qed

lemma early_cancel_facts:
  "hd (rt_tasks (rt_cancel ''r1'' demo_spawned)) \<in> set (rt_tasks (rt_cancel ''r1'' demo_spawned))"
  "\<not> ex_started (hd (rt_tasks (rt_cancel ''r1'' demo_spawned)))"
  "ex_cancelled (hd (rt_tasks (rt_cancel ''r1'' demo_spawned)))"
  "rt_accepted early_cancelled = [''r1'']" "busy_ids early_cancelled = []" "items_of_run ''r1'' early_cancelled = []"
  by code_simp+

lemma reach_early: "reach rt_init rt_step early_cancelled"
  unfolding early_cancelled_def Let_def
proof -
  have "reach rt_init rt_step (rt_cancel ''r1'' demo_spawned)" by (rule reach.reach_step [OF reach_spawned t_cancel])
  then show "reach rt_init rt_step
      (end_task_run (hd (rt_tasks (rt_cancel ''r1'' demo_spawned))) (rt_cancel ''r1'' demo_spawned))"
    by (rule reach.reach_step) (rule t_never_started, (rule early_cancel_facts)+)
qed


text \<open>A run cancelled before its task took its first step is never finished. There is an execution of
  the runtime after which a run was accepted and is neither queued nor running, and neither an event
  nor a finish of it was sent or is waiting: the finally clause that should mark the end was never
  entered.\<close>

theorem an_early_cancel_loses_the_finish:
  "\<exists>s :: unit runtime. reach rt_init rt_step s \<and> rt_accepted s = [''r1''] \<and> busy_ids s = [] \<and> rt_output s = [] \<and> rt_sent s = []"
proof -
  have "rt_output early_cancelled = []" "rt_sent early_cancelled = []" by code_simp+
  with reach_early early_cancel_facts(4,5) show ?thesis by blast
qed

subsection \<open>Two offers in a row\<close>

text \<open>A limited provider declines what it has room for. A runtime that declared room for two or more
  runs and keeps the default queue of one accepts a run and, offered a second before its job loop has
  had a turn, declines it although it is below its limit; funduq, which offers without a pause in
  between and believes there is room, counts the decline as misdeclared and from then on takes the
  provider for full, though it holds a single run.\<close>

theorem back_to_back_offers_are_declined:
  assumes "2 \<le> n" "rt = rt_start (new_runtime 1 (Some n))"
    "live_ok b" "dget (b_capacity b) (c_public_key p) = Some \<lparr>cap_declared = Some n, cap_in_flight = 1\<rparr>"
  shows "(let (ans1, rt1) = in_process_offer earlier rt; (ans2, rt2) = in_process_offer second rt1;
            (out, b') = offer_answer now a p ans2 b
      in ans1 = Answered True \<and> ans2 = Answered False \<and> rt_jobs rt2 = [earlier] \<and> rt_in_flight rt2 = []
       \<and> out = NotPlaced
       \<and> lr_count (b_live b') (c_public_key p) ''misdeclared'' = lr_count (b_live b) (c_public_key p) ''misdeclared'' + 1
       \<and> dget (b_capacity b') (c_public_key p) = Some \<lparr>cap_declared = Some n, cap_in_flight = n\<rparr>)"
proof -
  have 1: "in_process_offer earlier rt = (Answered True, rt\<lparr>rt_jobs := [earlier], rt_accepted := [dr_run_id earlier]\<rparr>)"
    using assms(1) by (simp add: in_process_offer_def rt_deliver_def assms(2) rt_start_def new_runtime_def jobs_full_def)
  have 2: "in_process_offer second (rt\<lparr>rt_jobs := [earlier], rt_accepted := [dr_run_id earlier]\<rparr>) =
      (Answered False, rt\<lparr>rt_jobs := [earlier], rt_accepted := [dr_run_id earlier]\<rparr>)"
    using assms(1) by (simp add: in_process_offer_def rt_deliver_def assms(2) rt_start_def new_runtime_def jobs_full_def)
  have "rt_in_flight rt = []" by (simp add: assms(2) rt_start_def new_runtime_def)
  then show ?thesis
    using assms(1,4) note_abnormal_counts(2) [OF assms(3), of "''misdeclared''" now "c_public_key p"]
    by (simp add: 1 2 offer_answer_def has_room_def Let_def)
qed

definition demo_limited :: connection where
  "demo_limited = \<lparr>c_id = 0, c_public_key = ''k'', c_max_concurrent_runs = Some 2\<rparr>"

definition one_in_flight :: "unit broker" where
  "one_in_flight = take_capacity ''k''
     (register_provider [(\<lparr>ar_provider_key = ''k'', ar_name = ''a''\<rparr>, demo_limited)] (new_broker (Some 3)))"

lemma back_to_back_offers_are_declined_witness:
  "fst (offer_answer 5 0 demo_limited (fst (in_process_offer (demo_delivered ''r2'')
     (snd (in_process_offer (demo_delivered ''r1'') (rt_start (new_runtime 1 (Some 2))))))) one_in_flight) = NotPlaced"
proof -
  have ok: "live_ok one_in_flight"
    by (simp add: one_in_flight_def live_ok_def take_capacity_def register_provider_def new_broker_def
      new_live_roster_def [THEN arg_cong [where f = lr_counter_names]] split: option.split)
  have cap: "dget (b_capacity one_in_flight) (c_public_key demo_limited) = Some \<lparr>cap_declared = Some 2, cap_in_flight = 1\<rparr>"
    by code_simp
  from back_to_back_offers_are_declined [OF _ refl ok cap, where earlier = "demo_delivered ''r1''" and second = "demo_delivered ''r2''"
      and now = 5 and a = 0]
  show ?thesis unfolding Let_def case_prod_beta by blast
qed

end
