(* ===== verification/Doors.thy ===== *)
theory Doors
  imports CoreRuns ActorChains
begin

text \<open>
  \<open>funduq/props.py\<close> and \<open>funduq/protocols/agui.py\<close>: what both doors do with a caller, and the AG-UI door.
  A session is one transaction: \<open>view\<close> is what it sees, and of its writes only those up to the last
  commit stay when it is left early.  The body of a request is AG-UI's own validated object, read
  through the dumps the source takes of it; \<open>deployment\<close> holds the third-party functions and the
  settings: AG-UI's run input and its message classes (\<open>dp_message role id text\<close>), and what the database
  driver makes of a bound text parameter that is no string.
\<close>

record 'k deployment =
  dp_crypto :: "'k jwt_crypto"
  dp_codec :: codec
  dp_opt_in :: "pyval \<Rightarrow> kyok_opt_in option"
  dp_run_input :: "pyval \<Rightarrow> pyval option"
  dp_message :: "string \<Rightarrow> string \<Rightarrow> string \<Rightarrow> pyval"
  dp_text_param :: "pyval \<Rightarrow> string result"
  dp_settings :: settings

subsection \<open>The caller\<close>

definition RESERVED_METADATA_KEYS :: "string list" where
  "RESERVED_METADATA_KEYS = [''interrupts'', ''failureReason'', ''funduq'']"

definition INTERJECTION_EXTENSION_URI :: string where
  "INTERJECTION_EXTENSION_URI = ''https://github.com/hukaichun/funduq/ext/interjection/v1''"

definition ADDRESSED_RUN_METADATA_KEY :: string where
  "ADDRESSED_RUN_METADATA_KEY = INTERJECTION_EXTENSION_URI @ ''/addressedRunId''"

text \<open>A chain as the loop of \<open>verify_actor_chain\<close> sees it; a hop that is not a string does not parse.\<close>

fun hops_of :: "pyval \<Rightarrow> string list result" where
  "hops_of (PList vs) =
     (if \<forall>v \<in> set vs. is_str v then Inr (map py_str vs) else Inl InvalidActorChain)"
| "hops_of (PStr s) = Inr (map (\<lambda>c. [c]) s)"
| "hops_of (PDict kvs) = Inr (map fst kvs)"
| "hops_of _ = Inl TypeError"

definition strip_reserved :: "pyval \<Rightarrow> pyval" where
  "strip_reserved metadata =
     PDict (filter (\<lambda>(k, v). k \<notin> set RESERVED_METADATA_KEYS) (items_of metadata))"

text \<open>The effective head: the certificate's authority where its delegate signed the first hop.\<close>

definition resolve_head ::
    "('k, 'z) crypto_scheme \<Rightarrow> rat \<Rightarrow> string \<Rightarrow> pyval \<Rightarrow> string result" where
  "resolve_head C now head delegation =
     (if delegation = PNone then Inr head
      else bindR (verify_delegation C now delegation) (\<lambda>authority.
             Inr (if pget delegation ''delegatePublicKey'' = PStr head then py_str authority else head)))"

definition verify_caller_metadata ::
    "('k, 'z) jwt_crypto_scheme \<Rightarrow> rat \<Rightarrow> pyval \<Rightarrow> (pyval \<times> string option \<times> pyval) result" where
  "verify_caller_metadata C now raw =
     (if \<not> is_dict raw then Inl AttributeError
      else
        let metadata = strip_reserved raw;
            actor_chain = pget metadata ''actorChain''
        in if \<not> truthy actor_chain then Inr (metadata, None, PNone)
           else bindR (hops_of actor_chain) (\<lambda>hops.
                bindR (verify_actor_chain C now hops) (\<lambda>keys.
                bindR (resolve_head C now (chain_head keys) (pget metadata ''delegation'')) (\<lambda>head.
                  Inr (metadata, Some head, actor_chain)))))"

definition chain_tokens :: "pyval \<Rightarrow> string list option" where
  "chain_tokens actor_chain =
     (case hops_of actor_chain of Inl _ \<Rightarrow> None | Inr hops \<Rightarrow> if actor_chain = PNone then None else Some hops)"

definition build_forwarded_props ::
    "codec \<Rightarrow> rat \<Rightarrow> string \<Rightarrow> string \<Rightarrow> agent_ref \<Rightarrow> bool \<Rightarrow> pyval \<Rightarrow> pyval \<Rightarrow> pyval \<Rightarrow> pyval \<Rightarrow> pyval" where
  "build_forwarded_props K now signing_secret run_id agent kyok_enabled caller actor_chain addressed delegation =
     (let extra = (if kyok_enabled then [(''kyok'', kyok_forwarded_props K now run_id agent signing_secret)] else [])
                  @ (if addressed \<noteq> PNone then [(''addressedRunId'', addressed)] else [])
                  @ (if truthy actor_chain then [(''actorChain'', actor_chain)] else [])
                  @ (if delegation \<noteq> PNone then [(''delegation'', delegation)] else [])
      in if extra = [] then caller
         else (case caller of PDict kvs \<Rightarrow> PDict (dupdate kvs extra) | _ \<Rightarrow> PDict extra))"

text \<open>The resolution of a paused run that names an authority.\<close>

definition check_resolution ::
    "('k, 'z) crypto_scheme \<Rightarrow> rat \<Rightarrow> agent_ref \<Rightarrow> pyval \<Rightarrow> run_row \<Rightarrow> unit result" where
  "check_resolution C now agent metadata paused =
     (case rn_head_key paused of
        None \<Rightarrow> Inr ()
      | Some head \<Rightarrow>
          bindR (verify_resolution C now (por (pget metadata ''resolution'') (PDict [])) (rn_run_id paused)
                   {head, ar_provider_key agent}
                   (if pget metadata ''delegation'' = PNone then None else Some (pget metadata ''delegation'')))
            (\<lambda>_. Inr ()))"

text \<open>The offering a request opts into must be registered.\<close>

definition opted_in ::
    "(pyval \<Rightarrow> kyok_opt_in option) \<Rightarrow> pyval \<Rightarrow> db \<Rightarrow> (llm_ref \<times> pyval) option result" where
  "opted_in validate metadata d =
     (case parse_kyok_opt_in validate metadata of
        None \<Rightarrow> Inr None
      | Some kyok \<Rightarrow>
          (case ko_llm_provider kyok of
             None \<Rightarrow> Inr None
           | Some ref \<Rightarrow>
               if get_llm_provider d ref = None then Inl LlmProviderNotFound
               else Inr (Some (ref, ko_context kyok))))"

subsection \<open>The AG-UI door\<close>

record agui_body =
  bo_thread_id :: string
  bo_parent_run_id :: pyval
  bo_state :: pyval
  bo_messages :: "pyval list"
  bo_tools :: "pyval list"
  bo_context :: "pyval list"
  bo_forwarded_props :: pyval
  bo_resume :: "pyval list"
  bo_metadata :: pyval
  bo_dump :: pyval

datatype agui_reply =
    EventStream string string address
  | OfflineStream string string
  | ThreadSnapshot "thread_snapshot option"

text \<open>What the door knows of a request once it has let it in: the metadata kept, the head key, the
  chain, and the offering with its context.\<close>

record admitted =
  am_metadata :: pyval
  am_head_key :: "string option"
  am_actor_chain :: pyval
  am_kyok :: "(llm_ref \<times> pyval) option"

definition agui_admit ::
    "'k deployment \<Rightarrow> rat \<Rightarrow> agent_ref \<Rightarrow> pyval \<Rightarrow> db \<Rightarrow> admitted result" where
  "agui_admit D now agent raw_metadata d =
     (if get_agent d agent = None then Inl AgentNotFound
      else bindR (verify_caller_metadata (dp_crypto D) now (por raw_metadata (PDict []))) (\<lambda>(metadata, head_key, actor_chain).
           bindR (opted_in (dp_opt_in D) metadata d) (\<lambda>kyok.
             Inr \<lparr>am_metadata = strip_kyok_context metadata, am_head_key = head_key,
                  am_actor_chain = actor_chain, am_kyok = kyok\<rparr>)))"

text \<open>The stored input: the caller's own dump without the secret of its KYOK context.\<close>

definition stored_input :: "pyval \<Rightarrow> pyval" where
  "stored_input dump =
     (if is_dict (pget dump ''metadata'')
      then pset ''metadata'' (strip_kyok_context (pget dump ''metadata'')) dump else dump)"

text \<open>The run of this round: the paused one reopened, or a new one.  The result is what is committed,
  what the session sees, and the run with its starting number, or nothing where the thread is busy.\<close>

definition agui_round ::
    "'k deployment \<Rightarrow> clock \<Rightarrow> minted_ids \<Rightarrow> agent_ref \<Rightarrow> agui_body \<Rightarrow> admitted \<Rightarrow> string \<Rightarrow> db \<Rightarrow> db
       \<Rightarrow> db \<times> db \<times> (string \<times> int) option result" where
  "agui_round D ck ids agent body am thread_id d0 view =
     (if bo_resume body \<noteq> [] then
        (case get_paused_run_for_thread view thread_id of
           None \<Rightarrow> (d0, view, Inr None)
         | Some paused \<Rightarrow>
             (case check_resolution (dp_crypto D) (ck_time ck) agent (am_metadata am) paused of
                Inl e \<Rightarrow> (d0, view, Inl e)
              | Inr _ \<Rightarrow>
                  let (d', won) = reopen_run (ck_now ck) (rn_run_id paused) (stored_input (bo_dump body))
                                    (am_metadata am) (Some InputRequired) view
                  in (d', d', Inr (if won then Some (rn_run_id paused, get_last_event_seq d' (rn_run_id paused))
                                   else None))))
      else
        (case bindR (ensure_queue_room view thread_id (st_thread_queue_limit (dp_settings D))) (\<lambda>_.
                create_run (ck_now ck) (mi_run ids) thread_id agent ''ag-ui'' (stored_input (bo_dump body))
                  (am_metadata am) (am_head_key am) view) of
           Inl e \<Rightarrow> (d0, view, Inl e)
         | Inr (d', run_id) \<Rightarrow> (d', d', Inr (Some (run_id, 0)))))"

definition offline_reason :: pyval where
  "offline_reason = PDict [(''failureReason'', PStr ''agent_offline'')]"

text \<open>The last part: \<open>w\<close> holds what is committed, \<open>d\<close> what the session has written since.\<close>

definition bind_opted ::
    "(llm_ref \<times> pyval) option \<Rightarrow> pyval \<Rightarrow> string \<Rightarrow> core \<Rightarrow> core" where
  "bind_opted kyok actor_chain run_id w =
     (case kyok of
        None \<Rightarrow> w
      | Some (ref, context) \<Rightarrow>
          w\<lparr>c_relay := bind_run run_id \<lparr>kb_llm_provider = ref, kb_context = context,
                          kb_actor_chain = chain_tokens actor_chain\<rparr> (c_relay w)\<rparr>)"

definition agui_run_input ::
    "'k deployment \<Rightarrow> clock \<Rightarrow> agent_ref \<Rightarrow> agui_body \<Rightarrow> admitted \<Rightarrow> string \<Rightarrow> string \<Rightarrow> pyval list
       \<Rightarrow> pyval result" where
  "agui_run_input D ck agent body am thread_id run_id messages =
     (case build_run_agent_input (dp_run_input D) thread_id run_id (PList messages) (bo_state body)
             (PList (bo_tools body)) (PList (bo_context body))
             (build_forwarded_props (dp_codec D) (ck_time ck) (st_token_signing_secret (dp_settings D)) run_id
                agent (am_kyok am \<noteq> None) (bo_forwarded_props body) (am_actor_chain am) PNone
                (pget (am_metadata am) ''delegation''))
             (if bo_resume body = [] then PNone else PList (bo_resume body)) (bo_parent_run_id body) of
        Inl e \<Rightarrow> Inl InvalidRunInput
      | Inr input \<Rightarrow> Inr input)"

definition agui_launch ::
    "'k deployment \<Rightarrow> clock \<Rightarrow> agent_ref \<Rightarrow> agui_body \<Rightarrow> admitted \<Rightarrow> string \<Rightarrow> string \<Rightarrow> int \<Rightarrow> pyval list \<Rightarrow> db \<Rightarrow> core
       \<Rightarrow> core \<times> agui_reply result" where
  "agui_launch D ck agent body am thread_id run_id seq messages d w =
     (if \<not> is_serving w agent then
        (case mark_status (ck_now ck) run_id Failed offline_reason (w\<lparr>w_db := d\<rparr>) of
           (w', Inl e) \<Rightarrow> (w, Inl e)
         | (w', Inr _) \<Rightarrow> (w', Inr (OfflineStream thread_id run_id)))
      else
        (case agui_run_input D ck agent body am thread_id run_id messages of
           Inl e \<Rightarrow> (w, Inl e)
         | Inr input \<Rightarrow>
             let w1 = bind_opted (am_kyok am) (am_actor_chain am) run_id (w\<lparr>w_db := d\<rparr>) in
             (case core_enqueue_run (ck_now ck) run_id agent thread_id input ''ag-ui'' seq w1 of
                Inl e \<Rightarrow> (w1, Inl e)
              | Inr (a, w2) \<Rightarrow> (w2, Inr (EventStream thread_id run_id a)))))"

definition agui_run ::
    "'k deployment \<Rightarrow> clock \<Rightarrow> minted_ids \<Rightarrow> agent_ref \<Rightarrow> agui_body \<Rightarrow> core \<Rightarrow> core \<times> agui_reply result" where
  "agui_run D ck ids agent body w =
     (case bindR (agui_admit D (ck_time ck) agent (bo_metadata body) (w_db w)) (\<lambda>am.
           bindR (ensure_thread (ck_now ck) (mi_thread ids) agent (Some (bo_thread_id body)) None (am_metadata am)
                    True (am_head_key am) (w_db w)) (\<lambda>(view, thread_id). Inr (am, view, thread_id))) of
        Inl e \<Rightarrow> (w, Inl e)
      | Inr (am, view, thread_id) \<Rightarrow>
          (case agui_round D ck ids agent body am thread_id (w_db w) view of
             (d, view', Inl e) \<Rightarrow> (w\<lparr>w_db := d\<rparr>, Inl e)
           | (d, view', Inr None) \<Rightarrow> (w\<lparr>w_db := d\<rparr>, Inr (ThreadSnapshot (get_thread_snapshot view' thread_id)))
           | (d, view', Inr (Some (run_id, seq))) \<Rightarrow>
               (case append_thread_messages (ck_now ck) thread_id run_id
                       (zip (bo_messages body) (map (mi_message ids) [0..<length (bo_messages body)])) view' of
                  Inl e \<Rightarrow> (w\<lparr>w_db := d\<rparr>, Inl e)
                | Inr (d3, messages) \<Rightarrow>
                    agui_launch D ck agent body am thread_id run_id seq messages d3 (w\<lparr>w_db := d\<rparr>))))"

text \<open>\<open>_offline_events\<close> and \<open>_relay\<close>; \<open>fresh i\<close> is the id minted for the \<open>i\<close>-th item.\<close>

definition offline_events :: "string \<Rightarrow> string \<Rightarrow> pyval list" where
  "offline_events thread_id run_id =
     [PDict [(''type'', PStr ''RUN_STARTED''), (''threadId'', PStr thread_id), (''runId'', PStr run_id)],
      PDict [(''type'', PStr ''RUN_ERROR''), (''message'', PStr ''agent is currently offline'')]]"

fun relay_events ::
    "(nat \<Rightarrow> string) \<Rightarrow> nat \<Rightarrow> (pyval, string) dict \<Rightarrow> pyval list \<Rightarrow> pyval list result" where
  "relay_events fresh i id_map [] = Inr []"
| "relay_events fresh i id_map (item # items) =
     bindR (rewrite_message_ids (fresh i) item id_map) (\<lambda>(item', id_map').
     bindR (relay_events fresh (Suc i) id_map' items) (\<lambda>rest. Inr (item' # rest)))"

end
