(* ===== verification/A2ATranslate.thy ===== *)
theory A2ATranslate
  imports Doors
begin

text \<open>
  \<open>funduq/protocols/a2a_translate.py\<close>: the projection of runs and AG-UI events onto A2A.  The
  protobuf messages are records of the fields the source sets; their JSON form is the work of
  \<open>MessageToDict\<close>.  A field of type \<open>string\<close> refuses any other value with \<open>TypeError\<close>, and a
  \<open>Struct\<close> takes every JSON value.  Events are dictionaries, as the relay leaves them.
\<close>

datatype task_state =
    TASK_STATE_UNSPECIFIED | TASK_STATE_SUBMITTED | TASK_STATE_WORKING | TASK_STATE_INPUT_REQUIRED
  | TASK_STATE_COMPLETED | TASK_STATE_FAILED | TASK_STATE_CANCELED

record a2a_text_message =
  tm_message_id :: string
  tm_text :: string

record status_update =
  su_task_id :: string
  su_context_id :: string
  su_state :: task_state
  su_message :: "a2a_text_message option"
  su_metadata :: "(string, pyval) dict"

record artifact =
  af_artifact_id :: string
  af_text :: string

record artifact_update =
  au_task_id :: string
  au_context_id :: string
  au_artifact :: artifact
  au_append :: bool

datatype stream_response = StatusUpdate status_update | ArtifactUpdate artifact_update

record a2a_task =
  tk_id :: string
  tk_context_id :: string
  tk_state :: task_state
  tk_artifacts :: "artifact list"
  tk_metadata :: "(string, pyval) dict"

text \<open>A value assigned to a protobuf field of type \<open>string\<close>.\<close>

fun pb_string :: "pyval \<Rightarrow> string result" where
  "pb_string (PStr s) = Inr s"
| "pb_string _ = Inl TypeError"

subsection \<open>States\<close>

fun state_for_run_status :: "status \<Rightarrow> task_state" where
  "state_for_run_status Queued = TASK_STATE_SUBMITTED"
| "state_for_run_status Running = TASK_STATE_WORKING"
| "state_for_run_status InputRequired = TASK_STATE_INPUT_REQUIRED"
| "state_for_run_status Completed = TASK_STATE_COMPLETED"
| "state_for_run_status Failed = TASK_STATE_FAILED"
| "state_for_run_status Cancelled = TASK_STATE_CANCELED"
| "state_for_run_status Cancelling = TASK_STATE_UNSPECIFIED"

definition LIFECYCLE_EVENT_TYPES :: "string list" where
  "LIFECYCLE_EVENT_TYPES = [''RUN_STARTED'', ''RUN_FINISHED'', ''RUN_ERROR'']"

definition TEXT_EVENT_TYPES :: "string list" where
  "TEXT_EVENT_TYPES = [''TEXT_MESSAGE_CONTENT'', ''TEXT_MESSAGE_CHUNK'']"

definition MAPPED_EVENT_TYPES :: "string list" where
  "MAPPED_EVENT_TYPES = LIFECYCLE_EVENT_TYPES @ TEXT_EVENT_TYPES"

text \<open>\<open>x in names\<close> for a frozenset of strings.\<close>

definition in_names :: "pyval \<Rightarrow> string list \<Rightarrow> bool result" where
  "in_names x names =
     (if \<not> hashable x then Inl TypeError
      else Inr (case x of PStr s \<Rightarrow> s \<in> set names | _ \<Rightarrow> False))"

definition is_mapped :: "pyval \<Rightarrow> bool result" where
  "is_mapped event = in_names (event_type event) MAPPED_EVENT_TYPES"

definition OVERFLOW_METADATA_KEY :: string where
  "OVERFLOW_METADATA_KEY = ''agui_event''"

definition OVERFLOW_METADATA_LIST_KEY :: string where
  "OVERFLOW_METADATA_LIST_KEY = ''agui_events''"

subsection \<open>Updates\<close>

definition a2a_status_update ::
    "string \<Rightarrow> string \<Rightarrow> task_state \<Rightarrow> pyval \<Rightarrow> pyval option \<Rightarrow> (string, pyval) dict \<Rightarrow> stream_response" where
  "a2a_status_update task_id context_id state message agui_event metadata =
     StatusUpdate
       \<lparr>su_task_id = task_id, su_context_id = context_id, su_state = state,
        su_message = (if message = PNone then None
                      else Some \<lparr>tm_message_id = task_id @ ''-error'', tm_text = py_str message\<rparr>),
        su_metadata = dupdate (dupdate [] metadata)
          (case agui_event of None \<Rightarrow> [] | Some event \<Rightarrow> [(OVERFLOW_METADATA_KEY, event)])\<rparr>"

definition status_update_for_run_status :: "string \<Rightarrow> string \<Rightarrow> status \<Rightarrow> stream_response" where
  "status_update_for_run_status task_id context_id s =
     a2a_status_update task_id context_id (state_for_run_status s) PNone None []"

definition text_delta_of :: "pyval \<Rightarrow> (pyval \<times> pyval) option result" where
  "text_delta_of event =
     bindR (in_names (event_type event) TEXT_EVENT_TYPES) (\<lambda>is_text.
       Inr (if \<not> is_text then None
            else Some (por (pget event ''messageId'') (PStr ''text''),
                       por (por (pget event ''delta'') (pget event ''content'')) (PStr []))))"

definition artifact_of :: "pyval \<times> pyval \<Rightarrow> artifact result" where
  "artifact_of x =
     bindR (pb_string (snd x)) (\<lambda>text.
     bindR (pb_string (fst x)) (\<lambda>artifact_id.
       Inr \<lparr>af_artifact_id = artifact_id, af_text = text\<rparr>))"

definition agui_event_to_a2a_update :: "string \<Rightarrow> string \<Rightarrow> pyval \<Rightarrow> stream_response result" where
  "agui_event_to_a2a_update task_id context_id event =
     (let st = a2a_status_update task_id context_id in
      if event_type event = PStr ''RUN_STARTED'' then Inr (st TASK_STATE_WORKING PNone None [])
      else if event_type event = PStr ''RUN_FINISHED'' then
        (case interrupt_outcome_of event of
           Some interrupts \<Rightarrow> Inr (st TASK_STATE_INPUT_REQUIRED PNone None [(''interrupts'', interrupts)])
         | None \<Rightarrow> Inr (st TASK_STATE_COMPLETED PNone None []))
      else if event_type event = PStr ''RUN_ERROR'' then
        Inr (st TASK_STATE_FAILED (pget event ''message'') None [])
      else bindR (text_delta_of event) (\<lambda>delta.
        case delta of
          Some x \<Rightarrow> bindR (artifact_of x) (\<lambda>artifact.
            Inr (ArtifactUpdate \<lparr>au_task_id = task_id, au_context_id = context_id,
                                 au_artifact = artifact, au_append = True\<rparr>))
        | None \<Rightarrow> Inr (st TASK_STATE_WORKING PNone (Some event) [])))"

subsection \<open>Messages coming in\<close>

text \<open>\<open>str.upper\<close> on the letters a role can be compared to.\<close>

definition upper :: "string \<Rightarrow> string" where
  "upper = map (\<lambda>c. let n = of_char c :: nat in if 97 \<le> n \<and> n \<le> 122 then char_of (n - 32) else c)"

fun part_text :: "pyval \<Rightarrow> string result" where
  "part_text (PDict part) = Inr (case pget (PDict part) ''text'' of PStr s \<Rightarrow> s | _ \<Rightarrow> [])"
| "part_text _ = Inl AttributeError"

text \<open>\<open>dump role id text\<close> is the dump of AG-UI's message class for that role.\<close>

definition a2a_message_to_agui_messages ::
    "(string \<Rightarrow> string \<Rightarrow> string \<Rightarrow> pyval) \<Rightarrow> pyval \<Rightarrow> pyval list result" where
  "a2a_message_to_agui_messages dump message =
     (let raw_role = upper (py_str (pget_or message ''role'' (PStr []))) in
      bindR (py_iter (pget_or message ''parts'' (PList []))) (\<lambda>parts.
      bindR (traverseR part_text parts) (\<lambda>texts.
        Inr [dump (if raw_role \<in> {''ROLE_AGENT'', ''AGENT''} then ''assistant'' else ''user'')
               ''unset'' (concat texts)])))"

subsection \<open>Whole tasks\<close>

text \<open>The loop of \<open>build_task\<close> with its two collections.\<close>

fun collect_deltas ::
    "pyval list \<Rightarrow> (pyval, pyval list) dict \<Rightarrow> pyval list \<Rightarrow> ((pyval, pyval list) dict \<times> pyval list) result" where
  "collect_deltas [] merged overflow = Inr (merged, overflow)"
| "collect_deltas (event # events) merged overflow =
     bindR (text_delta_of event) (\<lambda>delta.
       case delta of
         Some (artifact_id, text) \<Rightarrow>
           if \<not> hashable artifact_id then Inl TypeError
           else collect_deltas events
                  (dset artifact_id ((case dget merged artifact_id of None \<Rightarrow> [] | Some ts \<Rightarrow> ts) @ [text]) merged)
                  overflow
       | None \<Rightarrow>
           bindR (is_mapped event) (\<lambda>mapped.
             collect_deltas events merged (if mapped then overflow else overflow @ [event])))"

text \<open>One artifact: \<open>"".join(chunks)\<close> under its id.\<close>

definition merged_artifact :: "pyval \<times> pyval list \<Rightarrow> artifact result" where
  "merged_artifact x =
     bindR (traverseR pb_string (snd x)) (\<lambda>texts.
     bindR (pb_string (fst x)) (\<lambda>artifact_id.
       Inr \<lparr>af_artifact_id = artifact_id, af_text = concat texts\<rparr>))"

definition build_task :: "string \<Rightarrow> string \<Rightarrow> status \<Rightarrow> pyval list \<Rightarrow> a2a_task result" where
  "build_task task_id context_id s run_events =
     bindR (collect_deltas run_events [] []) (\<lambda>(merged, overflow).
     bindR (traverseR merged_artifact merged) (\<lambda>artifacts.
       Inr \<lparr>tk_id = task_id, tk_context_id = context_id, tk_state = state_for_run_status s,
            tk_artifacts = artifacts,
            tk_metadata = (if overflow = [] then []
                           else [(OVERFLOW_METADATA_LIST_KEY, PList overflow)])\<rparr>))"

end
