(* ===== verification/A2ADoor.thy ===== *)
theory A2ADoor
  imports A2ATranslate
begin

text \<open>
  \<open>funduq/protocols/a2a.py\<close>: the A2A door.  \<open>_start_run\<close> is one step, in the style of the AG-UI door
  of \<open>Doors\<close>: each early return keeps what was committed before it.  The KYOK relay is no part of the
  transaction, so a binding it inherited stays whatever happens to the session.
\<close>

subsection \<open>The arguments of a send\<close>

record send_params =
  pa_message :: pyval
  pa_context_id :: pyval
  pa_task_id :: pyval
  pa_metadata :: pyval

text \<open>\<open>_send_args\<close> and \<open>_params\<close>, one after the other; \<open>params\<close> is the JSON of the request.\<close>

definition send_args :: "pyval \<Rightarrow> (send_params \<times> pyval \<times> pyval) result" where
  "send_args params =
     (let message = pget_or params ''message'' (PDict []);
          metadata = por (pget_or params ''metadata'' (PDict [])) (PDict [])
      in if \<not> is_dict params \<or> \<not> is_dict message \<or> \<not> is_dict metadata then Inl AttributeError
         else Inr (\<lparr>pa_message = message,
                    pa_context_id = por (pget message ''contextId'') (pget params ''contextId''),
                    pa_task_id = pget message ''taskId'',
                    pa_metadata = PDict (filter (\<lambda>(k, v). k \<noteq> ''actorChain'') (items_of metadata))\<rparr>,
                   pget message ''referenceTaskIds'', pget metadata ''actorChain''))"

definition combined_params :: "send_params \<times> pyval \<times> pyval \<Rightarrow> send_params" where
  "combined_params x =
     (let (args, reference_task_ids, actor_chain) = x in
      args\<lparr>pa_message := (if truthy reference_task_ids
                          then pset ''referenceTaskIds'' reference_task_ids (pa_message args) else pa_message args),
           pa_metadata := (if truthy actor_chain then pset ''actorChain'' actor_chain (pa_metadata args)
                           else pa_metadata args)\<rparr>)"

subsection \<open>Threads and lineage\<close>

text \<open>An id in a query; \<open>x[0]\<close> on a list of them.\<close>

definition text_id :: "'k deployment \<Rightarrow> pyval \<Rightarrow> string result" where
  "text_id D v = (case v of PStr s \<Rightarrow> Inr s | _ \<Rightarrow> dp_text_param D v)"

fun first_item :: "pyval \<Rightarrow> pyval result" where
  "first_item (PList (v # vs)) = Inr v"
| "first_item (PList []) = Inl LookupError"
| "first_item (PStr (c # cs)) = Inr (PStr [c])"
| "first_item (PStr []) = Inl LookupError"
| "first_item (PDict kvs) = Inl KeyError"
| "first_item _ = Inl TypeError"

definition reference_task_ids :: "pyval \<Rightarrow> pyval" where
  "reference_task_ids message = por (pget message ''referenceTaskIds'') (PList [])"

definition lineage_parent :: "'k deployment \<Rightarrow> db \<Rightarrow> pyval \<Rightarrow> string option result" where
  "lineage_parent D d message =
     (if \<not> truthy (reference_task_ids message) then Inr None
      else bindR (first_item (reference_task_ids message)) (\<lambda>v.
           bindR (text_id D v) (\<lambda>run_id. Inr (map_option rn_thread_id (get_run d run_id)))))"

definition context_of_task :: "'k deployment \<Rightarrow> db \<Rightarrow> pyval \<Rightarrow> string option result" where
  "context_of_task D d task_id =
     (if \<not> truthy task_id then Inr None
      else bindR (text_id D task_id) (\<lambda>run_id.
             case get_run d run_id of None \<Rightarrow> Inl RunNotFound | Some r \<Rightarrow> Inr (Some (rn_thread_id r))))"

definition context_of :: "'k deployment \<Rightarrow> db \<Rightarrow> send_params \<Rightarrow> string option result" where
  "context_of D d params =
     (if truthy (pa_context_id params)
      then bindR (text_id D (pa_context_id params)) (\<lambda>c. Inr (Some c))
      else context_of_task D d (pa_task_id params))"

definition addressed_run :: "'k deployment \<Rightarrow> db \<Rightarrow> pyval \<Rightarrow> run_row option result" where
  "addressed_run D d task_id =
     (if \<not> truthy task_id then Inr None else bindR (text_id D task_id) (\<lambda>i. Inr (get_run d i)))"

subsection \<open>Starting a run\<close>

text \<open>The first part: who asks, and on which thread.\<close>

definition a2a_admit ::
    "'k deployment \<Rightarrow> clock \<Rightarrow> minted_ids \<Rightarrow> agent_ref \<Rightarrow> send_params \<Rightarrow> db \<Rightarrow> (admitted \<times> db \<times> string) result" where
  "a2a_admit D ck ids agent params d =
     (if get_agent d agent = None then Inl AgentNotFound
      else bindR (opted_in (dp_opt_in D) (pa_metadata params) d) (\<lambda>kyok.
           bindR (lineage_parent D d (pa_message params)) (\<lambda>parent.
           bindR (context_of D d params) (\<lambda>context_id.
           bindR (verify_caller_metadata (dp_crypto D) (ck_time ck) (strip_kyok_context (pa_metadata params)))
             (\<lambda>(metadata, head_key, actor_chain).
           bindR (ensure_thread (ck_now ck) (mi_thread ids) agent context_id parent metadata False head_key d)
             (\<lambda>(view, thread_id).
             Inr (\<lparr>am_metadata = metadata, am_head_key = head_key, am_actor_chain = actor_chain, am_kyok = kyok\<rparr>,
                  view, thread_id)))))))"

definition awaits_answer :: "run_row option \<Rightarrow> string \<Rightarrow> bool" where
  "awaits_answer addressed thread_id =
     (case addressed of None \<Rightarrow> False
      | Some r \<Rightarrow> rn_thread_id r = thread_id \<and> rn_status r = InputRequired)"

text \<open>The queue lane: \<open>d0\<close> is what is committed so far.\<close>

definition a2a_queue ::
    "'k deployment \<Rightarrow> clock \<Rightarrow> minted_ids \<Rightarrow> agent_ref \<Rightarrow> pyval \<Rightarrow> admitted \<Rightarrow> string \<Rightarrow> db \<Rightarrow> db
       \<Rightarrow> db \<times> db \<times> (string \<times> int) result" where
  "a2a_queue D ck ids agent run_input am thread_id d0 view =
     (case bindR (ensure_queue_room view thread_id (st_thread_queue_limit (dp_settings D))) (\<lambda>_.
             create_run (ck_now ck) (mi_run ids) thread_id agent ''a2a'' run_input (am_metadata am)
               (am_head_key am) view) of
        Inl e \<Rightarrow> (d0, view, Inl e)
      | Inr (d', run_id) \<Rightarrow> (d', d', Inr (run_id, 0)))"

definition a2a_round ::
    "'k deployment \<Rightarrow> clock \<Rightarrow> minted_ids \<Rightarrow> agent_ref \<Rightarrow> run_row option \<Rightarrow> pyval \<Rightarrow> admitted \<Rightarrow> string \<Rightarrow> db \<Rightarrow> db
       \<Rightarrow> db \<times> db \<times> (string \<times> int) result" where
  "a2a_round D ck ids agent addressed run_input am thread_id d0 view =
     (case (if awaits_answer addressed thread_id then addressed else None) of
        None \<Rightarrow> a2a_queue D ck ids agent run_input am thread_id d0 view
      | Some paused \<Rightarrow>
          (case check_resolution (dp_crypto D) (ck_time ck) agent (am_metadata am) paused of
             Inl e \<Rightarrow> (d0, view, Inl e)
           | Inr _ \<Rightarrow>
               let (d', won) = reopen_run (ck_now ck) (rn_run_id paused) run_input (am_metadata am)
                                 (Some InputRequired) view
               in if won then (d', d', Inr (rn_run_id paused, get_last_event_seq d' (rn_run_id paused)))
                  else a2a_queue D ck ids agent run_input am thread_id d' d'))"

text \<open>Inheriting the binding of the first referenced task, when nothing was opted into.\<close>

definition inherit_binding ::
    "'k deployment \<Rightarrow> admitted \<Rightarrow> pyval \<Rightarrow> string \<Rightarrow> kyok_relay \<Rightarrow> (bool \<times> kyok_relay) result" where
  "inherit_binding D am message run_id k =
     (if am_kyok am \<noteq> None \<or> \<not> truthy (reference_task_ids message) then Inr (False, k)
      else bindR (first_item (reference_task_ids message)) (\<lambda>v.
             if \<not> hashable v then Inl TypeError
             else Inr (case v of
                    PStr parent \<Rightarrow> inherit parent run_id (chain_tokens (am_actor_chain am)) k
                  | _ \<Rightarrow> (False, k))))"

definition addressed_run_id :: "pyval \<Rightarrow> pyval \<Rightarrow> pyval result" where
  "addressed_run_id message metadata =
     (let own = por (pget message ''metadata'') (PDict []) in
      if \<not> is_dict own then Inl AttributeError
      else Inr (por (pget own ADDRESSED_RUN_METADATA_KEY) (pget metadata ADDRESSED_RUN_METADATA_KEY)))"

text \<open>The input the agent gets; \<open>granted\<close> says whether it comes with a KYOK grant.\<close>

definition a2a_run_input ::
    "'k deployment \<Rightarrow> clock \<Rightarrow> agent_ref \<Rightarrow> pyval \<Rightarrow> admitted \<Rightarrow> bool \<Rightarrow> string \<Rightarrow> string \<Rightarrow> pyval list
       \<Rightarrow> pyval result" where
  "a2a_run_input D ck agent message am granted thread_id run_id messages =
     bindR (addressed_run_id message (am_metadata am)) (\<lambda>addressed.
       (case build_run_agent_input (dp_run_input D) thread_id run_id (PList messages) PNone PNone PNone
               (build_forwarded_props (dp_codec D) (ck_time ck) (st_token_signing_secret (dp_settings D)) run_id
                  agent granted PNone (am_actor_chain am) addressed (pget (am_metadata am) ''delegation''))
               PNone PNone of
          Inl e \<Rightarrow> Inl InvalidRunInput
        | Inr input \<Rightarrow> Inr input))"

text \<open>The last part, in a world \<open>w\<close> of committed writes; \<open>d\<close> is what the session has written since.\<close>

definition a2a_launch ::
    "'k deployment \<Rightarrow> clock \<Rightarrow> agent_ref \<Rightarrow> pyval \<Rightarrow> admitted \<Rightarrow> string \<Rightarrow> string \<Rightarrow> int \<Rightarrow> pyval list \<Rightarrow> db \<Rightarrow> core
       \<Rightarrow> core \<times> (string \<times> string \<times> bool) result" where
  "a2a_launch D ck agent message am thread_id run_id seq messages d w =
     (if \<not> is_serving w agent then
        (case mark_status (ck_now ck) run_id Failed offline_reason (w\<lparr>w_db := d\<rparr>) of
           (w', Inl e) \<Rightarrow> (w, Inl e)
         | (w', Inr _) \<Rightarrow> (w', Inr (run_id, thread_id, False)))
      else
        (case inherit_binding D am message run_id (c_relay w) of
           Inl e \<Rightarrow> (w, Inl e)
         | Inr (inherited, relay) \<Rightarrow>
             let w0 = w\<lparr>c_relay := relay\<rparr> in
             (case a2a_run_input D ck agent message am (am_kyok am \<noteq> None \<or> inherited) thread_id run_id messages of
                Inl e \<Rightarrow> (w0, Inl e)
              | Inr input \<Rightarrow>
                  let w1 = bind_opted (am_kyok am) (am_actor_chain am) run_id (w0\<lparr>w_db := d\<rparr>) in
                  (case core_enqueue_run (ck_now ck) run_id agent thread_id input ''a2a'' seq w1 of
                     Inl e \<Rightarrow> (w1, Inl e)
                   | Inr (a, w2) \<Rightarrow> (w2, Inr (run_id, thread_id, True))))))"

definition a2a_start_run ::
    "'k deployment \<Rightarrow> clock \<Rightarrow> minted_ids \<Rightarrow> agent_ref \<Rightarrow> send_params \<Rightarrow> core
       \<Rightarrow> core \<times> (string \<times> string \<times> bool) result" where
  "a2a_start_run D ck ids agent params w =
     (case a2a_admit D ck ids agent params (w_db w) of
        Inl e \<Rightarrow> (w, Inl e)
      | Inr (am, view, thread_id) \<Rightarrow>
          (case bindR (a2a_message_to_agui_messages (dp_message D) (pa_message params)) (\<lambda>messages.
                bindR (addressed_run D view (pa_task_id params)) (\<lambda>addressed. Inr (messages, addressed))) of
             Inl e \<Rightarrow> (w, Inl e)
           | Inr (messages, addressed) \<Rightarrow>
               (case a2a_round D ck ids agent addressed
                       (PDict [(''thread_id'', PStr thread_id), (''messages'', PList messages)]) am thread_id
                       (w_db w) view of
                  (d, view', Inl e) \<Rightarrow> (w\<lparr>w_db := d\<rparr>, Inl e)
                | (d, view', Inr (run_id, seq)) \<Rightarrow>
                    (case append_thread_messages (ck_now ck) thread_id run_id
                            (zip messages (map (mi_message ids) [0..<length messages])) view' of
                       Inl e \<Rightarrow> (w\<lparr>w_db := d\<rparr>, Inl e)
                     | Inr (d3, stored) \<Rightarrow>
                         a2a_launch D ck agent (pa_message params) am thread_id run_id seq stored d3
                           (w\<lparr>w_db := d\<rparr>)))))"

end
