(* ===== verification/A2ATasks.thy ===== *)
theory A2ATasks
  imports A2ADoor
begin

text \<open>
  The rest of \<open>funduq/protocols/a2a.py\<close>: tasks read, streamed and cancelled, the JSON-RPC dispatch, and
  the agent card.  \<open>drained\<close> are the events a subscriber took off the run's queue before its end.  A
  stream is the updates it yields and the exception it may end with.
\<close>

definition METHOD_NOT_FOUND :: int where "METHOD_NOT_FOUND = -32601"
definition TASK_NOT_FOUND :: int where "TASK_NOT_FOUND = -32001"

subsection \<open>Tasks\<close>

definition run_of :: "'k deployment \<Rightarrow> core \<Rightarrow> agent_ref \<Rightarrow> pyval \<Rightarrow> run_row result" where
  "run_of D w agent task_id =
     (if \<not> truthy task_id then Inl RunNotFound
      else bindR (text_id D task_id) (\<lambda>i.
        case get_run (w_db w) i of
          None \<Rightarrow> Inl RunNotFound
        | Some run \<Rightarrow> if run_agent run \<noteq> agent then Inl RunNotFound else Inr run))"

definition stored_status :: "core \<Rightarrow> string \<Rightarrow> status option" where
  "stored_status w run_id = map_option rn_status (get_run (w_db w) run_id)"

definition get_task :: "'k deployment \<Rightarrow> core \<Rightarrow> agent_ref \<Rightarrow> pyval \<Rightarrow> a2a_task result" where
  "get_task D w agent task_id =
     bindR (run_of D w agent task_id) (\<lambda>run.
     bindR (pb_string task_id) (\<lambda>i.
       build_task i (rn_thread_id run) (rn_status run) (get_run_events (w_db w) i 0)))"

definition cancel_task :: "'k deployment \<Rightarrow> core \<Rightarrow> agent_ref \<Rightarrow> pyval \<Rightarrow> core \<times> a2a_task result" where
  "cancel_task D w agent task_id =
     (case bindR (run_of D w agent task_id) (\<lambda>run. bindR (pb_string task_id) (\<lambda>i. Inr (run, i))) of
        Inl e \<Rightarrow> (w, Inl e)
      | Inr (run, i) \<Rightarrow>
          let w' = snd (cancel_run i w);
              current = (case get_run (w_db w') i of None \<Rightarrow> run | Some r \<Rightarrow> r)
          in (w', build_task i (rn_thread_id run) (rn_status current) (get_run_events (w_db w') i 0)))"

text \<open>Whether a started run is still with the broker.\<close>

definition a2a_live :: "core \<Rightarrow> string \<times> string \<times> bool \<Rightarrow> bool" where
  "a2a_live w started =
     (case started of (run_id, thread_id, is_live) \<Rightarrow> is_live \<and> get_run_snapshot (w_broker w) run_id \<noteq> None)"

text \<open>What \<open>send_task\<close> answers at the end, in the world \<open>w\<close> of that moment.\<close>

definition send_task_reply :: "string \<Rightarrow> string \<Rightarrow> bool \<Rightarrow> pyval list \<Rightarrow> core \<Rightarrow> a2a_task result" where
  "send_task_reply run_id thread_id live drained w =
     build_task run_id thread_id (case stored_status w run_id of None \<Rightarrow> Completed | Some s \<Rightarrow> s)
       (if live then drained else get_run_events (w_db w) run_id 0)"

subsection \<open>Streams\<close>

text \<open>The common end of both generators: the events translated one by one, then the stored status.\<close>

fun follow_events ::
    "string \<Rightarrow> string \<Rightarrow> pyval list \<Rightarrow> status option \<Rightarrow> stream_response list \<times> funduq_error option" where
  "follow_events task_id context_id [] stored =
     ((case stored of
         None \<Rightarrow> []
       | Some s \<Rightarrow> if s = Completed then [] else [status_update_for_run_status task_id context_id s]), None)"
| "follow_events task_id context_id (event # events) stored =
     (case agui_event_to_a2a_update task_id context_id event of
        Inl e \<Rightarrow> ([], Some e)
      | Inr u \<Rightarrow>
          let (updates, failure) = follow_events task_id context_id events stored
          in (u # updates, failure))"

text \<open>\<open>send_task_streaming\<close> once its run is started; \<open>w\<close> is the world after the events.\<close>

definition streamed_task ::
    "string \<Rightarrow> string \<Rightarrow> bool \<Rightarrow> pyval list \<Rightarrow> core \<Rightarrow> stream_response list \<times> funduq_error option" where
  "streamed_task run_id thread_id live drained w =
     (if live then follow_events run_id thread_id drained (stored_status w run_id)
      else ([status_update_for_run_status run_id thread_id
               (case stored_status w run_id of None \<Rightarrow> Completed | Some s \<Rightarrow> s)], None))"

text \<open>\<open>resubscribe_task\<close>: the run's events when the broker has it, else its status of that moment.\<close>

definition resubscribe_task :: "'k deployment \<Rightarrow> core \<Rightarrow> agent_ref \<Rightarrow> pyval \<Rightarrow> (run_row \<times> bool) result" where
  "resubscribe_task D w agent task_id =
     bindR (run_of D w agent task_id) (\<lambda>run.
       Inr (run, get_run_snapshot (w_broker w) (rn_run_id run) \<noteq> None))"

definition resubscribed ::
    "run_row \<times> bool \<Rightarrow> pyval list \<Rightarrow> core \<Rightarrow> stream_response list \<times> funduq_error option" where
  "resubscribed x drained w =
     (case x of (run, live) \<Rightarrow>
        if live then follow_events (rn_run_id run) (rn_thread_id run) drained (stored_status w (rn_run_id run))
        else ([status_update_for_run_status (rn_run_id run) (rn_thread_id run) (rn_status run)], None))"

text \<open>Every subscriber of a run takes from the one queue it has.  A schedule says which of two
  subscribers gets the next item; a subscriber that got the end marker is gone, and one that waits on
  the empty queue is still waiting.\<close>

fun shared_drain ::
    "bool list \<Rightarrow> out_item list \<Rightarrow> (pyval list \<times> bool) \<Rightarrow> (pyval list \<times> bool)
       \<Rightarrow> (pyval list \<times> bool) \<times> (pyval list \<times> bool)" where
  "shared_drain (turn # turns) (item # items) (xs, x_ended) (ys, y_ended) =
     (if x_ended \<and> y_ended then ((xs, x_ended), (ys, y_ended))
      else if y_ended \<or> (turn \<and> \<not> x_ended) then
        (case item of OutEvent e \<Rightarrow> shared_drain turns items (xs @ [e], x_ended) (ys, y_ended)
                    | EndOfStream \<Rightarrow> shared_drain turns items (xs, True) (ys, y_ended))
      else
        (case item of OutEvent e \<Rightarrow> shared_drain turns items (xs, x_ended) (ys @ [e], y_ended)
                    | EndOfStream \<Rightarrow> shared_drain turns items (xs, x_ended) (ys, True)))"
| "shared_drain _ _ x y = (x, y)"

subsection \<open>JSON-RPC\<close>

datatype a2a_operation = SEND | STREAM | GET | CANCEL | SUBSCRIBE

fun method_names :: "a2a_operation \<Rightarrow> string list" where
  "method_names SEND = [''SendMessage'', ''message/send'', ''tasks/send'']"
| "method_names STREAM = [''SendStreamingMessage'', ''message/stream'', ''tasks/sendSubscribe'']"
| "method_names GET = [''GetTask'', ''tasks/get'']"
| "method_names CANCEL = [''CancelTask'', ''tasks/cancel'']"
| "method_names SUBSCRIBE = [''SubscribeToTask'', ''tasks/resubscribe'']"

definition operation_of :: "pyval \<Rightarrow> a2a_operation option result" where
  "operation_of method =
     (if \<not> hashable method then Inl TypeError
      else Inr (case method of
             PStr m \<Rightarrow> find (\<lambda>x. m \<in> set (method_names x)) [SEND, STREAM, GET, CANCEL, SUBSCRIBE]
           | _ \<Rightarrow> None))"

datatype 'a rpc_reply = RpcResult pyval 'a | RpcError pyval int

text \<open>\<open>_envelope\<close>: an unknown task is an answer, everything else goes on to the caller.\<close>

definition envelope :: "pyval \<Rightarrow> 'a result \<Rightarrow> 'a rpc_reply result" where
  "envelope rpc_id r =
     (case r of
        Inr x \<Rightarrow> Inr (RpcResult rpc_id x)
      | Inl e \<Rightarrow> if e = RunNotFound then Inr (RpcError rpc_id TASK_NOT_FOUND) else Inl e)"

text \<open>What an answer goes on with: a task, a run to wait for, a run to stream, or one to rejoin.\<close>

datatype rpc_body =
    TaskBody a2a_task
  | AwaitBody string string bool
  | StreamBody string string bool
  | RejoinBody run_row bool

definition started_body :: "(string \<Rightarrow> string \<Rightarrow> bool \<Rightarrow> rpc_body) \<Rightarrow> core \<Rightarrow> string \<times> string \<times> bool \<Rightarrow> rpc_body" where
  "started_body B w started = (case started of (run_id, thread_id, is_live) \<Rightarrow> B run_id thread_id (a2a_live w started))"

definition send_rpc ::
    "(string \<Rightarrow> string \<Rightarrow> bool \<Rightarrow> rpc_body) \<Rightarrow> 'k deployment \<Rightarrow> clock \<Rightarrow> minted_ids \<Rightarrow> agent_ref \<Rightarrow> pyval \<Rightarrow> core
       \<Rightarrow> core \<times> rpc_body result" where
  "send_rpc B D ck ids agent params w =
     (case send_args params of
        Inl e \<Rightarrow> (w, Inl e)
      | Inr args \<Rightarrow>
          let (w', r) = a2a_start_run D ck ids agent (combined_params args) w
          in (w', bindR r (\<lambda>started. Inr (started_body B w' started))))"

definition id_param :: "pyval \<Rightarrow> pyval result" where
  "id_param params = (if is_dict params then Inr (pget params ''id'') else Inl AttributeError)"

definition perform ::
    "a2a_operation \<Rightarrow> 'k deployment \<Rightarrow> clock \<Rightarrow> minted_ids \<Rightarrow> agent_ref \<Rightarrow> pyval \<Rightarrow> core \<Rightarrow> core \<times> rpc_body result" where
  "perform op D ck ids agent params w =
     (case op of
        SEND \<Rightarrow> send_rpc AwaitBody D ck ids agent params w
      | STREAM \<Rightarrow> send_rpc StreamBody D ck ids agent params w
      | GET \<Rightarrow> (w, bindR (id_param params) (\<lambda>i. bindR (get_task D w agent i) (\<lambda>t. Inr (TaskBody t))))
      | CANCEL \<Rightarrow>
          (case id_param params of
             Inl e \<Rightarrow> (w, Inl e)
           | Inr i \<Rightarrow> let (w', r) = cancel_task D w agent i in (w', bindR r (\<lambda>t. Inr (TaskBody t))))
      | SUBSCRIBE \<Rightarrow>
          (w, bindR (id_param params) (\<lambda>i. bindR (resubscribe_task D w agent i)
                (\<lambda>(run, live). Inr (RejoinBody run live)))))"

definition handle_rpc ::
    "'k deployment \<Rightarrow> clock \<Rightarrow> minted_ids \<Rightarrow> agent_ref \<Rightarrow> pyval \<Rightarrow> core \<Rightarrow> core \<times> rpc_body rpc_reply result" where
  "handle_rpc D ck ids agent payload w =
     (let rpc_id = pget payload ''id'' in
      case operation_of (pget payload ''method'') of
        Inl e \<Rightarrow> (w, Inl e)
      | Inr None \<Rightarrow> (w, Inr (RpcError rpc_id METHOD_NOT_FOUND))
      | Inr (Some op) \<Rightarrow>
          let (w', r) = perform op D ck ids agent (pget_or payload ''params'' (PDict [])) w
          in (w', envelope rpc_id r))"

subsection \<open>The agent card\<close>

text \<open>\<open>bindings\<close> is A2A's \<open>TransportProtocol\<close>, from names to values.\<close>

record served_interface =
  si_url :: string
  si_binding :: string

definition served_interface_ok :: "(string, string) dict \<Rightarrow> served_interface \<Rightarrow> unit result" where
  "served_interface_ok bindings s = (if si_binding s \<in> set (dkeys bindings) then Inr () else Inl ValueError)"

record 's a2a_card =
  cd_name :: string
  cd_description :: string
  cd_version :: string
  cd_supported_interfaces :: "(string \<times> string) list"
  cd_skills :: "'s list"

text \<open>\<open>parse_skill\<close> is \<open>ParseDict\<close> into an \<open>AgentSkill\<close>, \<open>None\<close> where it raises \<open>ParseError\<close>.\<close>

definition card_skills :: "(pyval \<Rightarrow> 's option) \<Rightarrow> pyval \<Rightarrow> 's list result" where
  "card_skills parse_skill raw_skills =
     bindR (py_iter raw_skills) (\<lambda>raws. Inr (List.map_filter parse_skill raws))"

definition card_interface :: "(string, string) dict \<Rightarrow> served_interface \<Rightarrow> (string \<times> string) result" where
  "card_interface bindings s =
     (case dget bindings (si_binding s) of None \<Rightarrow> Inl KeyError | Some b \<Rightarrow> Inr (si_url s, b))"

definition agent_card ::
    "(string, string) dict \<Rightarrow> (pyval \<Rightarrow> 's option) \<Rightarrow> core \<Rightarrow> agent_ref \<Rightarrow> served_interface list \<Rightarrow> 's a2a_card result" where
  "agent_card bindings parse_skill w agent interfaces =
     (case get_agent (w_db w) agent of
        None \<Rightarrow> Inl AgentNotFound
      | Some row \<Rightarrow>
          let card = ag_card row in
          bindR (traverseR (card_interface bindings) interfaces) (\<lambda>served.
          bindR (card_skills parse_skill (pget_or card ''skills'' (PList []))) (\<lambda>skills.
          bindR (pb_string (pget_or card ''name'' (PStr (ag_name row)))) (\<lambda>name.
          bindR (pb_string (pget_or card ''description'' (PStr []))) (\<lambda>description.
          bindR (pb_string (pget_or card ''version'' (PStr ''0.1.0''))) (\<lambda>version.
            Inr \<lparr>cd_name = name, cd_description = description, cd_version = version,
                 cd_supported_interfaces = served, cd_skills = skills\<rparr>))))))"

end
