(* ===== verification/A2AClaims.thy ===== *)
theory A2AClaims
  imports A2ATasks
begin

text \<open>
  What the A2A door shows of a run: a task read afterwards against the updates streamed meanwhile, the
  state a stream ends on, and what happens when two streams follow one run.
\<close>

subsection \<open>The task and the stream\<close>

text \<open>A client that follows a stream: appending artifacts by id, collecting what comes under the
  overflow key.\<close>

fun apply_update :: "stream_response \<Rightarrow> (string, string) dict \<times> pyval list \<Rightarrow> (string, string) dict \<times> pyval list" where
  "apply_update (ArtifactUpdate u) (texts, extra) =
     (let i = af_artifact_id (au_artifact u);
          old = (case dget texts i of None \<Rightarrow> [] | Some t \<Rightarrow> t)
      in (dset i (old @ af_text (au_artifact u)) texts, extra))"
| "apply_update (StatusUpdate u) (texts, extra) =
     (texts, extra @ (case dget (su_metadata u) OVERFLOW_METADATA_KEY of None \<Rightarrow> [] | Some e \<Rightarrow> [e]))"

definition followed :: "stream_response list \<Rightarrow> (string, string) dict \<times> pyval list" where
  "followed updates = fold apply_update updates ([], [])"

definition task_of :: "string \<Rightarrow> string \<Rightarrow> status \<Rightarrow> (string, string) dict \<times> pyval list \<Rightarrow> a2a_task" where
  "task_of i c s view =
     \<lparr>tk_id = i, tk_context_id = c, tk_state = state_for_run_status s,
      tk_artifacts = map (\<lambda>x. \<lparr>af_artifact_id = fst x, af_text = snd x\<rparr>) (fst view),
      tk_metadata = (if snd view = [] then [] else [(OVERFLOW_METADATA_LIST_KEY, PList (snd view))])\<rparr>"

text \<open>The collections of \<open>build_task\<close> when every id and chunk is a string.\<close>

definition lifted :: "(string, string list) dict \<Rightarrow> (pyval, pyval list) dict" where
  "lifted sm = map (\<lambda>x. (PStr (fst x), map PStr (snd x))) sm"

definition texts_of :: "(string, string list) dict \<Rightarrow> (string, string) dict" where
  "texts_of sm = map (\<lambda>x. (fst x, concat (snd x))) sm"

definition unreadable :: "(pyval, pyval list) dict \<Rightarrow> bool" where
  "unreadable m \<longleftrightarrow> (\<exists>k vs. dget m k = Some vs \<and> \<not> (is_str k \<and> list_all is_str vs))"

lemma dget_lifted: "dget (lifted sm) (PStr k) = map_option (map PStr) (dget sm k)"
  by (induction sm) (auto simp: lifted_def)

lemma dset_lifted: "dset (PStr k) (map PStr ts) (lifted sm) = lifted (dset k ts sm)"
  by (induction sm) (auto simp: lifted_def)

lemma dget_texts: "dget (texts_of sm) k = map_option concat (dget sm k)"
  by (induction sm) (auto simp: texts_of_def)

lemma dset_texts: "dset k (concat ts) (texts_of sm) = texts_of (dset k ts sm)"
  by (induction sm) (auto simp: texts_of_def)

lemma pb_string_Inl: "pb_string v = Inl e \<longleftrightarrow> \<not> is_str v \<and> e = TypeError"
  by (cases v) auto

lemma traverse_strings: "traverseR pb_string (map PStr ts) = Inr ts"
  by (induction ts) auto

lemma traverse_error:
  assumes only: "\<And>x e. f x = Inl e \<Longrightarrow> e = err" and "x \<in> set xs" "f x = Inl err"
  shows "traverseR f xs = Inl err"
  using assms(2)
proof (induction xs)
  case Nil
  from Nil show ?case by simp
next
  case (Cons y ys)
  show ?case
  proof (cases "f y")
    case (Inl e)
    from only [OF this] Inl show ?thesis by simp
  next
    case (Inr b)
    with assms(3) Cons.prems have "x \<in> set ys" by auto
    from Cons.IH [OF this] Inr show ?thesis by simp
  qed
qed

lemma merged_artifact_Inl: "merged_artifact x = Inl e \<Longrightarrow> e = TypeError"
proof -
  have "traverseR pb_string xs = Inl e \<Longrightarrow> e = TypeError" for xs
    by (induction xs) (auto simp: bindR_Inl_iff pb_string_Inl)
  then show "merged_artifact x = Inl e \<Longrightarrow> e = TypeError"
    by (auto simp: merged_artifact_def bindR_Inl_iff pb_string_Inl)
qed

lemma artifacts_lifted:
  "traverseR merged_artifact (lifted sm) = Inr (map (\<lambda>x. \<lparr>af_artifact_id = fst x, af_text = snd x\<rparr>) (texts_of sm))"
  by (induction sm) (auto simp: lifted_def texts_of_def merged_artifact_def traverse_strings)

lemma artifacts_unreadable:
  assumes "unreadable m"
  shows "traverseR merged_artifact m = Inl TypeError"
proof -
  from assms obtain k vs where kv: "dget m k = Some vs" "\<not> (is_str k \<and> list_all is_str vs)"
    by (auto simp: unreadable_def)
  have m: "(k, vs) \<in> set m" using kv(1) by (rule map_of_SomeD)
  have strs: "\<not> list_all is_str vs \<Longrightarrow> traverseR pb_string vs = Inl TypeError"
    by (auto simp: list_all_iff intro!: traverse_error simp: pb_string_Inl)
  have "merged_artifact (k, vs) = Inl TypeError"
  proof (cases "traverseR pb_string vs")
    case (Inl e)
    then have "merged_artifact (k, vs) = Inl e" by (simp add: merged_artifact_def)
    with merged_artifact_Inl show ?thesis by blast
  next
    case (Inr ts)
    with strs kv(2) have "\<not> is_str k" by auto
    with Inr show ?thesis by (simp add: merged_artifact_def pb_string_Inl [THEN iffD2])
  qed
  with m show ?thesis by (intro traverse_error) (auto dest: merged_artifact_Inl)
qed

lemma unreadable_stays:
  assumes "unreadable m"
  shows "unreadable (dset a ((case dget m a of None \<Rightarrow> [] | Some ts \<Rightarrow> ts) @ [t]) m)"
proof -
  from assms obtain k vs where "dget m k = Some vs" "\<not> (is_str k \<and> list_all is_str vs)"
    by (auto simp: unreadable_def)
  then show ?thesis
    unfolding unreadable_def by (intro exI [of _ k]) (auto simp: update_conv')
qed

definition finish_task :: "string \<Rightarrow> string \<Rightarrow> status \<Rightarrow> ((pyval, pyval list) dict \<times> pyval list) result \<Rightarrow> a2a_task result" where
  "finish_task i c s r = bindR r (\<lambda>(merged, overflow).
     bindR (traverseR merged_artifact merged) (\<lambda>artifacts.
       Inr \<lparr>tk_id = i, tk_context_id = c, tk_state = state_for_run_status s, tk_artifacts = artifacts,
            tk_metadata = (if overflow = [] then [] else [(OVERFLOW_METADATA_LIST_KEY, PList overflow)])\<rparr>))"

lemma build_task_finish: "build_task i c s es = finish_task i c s (collect_deltas es [] [])"
  by (simp add: build_task_def finish_task_def)

lemma text_delta_Inl: "text_delta_of e = Inl x \<Longrightarrow> x = TypeError"
  by (auto simp: text_delta_of_def in_names_def split: if_splits)

lemma finish_unreadable: "unreadable m \<Longrightarrow> finish_task i c s (collect_deltas es m ov) = Inl TypeError"
proof (induction es arbitrary: m ov)
  case Nil
  then show ?case by (simp add: finish_task_def artifacts_unreadable)
next
  case (Cons e es)
  show ?case
  proof (cases "text_delta_of e")
    case (Inl x)
    then show ?thesis using text_delta_Inl by (auto simp: finish_task_def)
  next
    case (Inr d)
    show ?thesis
    proof (cases d)
      case None
      have "is_mapped e = Inl x \<Longrightarrow> x = TypeError" for x by (auto simp: is_mapped_def in_names_def split: if_splits)
      with Inr None Cons show ?thesis by (cases "is_mapped e") (auto simp: finish_task_def [of _ _ _ "Inl _"])
    next
      case (Some x)
      obtain a t where x: "x = (a, t)" by (cases x)
      show ?thesis using Inr Some x Cons.IH [OF unreadable_stays [OF Cons.prems]]
        by (simp add: finish_task_def [of _ _ _ "Inl _"])
    qed
  qed
qed

lemma artifact_of_Inr: "artifact_of (a, t) = Inr f \<longleftrightarrow> a = PStr (af_artifact_id f) \<and> t = PStr (af_text f)"
  by (cases a; cases t; cases f) (auto simp: artifact_of_def)

lemma artifact_of_Inl: "artifact_of (a, t) = Inl e \<Longrightarrow> e = TypeError \<and> \<not> (is_str a \<and> is_str t)"
  by (cases a; cases t) (auto simp: artifact_of_def)

lemma delta_event_type:
  "text_delta_of e = Inr (Some x) \<Longrightarrow> event_type e \<notin> {PStr ''RUN_STARTED'', PStr ''RUN_FINISHED'', PStr ''RUN_ERROR''}"
  by (auto simp: text_delta_of_def in_names_def TEXT_EVENT_TYPES_def split: if_splits)

lemma update_of_delta:
  "text_delta_of e = Inr (Some x) \<Longrightarrow> agui_event_to_a2a_update i c e =
     bindR (artifact_of x) (\<lambda>artifact. Inr (ArtifactUpdate
       \<lparr>au_task_id = i, au_context_id = c, au_artifact = artifact, au_append = True\<rparr>))"
  using delta_event_type [of e x] by (simp add: agui_event_to_a2a_update_def Let_def)

text \<open>An event without text shows up under the overflow key exactly when it is not mapped.\<close>

lemma in_names_image: "in_names x ns = (if hashable x then Inr (x \<in> PStr ` set ns) else Inl TypeError)"
  by (cases x) (auto simp: in_names_def)

lemma update_of_other:
  assumes "text_delta_of e = Inr None"
  shows "\<exists>u mapped. agui_event_to_a2a_update i c e = Inr (StatusUpdate u) \<and> is_mapped e = Inr mapped \<and>
    dget (su_metadata u) OVERFLOW_METADATA_KEY = (if mapped then None else Some e)"
proof -
  let ?life = "event_type e \<in> PStr ` set LIFECYCLE_EVENT_TYPES"
  have h: "hashable (event_type e)" "event_type e \<notin> PStr ` set TEXT_EVENT_TYPES"
    using assms by (auto simp: text_delta_of_def in_names_image split: if_splits)
  then have m: "is_mapped e = Inr ?life"
    by (auto simp: is_mapped_def in_names_image MAPPED_EVENT_TYPES_def)
  show ?thesis
  proof (cases ?life)
    case True
    then have "event_type e = PStr ''RUN_STARTED'' \<or> event_type e = PStr ''RUN_FINISHED'' \<or> event_type e = PStr ''RUN_ERROR''"
      by (simp add: LIFECYCLE_EVENT_TYPES_def)
    then show ?thesis using m True
      by (cases "interrupt_outcome_of e") (auto simp: agui_event_to_a2a_update_def a2a_status_update_def
          OVERFLOW_METADATA_KEY_def Let_def)
  next
    case False
    then have n: "event_type e \<noteq> PStr ''RUN_STARTED''" "event_type e \<noteq> PStr ''RUN_FINISHED''"
      "event_type e \<noteq> PStr ''RUN_ERROR''"
      by (simp_all add: LIFECYCLE_EVENT_TYPES_def)
    show ?thesis using m False
      by (auto simp: agui_event_to_a2a_update_def n assms a2a_status_update_def OVERFLOW_METADATA_KEY_def)
  qed
qed

lemma update_error:
  assumes "text_delta_of e = Inl x"
  shows "agui_event_to_a2a_update i c e = Inl TypeError"
proof -
  have h: "\<not> hashable (event_type e)"
    using assms by (auto simp: text_delta_of_def in_names_image split: if_splits)
  then have "event_type e \<noteq> PStr s" for s by auto
  then show ?thesis using assms text_delta_Inl [OF assms] by (simp add: agui_event_to_a2a_update_def)
qed

lemma no_overflow_in_status: "dget (su_metadata u) OVERFLOW_METADATA_KEY = None"
  if "status_update_for_run_status i c s = StatusUpdate u"
  using that by (auto simp: status_update_for_run_status_def a2a_status_update_def)

lemma follow_step:
  assumes "agui_event_to_a2a_update i c e = Inr u"
  shows "follow_events i c (e # es) stored = (u # fst (follow_events i c es stored), snd (follow_events i c es stored))"
  using assms by (simp add: case_prod_beta)

lemma task_and_stream:
  "finish_task i c s (collect_deltas es (lifted sm) ov) =
     (case follow_events i c es stored of
        (updates, Some e) \<Rightarrow> Inl e
      | (updates, None) \<Rightarrow> Inr (task_of i c s (fold apply_update updates (texts_of sm, ov))))"
proof (induction es arbitrary: sm ov)
  case Nil
  have "fold apply_update (fst (follow_events i c [] stored)) v = v" for v
    using no_overflow_in_status
    by (cases v) (auto simp: status_update_for_run_status_def a2a_status_update_def split: option.splits)
  then show ?case by (simp add: finish_task_def artifacts_lifted task_of_def split: option.splits)
next
  case (Cons e es)
  let ?rest = "\<lambda>v. case follow_events i c es stored of
      (updates, Some e) \<Rightarrow> Inl e | (updates, None) \<Rightarrow> Inr (task_of i c s (fold apply_update updates v))"
  have step: "(case follow_events i c (e # es) stored of
      (updates, Some e) \<Rightarrow> Inl e | (updates, None) \<Rightarrow> Inr (task_of i c s (fold apply_update updates v)))
      = ?rest (apply_update u v)" if "agui_event_to_a2a_update i c e = Inr u" for u v
    unfolding follow_step [OF that] by (auto split: prod.splits option.splits)
  show ?case
  proof (cases "text_delta_of e")
    case (Inl x)
    then show ?thesis using text_delta_Inl [OF Inl] update_error [OF Inl, of i c] by (simp add: finish_task_def)
  next
    case (Inr d)
    show ?thesis
    proof (cases d)
      case None
      with Inr update_of_other obtain u mapped where u: "agui_event_to_a2a_update i c e = Inr (StatusUpdate u)"
        "is_mapped e = Inr mapped" "dget (su_metadata u) OVERFLOW_METADATA_KEY = (if mapped then None else Some e)"
        by metis
      show ?thesis unfolding step [OF u(1)] using Inr None u(2,3) Cons.IH by simp
    next
      case (Some x)
      obtain a t where x: "x = (a, t)" by (cases x)
      show ?thesis
      proof (cases "artifact_of (a, t)")
        case (Inl err)
        note bad = artifact_of_Inl [OF Inl]
        have "unreadable (dset a ((case dget (lifted sm) a of None \<Rightarrow> [] | Some ts \<Rightarrow> ts) @ [t]) (lifted sm))"
          unfolding unreadable_def using bad by (intro exI [of _ a]) (auto simp: update_conv')
        from finish_unreadable [OF this, of i c s es ov] show ?thesis
          using Inr Some x Inl bad update_of_delta [of e x i c] by (auto simp: finish_task_def)
      next
        case (Inr f)
        note at = Inr [unfolded artifact_of_Inr]
        have u: "agui_event_to_a2a_update i c e = Inr (ArtifactUpdate
            \<lparr>au_task_id = i, au_context_id = c, au_artifact = f, au_append = True\<rparr>)"
          using \<open>text_delta_of e = Inr d\<close> Some x Inr update_of_delta [of e x i c] by simp
        define ts where "ts = (case dget sm (af_artifact_id f) of None \<Rightarrow> [] | Some ts \<Rightarrow> ts) @ [af_text f]"
        have m: "dset a ((case dget (lifted sm) a of None \<Rightarrow> [] | Some ts \<Rightarrow> ts) @ [t]) (lifted sm)
            = lifted (dset (af_artifact_id f) ts sm)"
          using at by (simp add: dget_lifted ts_def flip: dset_lifted split: option.splits)
        have v: "apply_update (ArtifactUpdate \<lparr>au_task_id = i, au_context_id = c, au_artifact = f, au_append = True\<rparr>)
            (texts_of sm, ov) = (texts_of (dset (af_artifact_id f) ts sm), ov)"
          by (simp add: dget_texts ts_def flip: dset_texts split: option.splits)
        show ?thesis unfolding step [OF u] v
          using \<open>text_delta_of e = Inr d\<close> Some x m at Cons.IH by simp
      qed
    qed
  qed
qed

text \<open>C14: A task built from a run's events holds exactly what a client has that followed the same
  events as a stream: the text of each artifact in the order of first mention, and every event A2A has
  no word for; and the task cannot be built exactly when the stream breaks off, with the same
  exception.\<close>

theorem tasks_hold_what_streams_showed:
  "build_task i c s es =
     (case follow_events i c es stored of
        (updates, Some e) \<Rightarrow> Inl e
      | (updates, None) \<Rightarrow> Inr (task_of i c s (followed updates)))"
  using task_and_stream [of i c s es "[]" "[]" stored]
  unfolding build_task_finish followed_def lifted_def texts_of_def list.map .

subsection \<open>The state a stream ends on\<close>

fun state_shown :: "stream_response \<Rightarrow> task_state \<Rightarrow> task_state" where
  "state_shown (StatusUpdate u) old = su_state u"
| "state_shown (ArtifactUpdate u) old = old"

definition last_state :: "stream_response list \<Rightarrow> task_state" where
  "last_state updates = fold state_shown updates TASK_STATE_SUBMITTED"

lemma follow_append:
  "follow_events i c es stored = (updates, None) \<Longrightarrow>
     \<exists>ups. follow_events i c es None = (ups, None) \<and>
       updates = ups @ fst (follow_events i c [] stored)"
proof (induction es arbitrary: updates)
  case Nil
  then show ?case by (auto split: option.splits)
next
  case (Cons e es)
  show ?case
  proof (cases "agui_event_to_a2a_update i c e")
    case (Inl x)
    with Cons.prems show ?thesis by simp
  next
    case (Inr u)
    obtain ups where "follow_events i c es stored = (ups, None)" "updates = u # ups"
      using Cons.prems Inr by (auto split: prod.splits)
    with Cons.IH Inr show ?thesis by auto
  qed
qed

text \<open>A stream that comes to its end without an exception leaves its client with the stored
  status, provided the run ended otherwise than \<open>completed\<close>, or its last event was the
  \<open>RUN_FINISHED\<close> without interrupts.\<close>

theorem streams_end_on_the_stored_status:
  assumes "follow_events i c es (Some s) = (updates, None)"
    and "s = Completed \<Longrightarrow> es \<noteq> [] \<and> event_type (last es) = PStr ''RUN_FINISHED'' \<and> interrupt_outcome_of (last es) = None"
  shows "last_state updates = state_for_run_status s"
proof -
  obtain ups where ups: "follow_events i c es None = (ups, None)" "updates = ups @ fst (follow_events i c [] (Some s))"
    using follow_append [OF assms(1)] by blast
  show ?thesis
  proof (cases "s = Completed")
    case False
    then show ?thesis using ups(2)
      by (simp add: last_state_def status_update_for_run_status_def a2a_status_update_def)
  next
    case True
    with assms(2) obtain es' where es: "es = es' @ [last es]" and l: "event_type (last es) = PStr ''RUN_FINISHED''"
      "interrupt_outcome_of (last es) = None" by (metis append_butlast_last_id)
    have "follow_events i c (xs @ [last es]) None = (ys, None) \<Longrightarrow>
        \<exists>zs. ys = zs @ [a2a_status_update i c TASK_STATE_COMPLETED PNone None []]" for xs ys
    proof (induction xs arbitrary: ys)
      case Nil
      then show ?case using l by (auto simp: agui_event_to_a2a_update_def Let_def)
    next
      case (Cons x xs)
      then show ?case by (force split: sum.splits prod.splits)
    qed
    with ups(1) es obtain zs where "ups = zs @ [a2a_status_update i c TASK_STATE_COMPLETED PNone None []]" by metis
    then show ?thesis using True ups(2) by (simp add: last_state_def a2a_status_update_def)
  qed
qed

definition demo_finished :: pyval where "demo_finished = PDict [(''type'', PStr ''RUN_FINISHED'')]"
definition demo_late_error :: pyval where
  "demo_late_error = PDict [(''type'', PStr ''RUN_ERROR''), (''message'', PStr ''late'')]"

lemma streams_end_on_the_stored_status_witness:
  "last_state (fst (follow_events ''r1'' ''t1'' [demo_finished] (Some Completed))) = TASK_STATE_COMPLETED
   \<and> last_state (fst (follow_events ''r1'' ''t1'' [demo_finished] (Some Cancelled))) = TASK_STATE_CANCELED"
proof -
  have f: "event_type demo_finished = PStr ''RUN_FINISHED''" "interrupt_outcome_of demo_finished = None"
    by (simp_all add: demo_finished_def event_type_def interrupt_outcome_of_def pget_def pget_or_def Let_def)
  have n: "snd (follow_events ''r1'' ''t1'' [demo_finished] s) = None" for s
    by (simp add: agui_event_to_a2a_update_def f Let_def)
  have p: "follow_events ''r1'' ''t1'' [demo_finished] s =
      (fst (follow_events ''r1'' ''t1'' [demo_finished] s), None)" for s
    using n [of s] by (metis prod.collapse)
  show ?thesis
    using streams_end_on_the_stored_status [OF p [of "Some Completed"]]
      streams_end_on_the_stored_status [OF p [of "Some Cancelled"]] f by simp
qed

text \<open>The case left out: an error event after the finish.  The record says completed, and so does the
  task; the stream says failed and is not corrected.\<close>

lemma a_late_error_outlives_the_finish:
  assumes "r_pause_payload r = None"
  shows "final_status (note_event demo_late_error (note_event demo_finished r)) = (Completed, PNone)"
    and "last_state (fst (follow_events i c [demo_finished, demo_late_error] (Some Completed))) = TASK_STATE_FAILED"
  using assms
  by (simp_all add: note_event_def demo_finished_def demo_late_error_def event_type_def interrupt_outcome_of_def
      pget_def pget_or_def Let_def final_status_def agui_event_to_a2a_update_def last_state_def a2a_status_update_def)

subsection \<open>Two streams of one run\<close>

lemma shared_drain_splits:
  "length es < length turns \<Longrightarrow>
   \<exists>a b x_ended. shared_drain turns (map OutEvent es @ [EndOfStream]) (xs, False) (ys, False) =
       ((xs @ a, x_ended), (ys @ b, \<not> x_ended)) \<and> es \<in> shuffles a b"
proof (induction es arbitrary: turns xs ys)
  case Nil
  then obtain t ts where "turns = t # ts" by (cases turns) auto
  then show ?case by (cases t) auto
next
  case (Cons e es)
  then obtain t ts where turns: "turns = t # ts" "length es < length ts" by (cases turns) auto
  show ?case
  proof (cases t)
    case True
    from Cons.IH [OF turns(2), of "xs @ [e]" ys] obtain a b f where
      "shared_drain ts (map OutEvent es @ [EndOfStream]) (xs @ [e], False) (ys, False) = ((xs @ e # a, f), (ys @ b, \<not> f))"
      "es \<in> shuffles a b" by auto
    then show ?thesis using turns(1) True by (intro exI [of _ "e # a"] exI [of _ b] exI [of _ f]) (auto intro: Cons_in_shuffles_leftI)
  next
    case False
    from Cons.IH [OF turns(2), of xs "ys @ [e]"] obtain a b f where
      "shared_drain ts (map OutEvent es @ [EndOfStream]) (xs, False) (ys @ [e], False) = ((xs @ a, f), (ys @ e # b, \<not> f))"
      "es \<in> shuffles a b" by auto
    then show ?thesis using turns(1) False by (intro exI [of _ a] exI [of _ "e # b"] exI [of _ f]) (auto intro: Cons_in_shuffles_rightI)
  qed
qed

text \<open>Two streams that follow one run take its events from each other, in every schedule: the
  events are split between them, and of the two exactly one comes to its end; the other waits for an
  item that never comes.\<close>

theorem a_second_stream_splits_the_events:
  assumes "length es < length turns"
    and "shared_drain turns (map OutEvent es @ [EndOfStream]) ([], False) ([], False) = ((xs, x_ended), (ys, y_ended))"
  shows "es \<in> shuffles xs ys \<and> x_ended \<noteq> y_ended"
  using shared_drain_splits [OF assms(1), of "[]" "[]"] assms(2) by auto

lemma a_second_stream_splits_the_events_witness:
  "[PInt 1, PInt 2, PInt 3] \<in> shuffles [PInt 1, PInt 3] [PInt 2] \<and> False \<noteq> True"
proof -
  have l: "length [PInt 1, PInt 2, PInt 3] < length [True, False, True, False]" by simp
  have d: "shared_drain [True, False, True, False] (map OutEvent [PInt 1, PInt 2, PInt 3] @ [EndOfStream])
      ([], False) ([], False) = (([PInt 1, PInt 3], False), ([PInt 2], True))"
    by simp
  show ?thesis using a_second_stream_splits_the_events [OF l d] by simp
qed

end
