(* ===== verification/DoorSteps.thy ===== *)
theory DoorSteps
  imports A2AClaims RunClaims KyokClaims SignatureClaims
begin

text \<open>
  The two doors as one protocol: what a request can do to the record, the relay and the broker, as an
  inductive relation that both \<open>agui_run\<close> and \<open>a2a_start_run\<close> implement.  The properties of the doors
  are proved on the relation.
\<close>

subsection \<open>One door\<close>

datatype door_request = AguiRequest agui_body | A2ARequest send_params

text \<open>What the record keeps of the caller's metadata.\<close>

fun kept_metadata :: "door_request \<Rightarrow> pyval" where
  "kept_metadata (AguiRequest body) = strip_kyok_context (strip_reserved (por (bo_metadata body) (PDict [])))"
| "kept_metadata (A2ARequest params) = strip_reserved (strip_kyok_context (pa_metadata params))"

fun raw_metadata :: "door_request \<Rightarrow> pyval" where
  "raw_metadata (AguiRequest body) = por (bo_metadata body) (PDict [])"
| "raw_metadata (A2ARequest params) = pa_metadata params"

fun started_by :: "agui_reply \<Rightarrow> (string \<times> string \<times> bool) option" where
  "started_by (EventStream thread_id run_id a) = Some (run_id, thread_id, True)"
| "started_by (OfflineStream thread_id run_id) = Some (run_id, thread_id, False)"
| "started_by (ThreadSnapshot s) = None"

fun door ::
    "'k deployment \<Rightarrow> clock \<Rightarrow> minted_ids \<Rightarrow> agent_ref \<Rightarrow> door_request \<Rightarrow> core
       \<Rightarrow> core \<times> (string \<times> string \<times> bool) option result" where
  "door D ck ids agent (AguiRequest body) w =
     (let (w', r) = agui_run D ck ids agent body w in (w', bindR r (\<lambda>x. Inr (started_by x))))"
| "door D ck ids agent (A2ARequest params) w =
     (let (w', r) = a2a_start_run D ck ids agent params w in (w', bindR r (\<lambda>x. Inr (Some x))))"

subsection \<open>The round\<close>

text \<open>A run of the thread's own, or the paused one that this request may answer.\<close>

definition may_answer :: "'k deployment \<Rightarrow> clock \<Rightarrow> agent_ref \<Rightarrow> pyval \<Rightarrow> run_row \<Rightarrow> bool" where
  "may_answer D ck agent md paused \<longleftrightarrow>
     rn_status paused = InputRequired \<and> check_resolution (dp_crypto D) (ck_time ck) agent md paused = Inr ()"

definition door_round ::
    "'k deployment \<Rightarrow> clock \<Rightarrow> minted_ids \<Rightarrow> agent_ref \<Rightarrow> admitted \<Rightarrow> string \<Rightarrow> db \<Rightarrow> db \<Rightarrow> string \<Rightarrow> bool" where
  "door_round D ck ids agent am t view d run_id \<longleftrightarrow>
     (\<exists>proto inp. create_run (ck_now ck) (mi_run ids) t agent proto inp (am_metadata am) (am_head_key am) view
        = Inr (d, run_id)) \<or>
     (\<exists>paused inp. paused \<in> set (db_runs view) \<and> rn_run_id paused = run_id \<and> rn_thread_id paused = t \<and>
        may_answer D ck agent (am_metadata am) paused \<and>
        d = fst (reopen_run (ck_now ck) run_id inp (am_metadata am) (Some InputRequired) view))"

text \<open>The input of the run and whether it carries a grant.\<close>

definition run_input_for ::
    "'k deployment \<Rightarrow> clock \<Rightarrow> agent_ref \<Rightarrow> bool \<Rightarrow> string \<Rightarrow> pyval \<Rightarrow> bool" where
  "run_input_for D ck agent granted run_id input \<longleftrightarrow>
     (\<exists>raw caller chain addressed delegation. dp_run_input D raw = Some input \<and>
        pget raw ''forwardedProps'' =
          build_forwarded_props (dp_codec D) (ck_time ck) (st_token_signing_secret (dp_settings D)) run_id agent
            granted caller chain addressed delegation)"

text \<open>The relay before the run is bound: as it was, or with a binding inherited for this run.\<close>

definition inherits :: "string \<Rightarrow> kyok_relay \<Rightarrow> bool \<Rightarrow> kyok_relay \<Rightarrow> bool" where
  "inherits run_id k inherited k' \<longleftrightarrow>
     (if inherited then \<exists>parent chain. inherit parent run_id chain k = (True, k') else k' = k)"

text \<open>What was admitted, with the view of the session once the thread is there.\<close>

definition let_in :: "'k deployment \<Rightarrow> clock \<Rightarrow> agent_ref \<Rightarrow> door_request \<Rightarrow> core \<Rightarrow> admitted \<Rightarrow> db \<Rightarrow> bool" where
  "let_in D ck agent req w am view \<longleftrightarrow>
     am_metadata am = kept_metadata req \<and> get_agent (w_db w) agent \<noteq> None \<and>
     opted_in (dp_opt_in D) (raw_metadata req) (w_db w) = Inr (am_kyok am) \<and>
     db_runs view = db_runs (w_db w) \<and> (db_ok (w_db w) \<longrightarrow> db_ok view)"

inductive door_step ::
    "'k deployment \<Rightarrow> clock \<Rightarrow> minted_ids \<Rightarrow> agent_ref \<Rightarrow> door_request \<Rightarrow> core \<Rightarrow> core
       \<Rightarrow> (string \<times> string \<times> bool) option result \<Rightarrow> bool"
  for D ck ids agent req w where
  refused: "door_step D ck ids agent req w w (Inl e)"
| busy: "door_step D ck ids agent req w w (Inr None)"
| abandoned: "\<lbrakk>let_in D ck agent req w am view; door_round D ck ids agent am t view d run_id; inherits run_id (c_relay w) inherited k\<rbrakk>
    \<Longrightarrow> door_step D ck ids agent req w (w\<lparr>w_db := d, c_relay := k\<rparr>) (Inl e)"
| offline: "\<lbrakk>let_in D ck agent req w am view; door_round D ck ids agent am t view d run_id;
     append_thread_messages (ck_now ck) t run_id ms d = Inr (d', stored); \<not> is_serving w agent;
     mark_status (ck_now ck) run_id Failed offline_reason (w\<lparr>w_db := d'\<rparr>) = (w', Inr applied)\<rbrakk>
    \<Longrightarrow> door_step D ck ids agent req w w' (Inr (Some (run_id, t, False)))"
| unqueued: "\<lbrakk>let_in D ck agent req w am view; door_round D ck ids agent am t view d run_id;
     append_thread_messages (ck_now ck) t run_id ms d = Inr (d', stored);
     inherits run_id (c_relay w) inherited k\<rbrakk>
    \<Longrightarrow> door_step D ck ids agent req w (bind_opted (am_kyok am) chain run_id (w\<lparr>w_db := d', c_relay := k\<rparr>)) (Inl e)"
| live: "\<lbrakk>let_in D ck agent req w am view; door_round D ck ids agent am t view d run_id;
     append_thread_messages (ck_now ck) t run_id ms d = Inr (d', stored); is_serving w agent;
     inherits run_id (c_relay w) inherited k; am_kyok am \<noteq> None \<longrightarrow> \<not> inherited;
     run_input_for D ck agent (am_kyok am \<noteq> None \<or> inherited) run_id input;
     core_enqueue_run (ck_now ck) run_id agent t input proto seq
       (bind_opted (am_kyok am) chain run_id (w\<lparr>w_db := d', c_relay := k\<rparr>)) = Inr (a, w')\<rbrakk>
    \<Longrightarrow> door_step D ck ids agent req w w' (Inr (Some (run_id, t, True)))"

subsection \<open>Metadata\<close>

lemma dget_filter: "dget (filter (\<lambda>(k, v). P k) kvs) k = (if P k then dget kvs k else None)"
  by (induction kvs) auto

lemma pget_strip_reserved: "pget (strip_reserved md) k = (if k \<in> set RESERVED_METADATA_KEYS then PNone else pget md k)"
  by (simp add: strip_reserved_def pget_def pget_or_def dget_filter)

lemma pget_pset_any: "is_dict md \<Longrightarrow> pget (pset k v md) j = (if j = k then v else pget md j)"
  by (cases md) (auto simp: pget_def pget_or_def update_conv')

lemma pget_strip_kyok: "k \<noteq> ''kyok'' \<Longrightarrow> pget (strip_kyok_context md) k = pget md k"
proof (cases md)
  case (PDict kvs)
  then have "is_dict md" by simp
  then show "k \<noteq> ''kyok'' \<Longrightarrow> pget (strip_kyok_context md) k = pget md k"
    by (simp add: strip_kyok_context_def pget_pset_any del: pset.simps split: pyval.split)
qed (simp_all add: strip_kyok_context_def pget_def pget_or_def)

lemma kyok_not_reserved [simp]: "''kyok'' \<notin> set RESERVED_METADATA_KEYS"
  by (simp add: RESERVED_METADATA_KEYS_def)

lemma verify_caller_kept: "verify_caller_metadata C now raw = Inr (md, hk, chain) \<Longrightarrow> md = strip_reserved raw"
  by (auto simp: verify_caller_metadata_def Let_def split: if_splits)

lemma opted_in_kyok: "pget md ''kyok'' = pget md' ''kyok'' \<Longrightarrow> opted_in v md d = opted_in v md' d"
  by (simp add: opted_in_def parse_kyok_opt_in_def)

subsection \<open>Both doors implement it\<close>

lemma paused_row:
  assumes "get_paused_run_for_thread d t = Some r"
  shows "r \<in> set (db_runs d)" "rn_thread_id r = t" "rn_status r = InputRequired"
proof -
  let ?rows = "filter (\<lambda>r. rn_thread_id r = t \<and> rn_status r = InputRequired) (db_runs d)"
  obtain rs where "sort_key (\<lambda>r. - rn_created_at r) ?rows = r # rs"
    using assms unfolding get_paused_run_for_thread_def latest_run_def by (auto split: list.splits)
  then have "r \<in> set (sort_key (\<lambda>r. - rn_created_at r) ?rows)" by (simp del: set_sort)
  then have "r \<in> set ?rows" unfolding set_sort .
  then show "r \<in> set (db_runs d)" "rn_thread_id r = t" "rn_status r = InputRequired" by simp_all
qed

lemma reopen_wins:
  assumes "r \<in> set (db_runs d)" "rn_run_id r = i" "rn_status r = s"
  shows "snd (reopen_run now i inp md (Some s) d)"
  using assms unfolding reopen_run_def Let_def snd_conv row_count_find by auto

lemma agui_round_cases:
  assumes "agui_round D ck ids agent body am t d0 view = (d, view', out)"
  shows "case out of
      Inl e \<Rightarrow> d = d0
    | Inr None \<Rightarrow> d = d0
    | Inr (Some (run_id, seq)) \<Rightarrow> d = view' \<and> door_round D ck ids agent am t view d run_id"
proof (cases "bo_resume body = []")
  case True
  with assms show ?thesis
    by (auto simp: agui_round_def door_round_def split: sum.splits option.splits)
next
  case False
  show ?thesis
  proof (cases "get_paused_run_for_thread view t")
    case None
    with assms False show ?thesis by (auto simp: agui_round_def)
  next
    case (Some paused)
    note row = paused_row [OF Some]
    show ?thesis
    proof (cases "check_resolution (dp_crypto D) (ck_time ck) agent (am_metadata am) paused")
      case (Inl e)
      with assms False Some show ?thesis by (auto simp: agui_round_def)
    next
      case (Inr u)
      let ?re = "reopen_run (ck_now ck) (rn_run_id paused) (stored_input (bo_dump body)) (am_metadata am) (Some InputRequired) view"
      have "snd ?re" by (rule reopen_wins [OF row(1) refl row(3)])
      then have "d = view'" "d = fst ?re" "\<exists>seq. out = Inr (Some (rn_run_id paused, seq))"
        using assms False Some Inr by (auto simp: agui_round_def case_prod_beta Let_def)
      moreover have "door_round D ck ids agent am t view (fst ?re) (rn_run_id paused)"
        using row Inr by (auto simp: door_round_def may_answer_def)
      ultimately show ?thesis by auto
    qed
  qed
qed

lemma a2a_queue_cases:
  assumes "a2a_queue D ck ids agent inp am t d0 view = (d, view', out)"
  shows "case out of Inl e \<Rightarrow> d = d0 | Inr (run_id, seq) \<Rightarrow> d = view' \<and> door_round D ck ids agent am t view d run_id"
  using assms by (auto simp: a2a_queue_def door_round_def split: sum.splits)

lemma a2a_round_cases:
  assumes "a2a_round D ck ids agent addressed inp am t d0 view = (d, view', out)"
    and "\<And>r. addressed = Some r \<Longrightarrow> r \<in> set (db_runs view)"
  shows "case out of Inl e \<Rightarrow> d = d0 | Inr (run_id, seq) \<Rightarrow> d = view' \<and> door_round D ck ids agent am t view d run_id"
proof (cases "awaits_answer addressed t")
  case False
  with assms(1) a2a_queue_cases show ?thesis by (simp add: a2a_round_def)
next
  case True
  then obtain paused where p: "addressed = Some paused" "rn_thread_id paused = t" "rn_status paused = InputRequired"
    by (auto simp: awaits_answer_def split: option.splits)
  note row = assms(2) [OF p(1)]
  show ?thesis
  proof (cases "check_resolution (dp_crypto D) (ck_time ck) agent (am_metadata am) paused")
    case (Inl e)
    with assms(1) True p show ?thesis by (auto simp: a2a_round_def)
  next
    case (Inr u)
    let ?re = "reopen_run (ck_now ck) (rn_run_id paused) inp (am_metadata am) (Some InputRequired) view"
    have "snd ?re" by (rule reopen_wins [OF row refl p(3)])
    then have "d = view'" "d = fst ?re" "\<exists>seq. out = Inr (rn_run_id paused, seq)"
      using assms(1) True p Inr by (auto simp: a2a_round_def case_prod_beta Let_def)
    moreover have "door_round D ck ids agent am t view (fst ?re) (rn_run_id paused)"
      using row p Inr by (auto simp: door_round_def may_answer_def)
    ultimately show ?thesis by auto
  qed
qed

lemma built_input:
  assumes "build_run_agent_input V t i ms st tools ctx props resume parent = Inr input"
  shows "\<exists>raw. V raw = Some input \<and> pget raw ''forwardedProps'' = props"
proof -
  from assms obtain raw where "V raw = Some input" and raw: "raw = PDict
      [(''threadId'', PStr t), (''runId'', PStr i), (''state'', st), (''messages'', ms),
       (''tools'', por tools (PList [])), (''context'', por ctx (PList [])), (''forwardedProps'', props),
       (''resume'', resume), (''parentRunId'', parent)]"
    by (auto simp: build_run_agent_input_def split: option.splits)
  moreover have "pget raw ''forwardedProps'' = props" by (simp add: raw pget_def pget_or_def)
  ultimately show ?thesis by blast
qed

lemma agui_input_for:
  "agui_run_input D ck agent body am t run_id ms = Inr input \<Longrightarrow>
     run_input_for D ck agent (am_kyok am \<noteq> None) run_id input"
  unfolding agui_run_input_def run_input_for_def by (force split: sum.splits dest: built_input)

lemma a2a_input_for:
  "a2a_run_input D ck agent message am granted t run_id ms = Inr input \<Longrightarrow>
     run_input_for D ck agent granted run_id input"
  unfolding a2a_run_input_def bindR_Inr_iff run_input_for_def by (force split: sum.splits dest: built_input)

lemma agui_launch_cases:
  assumes "agui_launch D ck agent body am t run_id seq ms d' (w\<lparr>w_db := d\<rparr>) = (w', r)"
    and "let_in D ck agent req w am view" "door_round D ck ids agent am t view d run_id"
    and "append_thread_messages (ck_now ck) t run_id raw d = Inr (d', stored)"
  shows "door_step D ck ids agent req w w' (bindR r (\<lambda>x. Inr (started_by x)))"
proof -
  have same: "inherits run_id (c_relay w) False (c_relay w)" by (simp add: inherits_def)
  have relay: "w\<lparr>w_db := x\<rparr> = w\<lparr>w_db := x, c_relay := c_relay w\<rparr>" for x by simp
  note left = door_step.abandoned [OF assms(2,3) same]
  show ?thesis
  proof (cases "is_serving w agent")
    case False
    then have sv: "\<not> is_serving (w\<lparr>w_db := d\<rparr>) agent" by (simp add: is_serving_def)
    show ?thesis
    proof (cases "mark_status (ck_now ck) run_id Failed offline_reason (w\<lparr>w_db := d'\<rparr>)")
      case (Pair x y)
      show ?thesis
      proof (cases y)
        case (Inl e)
        with assms(1) Pair sv have "w' = w\<lparr>w_db := d\<rparr>" "r = Inl e" by (auto simp: agui_launch_def)
        then show ?thesis using left [of e] by (simp flip: relay)
      next
        case (Inr applied)
        with assms(1) Pair sv have "w' = x" "r = Inr (OfflineStream t run_id)" by (auto simp: agui_launch_def)
        then show ?thesis using door_step.offline [OF assms(2-4) False, of w' applied] Pair Inr by simp
      qed
    qed
  next
    case True
    then have sv: "is_serving (w\<lparr>w_db := d\<rparr>) agent" by (simp add: is_serving_def)
    show ?thesis
    proof (cases "agui_run_input D ck agent body am t run_id ms")
      case (Inl e)
      with assms(1) sv have "w' = w\<lparr>w_db := d\<rparr>" "r = Inl e" by (auto simp: agui_launch_def)
      then show ?thesis using left [of e] by (simp flip: relay)
    next
      case (Inr input)
      let ?w1 = "bind_opted (am_kyok am) (am_actor_chain am) run_id (w\<lparr>w_db := d', c_relay := c_relay w\<rparr>)"
      have i: "run_input_for D ck agent (am_kyok am \<noteq> None \<or> False) run_id input"
        using agui_input_for [OF Inr] by simp
      show ?thesis
      proof (cases "core_enqueue_run (ck_now ck) run_id agent t input ''ag-ui'' seq ?w1")
        case (Inl e)
        with assms(1) sv Inr have "w' = ?w1" "r = Inl e" by (auto simp: agui_launch_def Let_def)
        then show ?thesis using door_step.unqueued [OF assms(2-4) same, of "am_actor_chain am" e] by simp
      next
        case enq: (Inr x)
        obtain a w2 where x: "x = (a, w2)" by (cases x)
        with assms(1) sv Inr enq have "w' = w2" "r = Inr (EventStream t run_id a)"
          by (auto simp: agui_launch_def Let_def)
        then show ?thesis
          using door_step.live [OF assms(2-4) True same _ i, of "''ag-ui''" seq "am_actor_chain am" a w2] enq x by simp
      qed
    qed
  qed
qed

lemma inherit_False: "inherit parent i chain k = (False, k') \<Longrightarrow> k' = k"
  by (auto simp: inherit_def split: option.splits)

lemma inherit_binding_cases:
  assumes "inherit_binding D am message run_id k = Inr (inherited, k')"
  shows "inherits run_id k inherited k'" "am_kyok am \<noteq> None \<longrightarrow> \<not> inherited"
proof -
  let ?off = "am_kyok am \<noteq> None \<or> \<not> truthy (reference_task_ids message)"
  have "?off \<and> \<not> inherited \<and> k' = k \<or>
      \<not> ?off \<and> (\<not> inherited \<and> k' = k \<or> (\<exists>parent. inherit parent run_id (chain_tokens (am_actor_chain am)) k = (inherited, k')))"
    using assms by (cases ?off) (auto simp: inherit_binding_def split: if_splits pyval.splits)
  note off = this
  show "am_kyok am \<noteq> None \<longrightarrow> \<not> inherited" using off by blast
  show "inherits run_id k inherited k'"
  proof (cases inherited)
    case True
    with off show ?thesis unfolding inherits_def by auto
  next
    case False
    with off have "k' = k" by (auto dest: inherit_False)
    with False show ?thesis by (simp add: inherits_def)
  qed
qed

lemma relay_then_db: "(w :: core)\<lparr>c_relay := k, w_db := d\<rparr> = w\<lparr>w_db := d, c_relay := k\<rparr>"
  by (cases w) simp

lemma a2a_launch_cases:
  assumes "a2a_launch D ck agent message am t run_id seq ms d' (w\<lparr>w_db := d\<rparr>) = (w', r)"
    and "let_in D ck agent req w am view" "door_round D ck ids agent am t view d run_id"
    and "append_thread_messages (ck_now ck) t run_id raw d = Inr (d', stored)"
  shows "door_step D ck ids agent req w w' (bindR r (\<lambda>x. Inr (Some x)))"
proof (cases "is_serving w agent")
  case False
  then have sv: "\<not> is_serving (w\<lparr>w_db := d\<rparr>) agent" by (simp add: is_serving_def)
  have same: "inherits run_id (c_relay w) False (c_relay w)" by (simp add: inherits_def)
  show ?thesis
  proof (cases "mark_status (ck_now ck) run_id Failed offline_reason (w\<lparr>w_db := d'\<rparr>)")
    case (Pair x y)
    show ?thesis
    proof (cases y)
      case (Inl e)
      with assms(1) Pair sv have "w' = w\<lparr>w_db := d, c_relay := c_relay w\<rparr>" "r = Inl e" by (auto simp: a2a_launch_def)
      then show ?thesis using door_step.abandoned [OF assms(2,3) same, of e] by simp
    next
      case (Inr applied)
      with assms(1) Pair sv have "w' = x" "r = Inr (run_id, t, False)" by (auto simp: a2a_launch_def)
      then show ?thesis using door_step.offline [OF assms(2-4) False, of w' applied] Pair Inr by simp
    qed
  qed
next
  case True
  then have sv: "is_serving (w\<lparr>w_db := d\<rparr>) agent" by (simp add: is_serving_def)
  show ?thesis
  proof (cases "inherit_binding D am message run_id (c_relay w)")
    case (Inl e)
    have "inherits run_id (c_relay w) False (c_relay w)" by (simp add: inherits_def)
    with Inl assms(1) sv door_step.abandoned [OF assms(2,3), of False "c_relay w" e] show ?thesis
      by (auto simp: a2a_launch_def)
  next
    case bound: (Inr x)
    obtain inherited k where x: "x = (inherited, k)" by (cases x)
    have inh: "inherits run_id (c_relay w) inherited k" "am_kyok am \<noteq> None \<longrightarrow> \<not> inherited"
      using inherit_binding_cases [OF bound [unfolded x]] .
    let ?w0 = "w\<lparr>w_db := d, c_relay := k\<rparr>"
    show ?thesis
    proof (cases "a2a_run_input D ck agent message am (am_kyok am \<noteq> None \<or> inherited) t run_id ms")
      case (Inl e)
      with assms(1) sv bound x have "w' = ?w0" "r = Inl e" by (auto simp: a2a_launch_def Let_def)
      then show ?thesis using door_step.abandoned [OF assms(2,3) inh(1), of e] by simp
    next
      case (Inr input)
      let ?w1 = "bind_opted (am_kyok am) (am_actor_chain am) run_id (w\<lparr>w_db := d', c_relay := k\<rparr>)"
      note i = a2a_input_for [OF Inr]
      show ?thesis
      proof (cases "core_enqueue_run (ck_now ck) run_id agent t input ''a2a'' seq ?w1")
        case (Inl e)
        with assms(1) sv Inr bound x have "w' = ?w1" "r = Inl e" by (auto simp: a2a_launch_def Let_def relay_then_db)
        then show ?thesis using door_step.unqueued [OF assms(2-4) inh(1), of "am_actor_chain am" e] by simp
      next
        case enq: (Inr y)
        obtain a w2 where y: "y = (a, w2)" by (cases y)
        with assms(1) sv Inr bound x enq have "w' = w2" "r = Inr (run_id, t, True)"
          by (auto simp: a2a_launch_def Let_def relay_then_db)
        then show ?thesis
          using door_step.live [OF assms(2-4) True inh i, of "''a2a''" seq "am_actor_chain am" a w2] enq y by simp
      qed
    qed
  qed
qed

lemma let_in_thread:
  assumes "ensure_thread now fresh agent tid parent md create hk (w_db w) = Inr (view, t)"
  shows "db_runs view = db_runs (w_db w)" "db_ok (w_db w) \<Longrightarrow> db_ok view"
  using runs_ensure_thread [OF assms] ok_ensure_thread [OF assms] by auto

theorem agui_is_a_door_step:
  assumes "agui_run D ck ids agent body w = (w', r)"
  shows "door_step D ck ids agent (AguiRequest body) w w' (bindR r (\<lambda>x. Inr (started_by x)))"
proof (cases "bindR (agui_admit D (ck_time ck) agent (bo_metadata body) (w_db w)) (\<lambda>am.
      bindR (ensure_thread (ck_now ck) (mi_thread ids) agent (Some (bo_thread_id body)) None (am_metadata am)
               True (am_head_key am) (w_db w)) (\<lambda>(view, thread_id). Inr (am, view, thread_id)))")
  case (Inl e)
  with assms show ?thesis by (auto simp: agui_run_def intro: door_step.refused)
next
  case (Inr x)
  obtain am view t where x: "x = (am, view, t)" by (cases x) auto
  from Inr x have adm: "agui_admit D (ck_time ck) agent (bo_metadata body) (w_db w) = Inr am"
    and thr: "ensure_thread (ck_now ck) (mi_thread ids) agent (Some (bo_thread_id body)) None (am_metadata am)
      True (am_head_key am) (w_db w) = Inr (view, t)" by auto
  let ?req = "AguiRequest body"
  obtain md hk chain where cal: "verify_caller_metadata (dp_crypto D) (ck_time ck) (raw_metadata ?req) = Inr (md, hk, chain)"
    "opted_in (dp_opt_in D) md (w_db w) = Inr (am_kyok am)" "am_metadata am = strip_kyok_context md"
    "get_agent (w_db w) agent \<noteq> None"
    using adm by (auto simp: agui_admit_def split: if_splits)
  have md: "md = strip_reserved (raw_metadata ?req)" by (rule verify_caller_kept [OF cal(1)])
  have "opted_in (dp_opt_in D) (raw_metadata ?req) (w_db w) = Inr (am_kyok am)"
    using cal(2) by (subst opted_in_kyok [of _ md]) (simp_all add: md pget_strip_reserved)
  then have li: "let_in D ck agent ?req w am view"
    using cal(3,4) md let_in_thread [OF thr] by (simp add: let_in_def)
  obtain d view' out where rd: "agui_round D ck ids agent body am t (w_db w) view = (d, view', out)"
    by (cases "agui_round D ck ids agent body am t (w_db w) view")
  note rdc = agui_round_cases [OF rd]
  show ?thesis
  proof (cases out)
    case (Inl e)
    with assms Inr x rd rdc have "w' = w" "r = Inl e" by (auto simp: agui_run_def)
    then show ?thesis by (simp add: door_step.refused)
  next
    case out: (Inr y)
    show ?thesis
    proof (cases y)
      case None
      with assms Inr x rd rdc out have "w' = w" "\<exists>s. r = Inr (ThreadSnapshot s)" by (auto simp: agui_run_def)
      then show ?thesis by (auto intro: door_step.busy)
    next
      case (Some z)
      obtain run_id seq where z: "z = (run_id, seq)" by (cases z)
      with rdc out Some have v: "view' = d" and round: "door_round D ck ids agent am t view d run_id" by auto
      let ?raw = "zip (bo_messages body) (map (mi_message ids) [0..<length (bo_messages body)])"
      show ?thesis
      proof (cases "append_thread_messages (ck_now ck) t run_id ?raw d")
        case (Inl e)
        have same: "inherits run_id (c_relay w) False (c_relay w)" by (simp add: inherits_def)
        from Inl assms Inr x rd out Some z v have "w' = w\<lparr>w_db := d, c_relay := c_relay w\<rparr>" "r = Inl e"
          by (auto simp: agui_run_def)
        then show ?thesis using door_step.abandoned [OF li round same, of e] by simp
      next
        case app: (Inr q)
        obtain d3 ms where q: "q = (d3, ms)" by (cases q)
        from app q assms Inr x rd out Some z v
        have "agui_launch D ck agent body am t run_id seq ms d3 (w\<lparr>w_db := d\<rparr>) = (w', r)"
          by (auto simp: agui_run_def)
        from agui_launch_cases [OF this li round app [unfolded q]] show ?thesis .
      qed
    qed
  qed
qed

theorem a2a_is_a_door_step:
  assumes "a2a_start_run D ck ids agent params w = (w', r)"
  shows "door_step D ck ids agent (A2ARequest params) w w' (bindR r (\<lambda>x. Inr (Some x)))"
proof (cases "a2a_admit D ck ids agent params (w_db w)")
  case (Inl e)
  with assms show ?thesis by (auto simp: a2a_start_run_def intro: door_step.refused)
next
  case (Inr x)
  obtain am view t where x: "x = (am, view, t)" by (cases x) auto
  let ?req = "A2ARequest params"
  obtain parent ctx md hk chain where adm: "opted_in (dp_opt_in D) (raw_metadata ?req) (w_db w) = Inr (am_kyok am)"
    "verify_caller_metadata (dp_crypto D) (ck_time ck) (strip_kyok_context (pa_metadata params)) = Inr (md, hk, chain)"
    "ensure_thread (ck_now ck) (mi_thread ids) agent ctx parent md False hk (w_db w) = Inr (view, t)"
    "am_metadata am = md" "get_agent (w_db w) agent \<noteq> None"
    using Inr x by (auto simp: a2a_admit_def split: if_splits)
  have li: "let_in D ck agent ?req w am view"
    using adm(1,4,5) verify_caller_kept [OF adm(2)] let_in_thread [OF adm(3)] by (simp add: let_in_def)
  show ?thesis
  proof (cases "bindR (a2a_message_to_agui_messages (dp_message D) (pa_message params)) (\<lambda>messages.
      bindR (addressed_run D view (pa_task_id params)) (\<lambda>addressed. Inr (messages, addressed)))")
    case (Inl e)
    with assms Inr x show ?thesis by (auto simp: a2a_start_run_def intro: door_step.refused)
  next
    case msgs: (Inr y)
    obtain messages addressed where y: "y = (messages, addressed)" by (cases y)
    have known: "addressed = Some row \<Longrightarrow> row \<in> set (db_runs view)" for row
      using msgs y by (auto simp: addressed_run_def split: if_splits dest: get_run_mem)
    let ?inp = "PDict [(''thread_id'', PStr t), (''messages'', PList messages)]"
    obtain d view' out where rd: "a2a_round D ck ids agent addressed ?inp am t (w_db w) view = (d, view', out)"
      by (cases "a2a_round D ck ids agent addressed ?inp am t (w_db w) view")
    note rdc = a2a_round_cases [OF rd known]
    show ?thesis
    proof (cases out)
      case (Inl e)
      with assms Inr x msgs y rd rdc have "w' = w" "r = Inl e" by (auto simp: a2a_start_run_def)
      then show ?thesis by (simp add: door_step.refused)
    next
      case out: (Inr z)
      obtain run_id seq where z: "z = (run_id, seq)" by (cases z)
      with rdc out have v: "view' = d" and round: "door_round D ck ids agent am t view d run_id" by auto
      let ?raw = "zip messages (map (mi_message ids) [0..<length messages])"
      show ?thesis
      proof (cases "append_thread_messages (ck_now ck) t run_id ?raw d")
        case (Inl e)
        have same: "inherits run_id (c_relay w) False (c_relay w)" by (simp add: inherits_def)
        from Inl assms Inr x msgs y rd out z v have "w' = w\<lparr>w_db := d, c_relay := c_relay w\<rparr>" "r = Inl e"
          by (auto simp: a2a_start_run_def)
        then show ?thesis using door_step.abandoned [OF li round same, of e] by simp
      next
        case app: (Inr q)
        obtain d3 ms where q: "q = (d3, ms)" by (cases q)
        from app q assms Inr x msgs y rd out z v
        have "a2a_launch D ck agent (pa_message params) am t run_id seq ms d3 (w\<lparr>w_db := d\<rparr>) = (w', r)"
          by (auto simp: a2a_start_run_def)
        from a2a_launch_cases [OF this li round app [unfolded q]] show ?thesis .
      qed
    qed
  qed
qed

lemma door_is_a_step:
  assumes "door D ck ids agent req w = (w', r)"
  shows "door_step D ck ids agent req w w' r"
proof (cases req)
  case (AguiRequest body)
  obtain w1 r1 where "agui_run D ck ids agent body w = (w1, r1)" by (cases "agui_run D ck ids agent body w")
  with agui_is_a_door_step [OF this] assms AguiRequest show ?thesis by simp
next
  case (A2ARequest params)
  obtain w1 r1 where "a2a_start_run D ck ids agent params w = (w1, r1)" by (cases "a2a_start_run D ck ids agent params w")
  with a2a_is_a_door_step [OF this] assms A2ARequest show ?thesis by simp
qed

end
