(* ===== verification/DoorClaims.thy ===== *)
theory DoorClaims
  imports DoorSteps CoreClaims
begin

text \<open>
  What the doors promise: an existing run changes only when its ask is answered by an authority; a
  request that starts a run leaves it queued with the broker or failed; the caller's metadata is kept
  without funduq's own keys and without the KYOK context; and a run that opted in can call.
\<close>

subsection \<open>What a round leaves alone\<close>

lemma reopen_other: "i \<noteq> j \<Longrightarrow> get_run (fst (reopen_run now j inp md ex d)) i = get_run d i"
proof -
  assume ne: "i \<noteq> j"
  have *: "get_run (fst (reopen_run now j inp md ex d)) i = map_option (\<lambda>r.
      if run_matches j (\<lambda>s. case ex of None \<Rightarrow> True | Some e \<Rightarrow> s = e) r
      then r\<lparr>rn_status := Queued, rn_input_json := inp, rn_last_activity_at := Some now,
             rn_metadata := (if truthy md then merge_run_metadata d j md else rn_metadata r)\<rparr>
      else r) (get_run d i)"
    unfolding reopen_run_def Let_def fst_conv by (rule get_run_stamp) simp
  show ?thesis using ne get_run_mem [of d i] unfolding * by (cases "get_run d i") (auto simp: run_matches_def)
qed

lemma reopen_row:
  assumes "get_run d j = Some r" "rn_status r = s"
  shows "get_run (fst (reopen_run now j inp md (Some s) d)) j =
    Some (r\<lparr>rn_status := Queued, rn_input_json := inp, rn_last_activity_at := Some now,
            rn_metadata := (if truthy md then merge_run_metadata d j md else rn_metadata r)\<rparr>)"
proof -
  have *: "get_run (fst (reopen_run now j inp md (Some s) d)) j = map_option (\<lambda>r.
      if run_matches j (\<lambda>x. x = s) r
      then r\<lparr>rn_status := Queued, rn_input_json := inp, rn_last_activity_at := Some now,
             rn_metadata := (if truthy md then merge_run_metadata d j md else rn_metadata r)\<rparr>
      else r) (get_run d j)"
    unfolding reopen_run_def Let_def fst_conv option.case by (rule get_run_stamp) simp
  show ?thesis using assms get_run_mem [OF assms(1)] unfolding * by (simp add: run_matches_def)
qed

lemma mark_other:
  assumes "mark_run_status now j s md d = Inr (d', ok)" "i \<noteq> j"
  shows "get_run d' i = get_run d i"
proof -
  obtain legal where f: "LEGAL_STATUS_TRANSITIONS s = Some legal"
    using assms(1) by (auto simp: mark_run_status_def split: option.splits)
  let ?f = "\<lambda>r. (stamp_status now s r)\<lparr>rn_metadata := (if truthy md then merge_run_metadata d j md else rn_metadata r)\<rparr>"
  have "d' = d\<lparr>db_runs := update_where (run_matches j (\<lambda>x. x \<in> set legal)) ?f (db_runs d)\<rparr>"
    using assms(1) f by (auto simp: mark_run_status_def Let_def split: if_splits)
  then have "get_run d' i = map_option (\<lambda>r. if run_matches j (\<lambda>x. x \<in> set legal) r then ?f r else r) (get_run d i)"
    by (simp only:) (rule get_run_stamp, simp)
  then show ?thesis using assms(2) get_run_mem [of d i] by (cases "get_run d i") (auto simp: run_matches_def)
qed

lemma round_other:
  assumes "door_round D ck ids agent am t view d run_id" "i \<noteq> run_id"
  shows "get_run d i = get_run view i"
  using assms(1) unfolding door_round_def
proof (elim disjE exE conjE)
  fix proto inp
  assume "create_run (ck_now ck) (mi_run ids) t agent proto inp (am_metadata am) (am_head_key am) view = Inr (d, run_id)"
  note c = create_run_row [OF this]
  show ?thesis using c(4) [of i] assms(2) by (simp add: c(1))
next
  fix inp
  assume "d = fst (reopen_run (ck_now ck) run_id inp (am_metadata am) (Some InputRequired) view)"
  then show ?thesis using assms(2) by (simp add: reopen_other)
qed

lemma round_ok:
  assumes "door_round D ck ids agent am t view d run_id" "db_ok view"
  shows "db_ok d"
  using assms unfolding door_round_def create_run_def by (auto intro: ok_reopen ok_insert_run)

text \<open>The run of a round: new and queued, or the paused one put back.\<close>

lemma round_run:
  assumes "door_round D ck ids agent am t view d run_id" "db_ok view"
  shows "\<exists>row. get_run d run_id = Some row \<and> rn_status row = Queued \<and> rn_thread_id row = t \<and>
    (get_run view run_id = None \<and> rn_metadata row = por (am_metadata am) (PDict []) \<or>
     (\<exists>paused. get_run view run_id = Some paused \<and> may_answer D ck agent (am_metadata am) paused))"
  using assms(1) unfolding door_round_def
proof (elim disjE exE conjE)
  fix proto inp
  assume "create_run (ck_now ck) (mi_run ids) t agent proto inp (am_metadata am) (am_head_key am) view = Inr (d, run_id)"
  note c = create_run_row [OF this]
  show ?thesis using c(3) c(4) [of run_id] by (auto simp: c(1))
next
  fix paused inp
  assume p: "paused \<in> set (db_runs view)" "rn_run_id paused = run_id" "rn_thread_id paused = t"
    "may_answer D ck agent (am_metadata am) paused"
    "d = fst (reopen_run (ck_now ck) run_id inp (am_metadata am) (Some InputRequired) view)"
  have "get_run view run_id = Some paused" using get_run_unique [OF assms(2) p(1)] p(2) by simp
  with reopen_row [OF this, of InputRequired] p show ?thesis by (auto simp: may_answer_def)
qed

lemma answered_run:
  assumes "door_round D ck ids agent am t view d run_id" "db_ok view" "get_run view i = Some row" "get_run d i \<noteq> Some row"
  shows "i = run_id \<and> may_answer D ck agent (am_metadata am) row"
proof -
  have "i = run_id" using round_other [OF assms(1)] assms(3,4) by metis
  with round_run [OF assms(1,2)] assms(3) show ?thesis by auto
qed

lemma bind_opted_same [simp]:
  "w_db (bind_opted kyok chain i w) = w_db w" "w_broker (bind_opted kyok chain i w) = w_broker w"
  "w_changes (bind_opted kyok chain i w) = w_changes w"
  by (simp_all add: bind_opted_def split: option.splits prod.splits)

lemma mark_status_run:
  "mark_status now j s md w = (w', Inr ok) \<Longrightarrow> mark_run_status now j s md (w_db w) = Inr (w_db w', ok)"
  by (auto simp: mark_status_def notify_change_def Let_def split: sum.splits if_splits)

text \<open>Every run of the record but the one of the round is as before.\<close>

lemma step_changes:
  assumes "door_step D ck ids agent req w w' r" "get_run (w_db w') i \<noteq> get_run (w_db w) i"
  shows "\<exists>am view t d. let_in D ck agent req w am view \<and> door_round D ck ids agent am t view d i"
  using assms
proof (cases rule: door_step.cases)
  case (abandoned am view t d run_id inherited k e)
  with assms(2) round_other [OF abandoned(4), of i] show ?thesis
    by (force simp: let_in_def get_run_def)
next
  case (offline am view t d run_id ms d' stored applied)
  note m = mark_status_run [OF offline(6)]
  have "get_run (w_db w') i = get_run (w_db w) i" if "i \<noteq> run_id"
    using mark_other [OF m that] round_other [OF offline(3) that] get_run_same [OF runs_append_messages [OF offline(4)]]
      offline(2) by (simp add: let_in_def get_run_def)
  with assms(2) offline(2,3) show ?thesis by blast
next
  case (unqueued am view t d run_id ms d' stored inherited k chain e)
  have "get_run (w_db w') i = get_run (w_db w) i" if "i \<noteq> run_id"
    using round_other [OF unqueued(4) that] get_run_same [OF runs_append_messages [OF unqueued(5)]]
      unqueued(1,3) by (simp add: let_in_def get_run_def)
  with assms(2) unqueued(3,4) show ?thesis by blast
next
  case (live am view t d run_id ms d' stored inherited k input proto seq chain a)
  have "get_run (w_db w') i = get_run (w_db w) i" if "i \<noteq> run_id"
    using round_other [OF live(3) that] get_run_same [OF runs_append_messages [OF live(4)]]
      live(2) enqueued_run(2) [OF live(9)] by (simp add: let_in_def get_run_def)
  with assms(2) live(2,3) show ?thesis by blast
qed simp_all

lemma kept_other: "k \<notin> set RESERVED_METADATA_KEYS \<Longrightarrow> k \<noteq> ''kyok'' \<Longrightarrow> pget (kept_metadata req) k = pget (raw_metadata req) k"
  by (cases req) (simp_all add: pget_strip_reserved pget_strip_kyok)

lemma kept_answer:
  "pget (kept_metadata req) ''resolution'' = pget (raw_metadata req) ''resolution''"
  "pget (kept_metadata req) ''delegation'' = pget (raw_metadata req) ''delegation''"
  by (rule kept_other; simp add: RESERVED_METADATA_KEYS_def)+


subsection \<open>What is kept\<close>

text \<open>The metadata column of a run holds a dictionary.\<close>

definition runs_typed :: "db \<Rightarrow> bool" where
  "runs_typed d \<longleftrightarrow> (\<forall>r \<in> set (db_runs d). is_dict (rn_metadata r))"

lemma is_dict_pmerge: "is_dict x \<Longrightarrow> is_dict (pmerge x y)"
  by (cases x; cases y) auto

lemma por_dict [simp]: "is_dict x \<Longrightarrow> por x (PDict []) = x"
  by (cases x) (auto simp: por_def)

lemma merged_typed: "runs_typed d \<Longrightarrow> is_dict (merge_run_metadata d i md)"
  unfolding merge_run_metadata_def
  by (rule is_dict_pmerge) (auto simp: runs_typed_def dest: get_run_mem split: option.split)

lemma typed_update: "runs_typed d \<Longrightarrow> (\<And>r. is_dict (rn_metadata r) \<Longrightarrow> is_dict (rn_metadata (f r))) \<Longrightarrow>
    runs_typed (d\<lparr>db_runs := update_where p f (db_runs d)\<rparr>)"
  by (auto simp: runs_typed_def update_where_def)

lemma typed_reopen: "runs_typed d \<Longrightarrow> runs_typed (fst (reopen_run now i inp md ex d))"
  unfolding reopen_run_def Let_def fst_conv by (rule typed_update) (simp_all add: merged_typed)

lemma typed_mark: "mark_run_status now i s md d = Inr (d', ok) \<Longrightarrow> runs_typed d \<Longrightarrow> runs_typed d'"
  by (auto simp: mark_run_status_def Let_def merged_typed split: option.splits if_splits intro!: typed_update)

lemma typed_same: "db_runs d' = db_runs d \<Longrightarrow> runs_typed d' = runs_typed d"
  by (simp add: runs_typed_def)

lemma is_dict_strip: "is_dict (strip_reserved md)" "is_dict md \<Longrightarrow> is_dict (strip_kyok_context md)"
  by (cases md, simp_all add: strip_reserved_def strip_kyok_context_def split: pyval.split)

lemma is_dict_kept: "is_dict (kept_metadata req)"
  by (cases req) (simp_all add: is_dict_strip)

lemma typed_round:
  assumes "door_round D ck ids agent am t view d i" "runs_typed view" "is_dict (am_metadata am)"
  shows "runs_typed d"
  using assms(1) unfolding door_round_def
proof (elim disjE exE conjE)
  fix proto inp
  assume "create_run (ck_now ck) (mi_run ids) t agent proto inp (am_metadata am) (am_head_key am) view = Inr (d, i)"
  then show ?thesis using assms(2,3)
    by (auto simp: create_run_def insert_run_def runs_typed_def split: if_splits)
next
  fix inp
  assume "d = fst (reopen_run (ck_now ck) i inp (am_metadata am) (Some InputRequired) view)"
  then show ?thesis using assms(2) by (simp add: typed_reopen)
qed

lemma kept_reserved: "k \<in> set RESERVED_METADATA_KEYS \<Longrightarrow> pget (kept_metadata req) k = PNone"
proof (cases req)
  case (AguiRequest body)
  moreover assume "k \<in> set RESERVED_METADATA_KEYS"
  moreover have "k \<noteq> ''kyok''" using calculation kyok_not_reserved by blast
  ultimately show ?thesis by (simp add: pget_strip_kyok pget_strip_reserved)
qed (simp add: pget_strip_reserved)

lemma stripped_context: "pget (pget (strip_kyok_context md) ''kyok'') ''context'' = PNone"
proof (cases "pget md ''kyok''")
  case (PDict kyok)
  then have "is_dict md" by (cases md) (simp_all add: pget_def pget_or_def)
  have f: "pget (PDict (filter (\<lambda>(k, v). k \<noteq> ''context'') kyok)) ''context'' = PNone"
    by (simp add: pget_def pget_or_def dget_filter)
  have n: "''context'' \<notin> set (dkeys kyok) \<Longrightarrow> pget (PDict kyok) ''context'' = PNone"
  proof -
    assume "''context'' \<notin> set (dkeys kyok)"
    then have "dget kyok ''context'' = None" by (simp add: map_of_eq_None_iff)
    then show ?thesis by (simp add: pget_def pget_or_def)
  qed
  show ?thesis using PDict \<open>is_dict md\<close> f n by (simp add: strip_kyok_context_def pget_pset_any)
qed (simp_all add: strip_kyok_context_def pget_def pget_or_def split: option.splits)

lemma kept_no_context: "pget (pget (kept_metadata req) ''kyok'') ''context'' = PNone"
proof (cases req)
  case (A2ARequest params)
  then have "pget (kept_metadata req) ''kyok'' = pget (strip_kyok_context (pa_metadata params)) ''kyok''"
    by (simp add: pget_strip_reserved)
  then show ?thesis by (simp add: stripped_context)
qed (simp add: stripped_context)

text \<open>The metadata of the run of a started request that was not there before.\<close>

lemma pget_offline: "is_dict md \<Longrightarrow> pget (pmerge md offline_reason) k =
    (if k = ''failureReason'' then PStr ''agent_offline'' else pget md k)"
  by (cases md) (auto simp: offline_reason_def pget_def pget_or_def update_conv')

lemma offline_marked:
  assumes "get_run d i = Some r0" "rn_status r0 = Queued" "db_ok d"
    and "append_thread_messages now t i ms d = Inr (d', stored)"
    and "mark_status now i Failed offline_reason (w\<lparr>w_db := d'\<rparr>) = (w', Inr applied)"
  shows "get_run (w_db w') i = Some ((stamp_status now Failed r0)
      \<lparr>rn_metadata := pmerge (por (rn_metadata r0) (PDict [])) offline_reason\<rparr>)"
    and "w_broker w' = w_broker w" "w_changes w' = w_changes w @ [RunStatusChanged i Failed]"
proof -
  have ok: "db_ok (w_db (w\<lparr>w_db := d'\<rparr>))" using ok_append_messages [OF assms(4,3)] by simp
  have r: "get_run (w_db (w\<lparr>w_db := d'\<rparr>)) i = Some r0"
    using get_run_same [OF runs_append_messages [OF assms(4)]] assms(1) by simp
  have l: "LEGAL_STATUS_TRANSITIONS Failed = Some [Queued, Running, Cancelling, InputRequired]"
    "rn_status r0 \<in> set [Queued, Running, Cancelling, InputRequired]" using assms(2) by simp_all
  have t: "truthy offline_reason" by (simp add: offline_reason_def)
  from mark_status_applies [OF ok r l, of now offline_reason] assms(5) obtain d2 where
    "w' = notify_change (RunStatusChanged i Failed) (w\<lparr>w_db := d'\<rparr>\<lparr>w_db := d2\<rparr>)"
    "get_run d2 i = Some ((stamp_status now Failed r0)
      \<lparr>rn_metadata := pmerge (por (rn_metadata r0) (PDict [])) offline_reason\<rparr>)"
    unfolding if_P [OF t] by auto
  then show "get_run (w_db w') i = Some ((stamp_status now Failed r0)
      \<lparr>rn_metadata := pmerge (por (rn_metadata r0) (PDict [])) offline_reason\<rparr>)"
    "w_broker w' = w_broker w" "w_changes w' = w_changes w @ [RunStatusChanged i Failed]"
    by (simp_all add: notify_change_def)
qed

lemma new_run_metadata:
  assumes "door_step D ck ids agent req w w' r" "db_ok (w_db w)"
    and "get_run (w_db w) i = None" "get_run (w_db w') i = Some row"
  shows "rn_metadata row \<in> {kept_metadata req, pmerge (kept_metadata req) offline_reason}"
  using assms(1)
proof (cases rule: door_step.cases)
  case (abandoned am view t d run_id inherited k e)
  note li = abandoned(3) [unfolded let_in_def]
  have "i = run_id" using round_other [OF abandoned(4), of i] li assms(3,4) abandoned(1) by (force simp: get_run_def)
  with round_run [OF abandoned(4)] li assms(2-4) abandoned(1) is_dict_kept [of req] show ?thesis
    by (auto simp: get_run_def)
next
  case (offline am view t d run_id ms d' stored applied)
  note li = offline(2) [unfolded let_in_def] and m = mark_status_run [OF offline(6)]
  note app = get_run_same [OF runs_append_messages [OF offline(4)]]
  have i: "i = run_id" using round_other [OF offline(3), of i] mark_other [OF m, of i] li assms(3,4) app
    by (force simp: get_run_def)
  have none: "get_run view run_id = None" using li assms(3) i by (simp add: get_run_def)
  with round_run [OF offline(3)] li assms(2) obtain r0 where r0: "get_run d run_id = Some r0"
    "rn_metadata r0 = por (kept_metadata req) (PDict [])" "rn_status r0 = Queued" by auto
  have kept: "por (rn_metadata r0) (PDict []) = kept_metadata req"
    using r0(2) is_dict_kept [of req] by simp
  have "db_ok d" using round_ok [OF offline(3)] li assms(2) by blast
  from offline_marked(1) [OF r0(1,3) this offline(4,6)] assms(4) i kept show ?thesis by auto
next
  case (unqueued am view t d run_id ms d' stored inherited k chain e)
  note li = unqueued(3) [unfolded let_in_def]
  note app = get_run_same [OF runs_append_messages [OF unqueued(5)]]
  have "i = run_id" using round_other [OF unqueued(4), of i] li assms(3,4) unqueued(1) app by (force simp: get_run_def)
  with round_run [OF unqueued(4)] li assms(2-4) unqueued(1) is_dict_kept [of req] app show ?thesis
    by (auto simp: get_run_def)
next
  case (live am view t d run_id ms d' stored inherited k input proto seq chain a)
  note li = live(2) [unfolded let_in_def]
  note app = get_run_same [OF runs_append_messages [OF live(4)]]
  have db: "w_db w' = d'" using enqueued_run(2) [OF live(9)] by simp
  have "i = run_id" using round_other [OF live(3), of i] li assms(3,4) db app by (force simp: get_run_def)
  with round_run [OF live(3)] li assms(2-4) db is_dict_kept [of req] app show ?thesis
    by (auto simp: get_run_def)
qed (use assms(3,4) in simp_all)


subsection \<open>What a started request leaves\<close>

lemma started_runs:
  assumes "door_step D ck ids agent req w w' (Inr (Some (i, t, is_live)))" "db_ok (w_db w)" "runs_typed (w_db w)"
  shows "is_live = is_serving w agent \<and> (\<exists>row. get_run (w_db w') i = Some row \<and> rn_thread_id row = t \<and>
    (if is_live
     then rn_status row = Queued \<and> queue_of (w_broker w') agent = queue_of (w_broker w) agent @ [i] \<and>
       b_work_to_do (w_broker w') \<and>
       (\<exists>a. dget (b_runs (w_broker w')) i = Some a \<and> r_claimed_by (run_at w' a) = None)
     else rn_status row = Failed \<and> pget (rn_metadata row) ''failureReason'' = PStr ''agent_offline'' \<and>
       w_broker w' = w_broker w \<and> w_changes w' = w_changes w @ [RunStatusChanged i Failed]))"
  using assms(1)
proof (cases rule: door_step.cases)
  case (offline am view d ms d' stored applied)
  note li = offline(2) [unfolded let_in_def]
  have ok: "db_ok view" "db_ok d" using li assms(2) round_ok [OF offline(3)] by auto
  obtain r0 where r0: "get_run d i = Some r0" "rn_status r0 = Queued" "rn_thread_id r0 = t"
    using round_run [OF offline(3) ok(1)] by auto
  have "runs_typed d"
    using typed_round [OF offline(3)] li assms(3) typed_same [of view "w_db w"] is_dict_kept [of req] by simp
  then have "is_dict (rn_metadata r0)" using get_run_mem [OF r0(1)] by (auto simp: runs_typed_def)
  then show ?thesis
    using offline_marked [OF r0(1,2) ok(2) offline(4,6)] offline(1,5) r0(3) pget_offline by simp
next
  case (live am view d ms d' stored inherited k input proto seq chain a)
  note li = live(2) [unfolded let_in_def]
  obtain r0 where r0: "get_run d i = Some r0" "rn_status r0 = Queued" "rn_thread_id r0 = t"
    using round_run [OF live(3)] li assms(2) by auto
  note e = enqueued_run [OF live(9)]
  have "get_run (w_db w') i = Some r0"
    using e(2) get_run_same [OF runs_append_messages [OF live(4)]] r0(1) by simp
  with r0 live(1,5) e(3,6,7,8) show ?thesis by auto
qed

text \<open>C13: A request that starts a run, through either door, leaves it either queued with the broker or
  failed, never in between.  Where the agent is served, the record has the run queued on the thread
  the caller is told, and the broker has it, unclaimed, last in its agent's queue with the sweep awake;
  where it is not, the run is failed with its reason, subscribers of changes hear of that once, and
  the broker never hears of the run.\<close>

theorem started_requests_are_queued_or_failed:
  assumes "door D ck ids agent req w = (w', Inr (Some (i, t, is_live)))" "db_ok (w_db w)" "runs_typed (w_db w)"
  shows "is_live = is_serving w agent \<and> (\<exists>row. get_run (w_db w') i = Some row \<and> rn_thread_id row = t \<and>
    (if is_live
     then rn_status row = Queued \<and> queue_of (w_broker w') agent = queue_of (w_broker w) agent @ [i] \<and>
       b_work_to_do (w_broker w') \<and>
       (\<exists>a. dget (b_runs (w_broker w')) i = Some a \<and> r_claimed_by (run_at w' a) = None)
     else rn_status row = Failed \<and> pget (rn_metadata row) ''failureReason'' = PStr ''agent_offline'' \<and>
       w_broker w' = w_broker w \<and> w_changes w' = w_changes w @ [RunStatusChanged i Failed]))"
  by (rule started_runs [OF door_is_a_step [OF assms(1)] assms(2,3)])

subsection \<open>Opting in\<close>

lemma granted_props:
  "pget (build_forwarded_props K now secret i agent True caller chain addressed delegation) ''kyok''
     = kyok_forwarded_props K now i agent secret"
  by (cases caller) (auto simp: build_forwarded_props_def Let_def pget_def pget_or_def update_conv')

lemma int_time_close: "now \<le> of_int (int_time now + KYOK_TOKEN_TTL_SECONDS)"
proof -
  have "now \<le> of_int (int_time now) + 1" by (simp add: int_time_def) linarith
  then show ?thesis by (simp add: KYOK_TOKEN_TTL_SECONDS_def)
qed

text \<open>C22: A run that opted in can call.  When a request with a KYOK opt-in starts a run with the broker,
  the relay has the run bound to that offering with the context of the opt-in, and the input the agent
  is sent carries a token that verifies, now, as this run of this agent.\<close>

theorem opted_in_runs_can_call:
  assumes "door D ck ids agent req w = (w', Inr (Some (i, t, True)))"
    and "opted_in (dp_opt_in D) (raw_metadata req) (w_db w) = Inr (Some (ref, context))"
    and "codec_ok (dp_codec D) (token_payload (ck_time ck) i agent)"
  shows "(\<exists>chain. binding_for (c_relay w') i = Some \<lparr>kb_llm_provider = ref, kb_context = context, kb_actor_chain = chain\<rparr>)
    \<and> (\<exists>a raw token. dget (b_runs (w_broker w')) i = Some a \<and> dp_run_input D raw = Some (r_input_json (run_at w' a))
       \<and> pget (pget (pget raw ''forwardedProps'') ''kyok'') ''token'' = PStr token
       \<and> verify_kyok_token (dp_codec D) (ck_time ck) token (st_token_signing_secret (dp_settings D))
           = Inr (Some \<lparr>kt_run_id = i, kt_agent = agent\<rparr>))"
  using door_is_a_step [OF assms(1)]
proof (cases rule: door_step.cases)
  case (live am view d ms d' stored inherited k input proto seq chain a)
  have kyok: "am_kyok am = Some (ref, context)" using live(1) assms(2) by (simp add: let_in_def)
  note e = enqueued_run [OF live(8)]
  have "c_relay w' = c_relay (bind_opted (am_kyok am) chain i (w\<lparr>w_db := d', c_relay := k\<rparr>))"
    using live(8) by (auto simp: core_enqueue_run_def)
  then have "binding_for (c_relay w') i = Some \<lparr>kb_llm_provider = ref, kb_context = context, kb_actor_chain = chain_tokens chain\<rparr>"
    by (simp add: kyok bind_opted_def bind_run_def binding_for_def update_conv')
  moreover obtain raw caller ch addressed delegation where raw: "dp_run_input D raw = Some input"
    "pget raw ''forwardedProps'' = build_forwarded_props (dp_codec D) (ck_time ck)
       (st_token_signing_secret (dp_settings D)) i agent True caller ch addressed delegation"
    using live(7) unfolding run_input_for_def by (auto simp: kyok)
  let ?token = "issue_kyok_token (dp_codec D) (ck_time ck) i agent (st_token_signing_secret (dp_settings D))"
  have "pget (pget (pget raw ''forwardedProps'') ''kyok'') ''token'' = PStr ?token"
    unfolding raw(2) granted_props by (simp add: kyok_forwarded_props_def pget_def pget_or_def)
  moreover have "verify_kyok_token (dp_codec D) (ck_time ck) ?token (st_token_signing_secret (dp_settings D))
      = Inr (Some \<lparr>kt_run_id = i, kt_agent = agent\<rparr>)"
    using verify_issued [OF assms(3)] int_time_close [of "ck_time ck"] by simp
  ultimately show ?thesis using e(3,4) raw(1) by blast
qed simp

end
