(* ===== verification/DoorDemos.thy ===== *)
theory DoorDemos
  imports DoorClaims
begin

text \<open>
  The doors' properties at concrete requests: a served and an unserved agent, a request with an
  opt-in, and a paused run whose ask names an authority.
\<close>

definition door_crypto :: "string jwt_crypto" where
  "door_crypto = \<lparr>ed_public = (\<lambda>s. s), ed_sign = (\<lambda>s m. s @ m), ed_key_ok = (\<lambda>k. True),
     ed_verify = (\<lambda>k sig m. sig = k @ m), seed_key = (\<lambda>s. s), sha256_hex = to_hex,
     jwt_encode = (\<lambda>v s. s), jwt_peek = (\<lambda>s. None), jwt_verified = (\<lambda>s b t k. None)\<rparr>"

definition door_codec :: codec where
  "door_codec = \<lparr>cd_hmac_hex = (\<lambda>k m. ''h''), cd_b64_json = (\<lambda>v. ''b''),
     cd_unb64_json = (\<lambda>s. Some (token_payload 1000 ''r1'' demo_ref))\<rparr>"

definition door_offering :: llm_ref where
  "door_offering = \<lparr>lf_provider_key = ''6b'', lf_name = ''llm''\<rparr>"

definition door_deployment :: "string deployment" where
  "door_deployment = \<lparr>dp_crypto = door_crypto, dp_codec = door_codec,
     dp_opt_in = (\<lambda>v. Some \<lparr>ko_llm_provider = Some door_offering, ko_context = pget v ''context''\<rparr>),
     dp_run_input = Some, dp_message = (\<lambda>role i text. PDict [(''id'', PStr i), (''role'', PStr role), (''content'', PStr text)]),
     dp_text_param = (\<lambda>v. Inl TypeError), dp_settings = default_settings ''s''\<rparr>"

definition door_clock :: clock where
  "door_clock = \<lparr>ck_time = 1000, ck_now = 1000000000\<rparr>"

definition door_ids :: minted_ids where
  "door_ids = \<lparr>mi_thread = ''t1'', mi_run = ''r1'', mi_message = (\<lambda>i. ''m'')\<rparr>"

definition door_db :: db where
  "door_db = (case register_llm_providers demo_scheme 1 ''6b'' [''llm''] (PDict []) demo_registered of
     Inr (d, refs) \<Rightarrow> d | Inl e \<Rightarrow> empty_db)"

definition unserved_core :: core where
  "unserved_core = \<lparr>w_db = door_db, w_broker = start (new_broker None), w_changes = [], w_cancels = [],
     c_relay = new_kyok_relay, c_challenges = [], c_started = True, c_sweeping = True\<rparr>"

definition served_core :: core where
  "served_core = unserved_core\<lparr>w_broker := register_provider [(demo_ref, demo_connection)] (w_broker unserved_core)\<rparr>"

definition door_metadata :: pyval where
  "door_metadata = PDict [(''kyok'', PDict [(''llmProvider'', PStr ''x''), (''context'', PStr ''secret'')]),
     (''failureReason'', PStr ''planted'')]"

definition agui_request :: door_request where
  "agui_request = AguiRequest \<lparr>bo_thread_id = ''mine'', bo_parent_run_id = PNone, bo_state = PNone, bo_messages = [],
     bo_tools = [], bo_context = [], bo_forwarded_props = PNone, bo_resume = [], bo_metadata = door_metadata,
     bo_dump = PDict []\<rparr>"

definition a2a_request :: door_request where
  "a2a_request = A2ARequest \<lparr>pa_message = PDict [(''parts'', PList [PDict [(''text'', PStr ''hi'')]])],
     pa_context_id = PNone, pa_task_id = PNone, pa_metadata = door_metadata\<rparr>"

lemma door_db_write:
  "register_llm_providers demo_scheme 1 ''6b'' [''llm''] (PDict []) demo_registered = Inr (door_db, [(''llm'', door_offering)])"
  by code_simp

lemma door_db_ok: "db_ok door_db" "runs_typed door_db"
proof -
  have "db_ok demo_registered"
    using ok_register_agents [OF demo_writes(1)] ok_init by (simp add: repo_init_def)
  then show "db_ok door_db" by (rule ok_register_llm [OF door_db_write])
  have "db_runs door_db = []" by code_simp
  then show "runs_typed door_db" by (simp add: runs_typed_def)
qed

lemma door_runs:
  "snd (door door_deployment door_clock door_ids demo_ref agui_request served_core) = Inr (Some (''r1'', ''t1'', True))"
  "snd (door door_deployment door_clock door_ids demo_ref a2a_request unserved_core) = Inr (Some (''r1'', ''t1'', False))"
  by code_simp+

lemma started_requests_are_queued_or_failed_witness:
  "\<exists>w' w''. door door_deployment door_clock door_ids demo_ref agui_request served_core = (w', Inr (Some (''r1'', ''t1'', True))) \<and>
     queue_of (w_broker w') demo_ref = queue_of (w_broker served_core) demo_ref @ [''r1''] \<and>
     door door_deployment door_clock door_ids demo_ref a2a_request unserved_core = (w'', Inr (Some (''r1'', ''t1'', False))) \<and>
     w_changes w'' = [RunStatusChanged ''r1'' Failed]"
proof -
  obtain w' w'' where w: "door door_deployment door_clock door_ids demo_ref agui_request served_core = (w', Inr (Some (''r1'', ''t1'', True)))"
    "door door_deployment door_clock door_ids demo_ref a2a_request unserved_core = (w'', Inr (Some (''r1'', ''t1'', False)))"
    using door_runs by (metis prod.collapse)
  have ok: "db_ok (w_db served_core)" "runs_typed (w_db served_core)" "db_ok (w_db unserved_core)" "runs_typed (w_db unserved_core)"
    using door_db_ok by (simp_all add: served_core_def unserved_core_def)
  have "w_changes unserved_core = []" by (simp add: unserved_core_def)
  with started_requests_are_queued_or_failed [OF w(1) ok(1,2)] started_requests_are_queued_or_failed [OF w(2) ok(3,4)] w
  show ?thesis by auto
qed

lemma opted_in_runs_can_call_witness:
  "\<exists>w' chain. door door_deployment door_clock door_ids demo_ref agui_request served_core = (w', Inr (Some (''r1'', ''t1'', True))) \<and>
     binding_for (c_relay w') ''r1'' =
       Some \<lparr>kb_llm_provider = door_offering, kb_context = PStr ''secret'', kb_actor_chain = chain\<rparr>"
proof -
  obtain w' where w: "door door_deployment door_clock door_ids demo_ref agui_request served_core = (w', Inr (Some (''r1'', ''t1'', True)))"
    using door_runs by (metis prod.collapse)
  have o: "opted_in (dp_opt_in door_deployment) (raw_metadata agui_request) (w_db served_core) =
      Inr (Some (door_offering, PStr ''secret''))" by code_simp
  have c: "codec_ok (dp_codec door_deployment) (token_payload (ck_time door_clock) ''r1'' demo_ref)"
    by (simp add: codec_ok_def door_codec_def door_deployment_def door_clock_def is_ascii_def)
  from opted_in_runs_can_call [OF w o c] w show ?thesis by blast
qed


subsection \<open>An answer\<close>

definition asked_thread :: db where
  "asked_thread = (case ensure_thread 2 ''t1'' demo_ref None None PNone False None door_db of Inr (d, t) \<Rightarrow> d | Inl e \<Rightarrow> empty_db)"

definition asked_run :: db where
  "asked_run = (case create_run 3 ''r1'' ''t1'' demo_ref ''a2a'' (PDict []) PNone (Some ''64'') asked_thread of
     Inr (d, r) \<Rightarrow> d | Inl e \<Rightarrow> empty_db)"

definition asked_running :: db where
  "asked_running = (case mark_run_status 4 ''r1'' Running PNone asked_run of Inr (d, ok) \<Rightarrow> d | Inl e \<Rightarrow> empty_db)"

definition asked_db :: db where
  "asked_db = (case mark_run_status 5 ''r1'' InputRequired PNone asked_running of Inr (d, ok) \<Rightarrow> d | Inl e \<Rightarrow> empty_db)"

lemma asked_writes:
  "ensure_thread 2 ''t1'' demo_ref None None PNone False None door_db = Inr (asked_thread, ''t1'')"
  "create_run 3 ''r1'' ''t1'' demo_ref ''a2a'' (PDict []) PNone (Some ''64'') asked_thread = Inr (asked_run, ''r1'')"
  "mark_run_status 4 ''r1'' Running PNone asked_run = Inr (asked_running, True)"
  "mark_run_status 5 ''r1'' InputRequired PNone asked_running = Inr (asked_db, True)"
  by code_simp+

lemma asked_ok: "db_ok asked_db"
proof -
  have "db_ok asked_run"
    using asked_writes(2) ok_ensure_thread [OF asked_writes(1) door_db_ok(1)]
    by (auto simp: create_run_def dest: ok_insert_run)
  then show ?thesis using ok_mark [OF asked_writes(4)] ok_mark [OF asked_writes(3)] by blast
qed

definition answer_request :: door_request where
  "answer_request = A2ARequest \<lparr>pa_message = PDict [], pa_context_id = PNone, pa_task_id = PStr ''r1'',
     pa_metadata = PDict [(''resolution'', resolution_of (identity_of door_crypto ''d'')
       (sign_resolution door_crypto 1000 (identity_of door_crypto ''d'') ''r1'' None))]\<rparr>"


text \<open>C6: Both doors keep to one protocol.  Whatever a request does to the record, the relay and the
  broker is one of six moves: it is refused or finds its thread busy and changes nothing; it opens a
  round (a new run, or the paused one with an answer it may give) and is abandoned there; or its
  messages follow and the run is failed for want of its agent, left unqueued, or queued with its
  input.\<close>

theorem doors_refine_one_protocol:
  "(agui_run D ck ids agent body w = (w', reply) \<longrightarrow>
      door_step D ck ids agent (AguiRequest body) w w' (bindR reply (\<lambda>x. Inr (started_by x)))) \<and>
   (a2a_start_run D ck ids agent params w = (w', started) \<longrightarrow>
      door_step D ck ids agent (A2ARequest params) w w' (bindR started (\<lambda>x. Inr (Some x))))"
  using agui_is_a_door_step a2a_is_a_door_step by blast

lemma doors_refine_one_protocol_witness:
  "\<exists>w' w''. door_step door_deployment door_clock door_ids demo_ref agui_request served_core w' (Inr (Some (''r1'', ''t1'', True))) \<and>
     door_step door_deployment door_clock door_ids demo_ref a2a_request unserved_core w'' (Inr (Some (''r1'', ''t1'', False)))"
proof -
  obtain body params where q: "agui_request = AguiRequest body" "a2a_request = A2ARequest params"
    by (simp add: agui_request_def a2a_request_def)
  obtain w' r w'' s where r: "agui_run door_deployment door_clock door_ids demo_ref body served_core = (w', r)"
    "a2a_start_run door_deployment door_clock door_ids demo_ref params unserved_core = (w'', s)"
    by (metis prod.collapse)
  note steps = doors_refine_one_protocol [THEN conjunct1, THEN mp, OF r(1)] doors_refine_one_protocol [THEN conjunct2, THEN mp, OF r(2)]
  have "bindR r (\<lambda>x. Inr (started_by x)) = Inr (Some (''r1'', ''t1'', True))" "bindR s (\<lambda>x. Inr (Some x)) = Inr (Some (''r1'', ''t1'', False))"
    using door_runs by (simp_all add: q r)
  with steps show ?thesis by (intro exI [of _ w'] exI [of _ w'']) (simp add: q)
qed

end
