(* ===== verification/MetadataClaims.thy ===== *)
theory MetadataClaims
  imports DoorDemos
begin

text \<open>
  The type of the metadata column: whatever callers send and providers report, the metadata of every
  run on record is a dictionary, which is what every reader takes it for.
\<close>

abbreviation world_typed :: "'z world_scheme \<Rightarrow> bool" where
  "world_typed w \<equiv> runs_typed (w_db w)"

lemma typed_mark_status: "mark_status now i s md w = (w', r) \<Longrightarrow> world_typed w \<Longrightarrow> world_typed w'"
  by (auto simp: mark_status_def notify_change_def Let_def dest: typed_mark split: sum.splits prod.splits if_splits)

lemma typed_store_event: "store_event now a e w = Inr w' \<Longrightarrow> world_typed w' = world_typed w"
  by (auto simp: store_event_def append_run_event_def insert_event_def runs_typed_def split: if_splits)

lemma typed_store_reply: "store_reply now fresh r d = Inr d' \<Longrightarrow> runs_typed d' = runs_typed d"
  by (rule typed_same) (rule runs_store_reply)

lemma typed_touch: "runs_typed d \<Longrightarrow> runs_typed (touch_run_activity now i d)"
  unfolding touch_run_activity_def by (rule typed_update) simp_all

lemma db_simps [simp]:
  "w_db (next_seq a w) = w_db w" "w_db (relay_out a e w) = w_db w" "w_db (upd_run a f w) = w_db w"
  "w_db (snd (broker_push now i c w)) = w_db w"
  by (simp_all add: next_seq_def relay_out_def upd_run_def broker_push_def case_prod_beta)

lemma typed_handle:
  assumes "world_typed w"
  shows "world_typed (handle L now fresh a cmd w)"
proof (cases cmd)
  case Claim
  obtain w1 r1 where "mark_status now (r_run_id (run_at w a)) Running PNone w = (w1, r1)"
    by (cases "mark_status now (r_run_id (run_at w a)) Running PNone w")
  with typed_mark_status [OF this assms] Claim show ?thesis by (simp add: handle_claim_def)
next
  case (RelayEvent e)
  have "world_typed w2" if "store_event now a e (next_seq a (upd_run a (note_event e) w)) = Inr w2" for w2
    using typed_store_event [OF that] assms by simp
  with RelayEvent assms show ?thesis
    by (auto simp: handle_relay_def Let_def typed_touch split: sum.split)
next
  case FinishStream
  with assms show ?thesis
    by (auto simp: handle_finish_def Let_def dest!: typed_mark_status typed_store_event typed_store_reply
        split: prod.split sum.split)
next
  case RequestCancel
  then show ?thesis using assms
    by (cases "mark_status now (r_run_id (run_at w a)) Cancelled PNone w")
       (auto simp: handle_cancel_def Let_def dest: typed_mark_status split: prod.split sum.split option.split)
next
  case (Fail reason)
  with assms show ?thesis
    by (auto simp: handle_fail_def Let_def dest!: typed_mark_status typed_store_event split: prod.split sum.split)
qed

lemma typed_fail_rows: "runs_typed d \<Longrightarrow> (\<forall>r \<in> set rows. is_dict (rn_metadata r)) \<Longrightarrow> runs_typed (fst (fail_rows now p reason rows d))"
proof (induction rows arbitrary: d)
  case (Cons row rows)
  have "runs_typed (fst (fail_one now p reason row d))"
    using Cons.prems unfolding fail_one_def Let_def fst_conv
    by (intro typed_update) (simp_all add: is_dict_pmerge)
  from Cons.IH [OF this] Cons.prems(2) show ?case by (simp add: case_prod_beta)
qed simp

lemma typed_step:
  assumes "door_step D ck ids agent req w w' r" "world_typed w"
  shows "world_typed w'"
  using assms(1)
proof (cases rule: door_step.cases)
  case (abandoned am view t d run_id inherited k e)
  have "runs_typed view" "is_dict (am_metadata am)"
    using abandoned(3) assms(2) typed_same [of view "w_db w"] is_dict_kept [of req] by (auto simp: let_in_def)
  with typed_round [OF abandoned(4)] abandoned(1) show ?thesis by simp
next
  case (offline am view t d run_id ms d' stored applied)
  have "runs_typed view" "is_dict (am_metadata am)"
    using offline(2) assms(2) typed_same [of view "w_db w"] is_dict_kept [of req] by (auto simp: let_in_def)
  with typed_round [OF offline(3)] typed_same [OF runs_append_messages [OF offline(4)]]
  have "runs_typed d'" by simp
  with typed_mark_status [OF offline(6)] show ?thesis by simp
next
  case (unqueued am view t d run_id ms d' stored inherited k chain e)
  have "runs_typed view" "is_dict (am_metadata am)"
    using unqueued(3) assms(2) typed_same [of view "w_db w"] is_dict_kept [of req] by (auto simp: let_in_def)
  with typed_round [OF unqueued(4)] typed_same [OF runs_append_messages [OF unqueued(5)]] unqueued(1)
  show ?thesis by simp
next
  case (live am view t d run_id ms d' stored inherited k input proto seq chain a)
  have "runs_typed view" "is_dict (am_metadata am)"
    using live(2) assms(2) typed_same [of view "w_db w"] is_dict_kept [of req] by (auto simp: let_in_def)
  with typed_round [OF live(3)] typed_same [OF runs_append_messages [OF live(4)]] enqueued_run(2) [OF live(9)]
  show ?thesis by simp
qed (use assms(2) in simp_all)

text \<open>C40: The metadata of every run stays a dictionary: through any request at either door, through
  any command a run's handlers execute on it, and through the sweeps that fail runs.\<close>

theorem run_metadata_stay_dictionaries:
  assumes "runs_typed (w_db w)"
  shows "runs_typed (w_db (fst (door D ck ids agent req w)))
    \<and> runs_typed (w_db (handle L now fresh a cmd w))
    \<and> runs_typed (fst (fail_runs now p reason (w_db w)))"
proof -
  obtain w1 r1 where d: "door D ck ids agent req w = (w1, r1)" by (cases "door D ck ids agent req w")
  have "runs_typed (w_db w1)" by (rule typed_step [OF door_is_a_step [OF d] assms])
  moreover have "runs_typed (w_db (handle L now fresh a cmd w))" by (rule typed_handle [OF assms])
  moreover have "runs_typed (fst (fail_runs now p reason (w_db w)))"
    unfolding fail_runs_def using assms by (intro typed_fail_rows) (auto simp: runs_typed_def)
  ultimately show ?thesis using d by simp
qed

lemma run_metadata_stay_dictionaries_witness:
  "runs_typed (w_db (fst (door door_deployment door_clock door_ids demo_ref a2a_request unserved_core)))"
proof -
  have "runs_typed (w_db unserved_core)" using door_db_ok(2) by (simp add: unserved_core_def)
  from run_metadata_stay_dictionaries [OF this, where D = door_deployment and ck = door_clock and ids = door_ids
      and agent = demo_ref and req = a2a_request] show ?thesis by blast
qed

end
