(* ===== verification/LinkSession.thy ===== *)
theory LinkSession
  imports SdkClaims CoreClaims RelayClaims
begin

text \<open>
  A provider runtime and the funduq it is linked to in one process, seen from one run: the agent's
  stream, the runtime's output queue, the link (\<open>funduq_provider_sdk/inprocess.py\<close>), the facade's
  \<open>report_event\<close> and \<open>finish_run\<close>, the run's command queue and its pipeline, up to the event log and
  the queue its subscribers read.
\<close>

subsection \<open>The link's reports\<close>

definition link_report_event :: "int \<Rightarrow> string \<Rightarrow> string \<Rightarrow> pyval \<Rightarrow> 'z world_scheme \<Rightarrow> 'z world_scheme" where
  "link_report_event now public_key run_id event w = snd (report_event now run_id event public_key w)"

definition link_finish_run :: "int \<Rightarrow> string \<Rightarrow> string \<Rightarrow> 'z world_scheme \<Rightarrow> 'z world_scheme" where
  "link_finish_run now public_key run_id w = snd (finish_run now run_id public_key w)"

definition link_tell :: "int \<Rightarrow> string \<Rightarrow> string \<times> pyval option \<Rightarrow> 'z world_scheme \<Rightarrow> 'z world_scheme" where
  "link_tell now public_key item w =
     (case snd item of
        Some event \<Rightarrow> link_report_event now public_key (fst item) event w
      | None \<Rightarrow> link_finish_run now public_key (fst item) w)"

subsection \<open>The two sides together\<close>

text \<open>What funduq does besides may happen at any point, as long as it does not concern this run: other
  runs and their tasks, registrations, connections, the sweep offering other runs.\<close>

definition undisturbed :: "string \<Rightarrow> address \<Rightarrow> 'z world_scheme \<Rightarrow> 'z world_scheme \<Rightarrow> bool" where
  "undisturbed i a w w' \<longleftrightarrow> run_at w' a = run_at w a \<and> a < length (b_objs (w_broker w')) \<and>
     (\<forall>j. dget (b_runs (w_broker w')) j = Some a \<longleftrightarrow> dget (b_runs (w_broker w)) j = Some a) \<and>
     filter (\<lambda>r. ev_run_id r = i) (db_events (w_db w')) = filter (\<lambda>r. ev_run_id r = i) (db_events (w_db w)) \<and>
     (i \<in> run_ids (w_db w') \<longleftrightarrow> i \<in> run_ids (w_db w))"

text \<open>The pipeline of the run works while the run is tracked: it is what ends the tracking.\<close>

inductive session_step :: "agui_lib \<Rightarrow> string \<Rightarrow> address \<Rightarrow> string \<Rightarrow> 'i runtime \<times> core \<Rightarrow> 'i runtime \<times> core \<Rightarrow> bool"
  for L :: agui_lib and i :: string and a :: address and key :: string
where
  ss_runtime: "rt_step rt rt' \<Longrightarrow> rt_sent rt' = rt_sent rt \<Longrightarrow> session_step L i a key (rt, w) (rt', w)"
| ss_report: "rt_running rt \<Longrightarrow> rt_output rt = item # items \<Longrightarrow>
    session_step L i a key (rt, w) (report_output rt, link_tell now key item w)"
| ss_pipeline: "dget (b_runs (w_broker w)) i = Some a \<Longrightarrow> r_in_queue (run_at w a) \<noteq> [] \<Longrightarrow>
    session_step L i a key (rt, w) (rt, core_pipeline_turn L now fresh a w)"
| ss_other: "undisturbed i a w w' \<Longrightarrow> session_step L i a key (rt, w) (rt, w')"

text \<open>The run as the provider has just accepted it: held under its key, its claim perhaps not handled yet,
  nothing of it said.\<close>

definition session_start :: "string \<Rightarrow> address \<Rightarrow> string \<Rightarrow> 'i runtime \<times> core \<Rightarrow> bool" where
  "session_start i a key st \<longleftrightarrow>
     (let rt = fst st; w = snd st in
      reach rt_init rt_step rt \<and> items_of_run i rt = [] \<and>
      a < length (b_objs (w_broker w)) \<and> (\<forall>j. dget (b_runs (w_broker w)) j = Some a \<longleftrightarrow> j = i) \<and>
      r_run_id (run_at w a) = i \<and> r_claimed_by (run_at w a) = Some key \<and>
      r_in_queue (run_at w a) \<in> {[], [Claim]} \<and> i \<in> run_ids (w_db w) \<and>
      0 \<le> get_last_event_seq (w_db w) i \<and> get_last_event_seq (w_db w) i \<le> r_seq (run_at w a))"

text \<open>What the link was told of a run.\<close>

definition told :: "string \<Rightarrow> 'i runtime \<Rightarrow> (string \<times> pyval option) list" where
  "told i rt = filter (\<lambda>x. fst x = i) (rt_sent rt)"

definition items :: "string \<Rightarrow> pyval list \<Rightarrow> bool \<Rightarrow> (string \<times> pyval option) list" where
  "items i es ended = map (\<lambda>e. (i, Some e)) es @ (if ended then [(i, None)] else [])"

definition open_run :: "string \<Rightarrow> address \<Rightarrow> string \<Rightarrow> 'z world_scheme \<Rightarrow> bool" where
  "open_run i a key w \<longleftrightarrow> a < length (b_objs (w_broker w)) \<and>
     (\<forall>j. dget (b_runs (w_broker w)) j = Some a \<longleftrightarrow> j = i) \<and> r_run_id (run_at w a) = i \<and>
     r_claimed_by (run_at w a) = Some key \<and> i \<in> run_ids (w_db w)"

lemma undisturbed_open: "undisturbed i a w w' \<Longrightarrow> open_run i a key w \<Longrightarrow> open_run i a key w'"
  by (simp add: undisturbed_def open_run_def)

lemma undisturbed_log:
  assumes "undisturbed i a w w'"
  shows "get_run_events (w_db w') i n = get_run_events (w_db w) i n"
    and "get_last_event_seq (w_db w') i = get_last_event_seq (w_db w) i"
proof -
  have f: "filter (\<lambda>r. ev_run_id r = i) (db_events (w_db w')) = filter (\<lambda>r. ev_run_id r = i) (db_events (w_db w))"
    using assms by (simp add: undisturbed_def)
  have g: "filter (\<lambda>r. ev_run_id r = i \<and> n < ev_seq r) es = filter (\<lambda>r. n < ev_seq r) (filter (\<lambda>r. ev_run_id r = i) es)"
    for es by (simp add: conj_commute)
  show "get_run_events (w_db w') i n = get_run_events (w_db w) i n" by (simp only: get_run_events_def g f)
  show "get_last_event_seq (w_db w') i = get_last_event_seq (w_db w) i" by (simp only: get_last_event_seq_def f)
qed

lemma undisturbed_relayed:
  "undisturbed i a w w' \<Longrightarrow> r_run_id (run_at w a) = i \<Longrightarrow> relayed a es w0 w \<Longrightarrow> relayed a es w0 w'"
  using undisturbed_log [of i a w w'] by (auto simp: relayed_def in_step_def) (simp_all add: undisturbed_def)

subsection \<open>What a report does\<close>

lemma obj_upd_other: "x \<noteq> a \<Longrightarrow> obj (upd_obj x f b) a = obj b a"
  by (simp add: obj_def upd_obj_def)

lemma push_plain:
  "dget (b_runs b) j = Some x \<Longrightarrow> \<not> is_fail c \<Longrightarrow> push now j c b = (True, put_cmd x c b)"
  by (simp add: push_def split: option.split)

lemma link_tell_own:
  assumes "open_run i a key w"
  shows "link_tell now key (i, ev) w =
    upd_run a (\<lambda>r. r\<lparr>r_in_queue := r_in_queue r @ [case ev of Some e \<Rightarrow> RelayEvent e | None \<Rightarrow> FinishStream]\<rparr>) w"
proof -
  have t: "dget (b_runs (w_broker w)) i = Some a" and h: "r_claimed_by (obj (w_broker w) a) = Some key"
    using assms by (simp_all add: open_run_def run_at_def)
  show ?thesis
    by (cases ev) (simp_all add: link_tell_def link_report_event_def link_finish_run_def report_event_def finish_run_def
        get_run_snapshot_def t snapshot_def h broker_push_def push_plain upd_run_def put_cmd_def)
qed

lemma push_other:
  assumes "dget (b_runs b) j \<noteq> Some a" "a < length (b_objs b)"
  shows "obj (snd (push now j c b)) a = obj b a" "a < length (b_objs (snd (push now j c b)))"
    "b_runs (snd (push now j c b)) = b_runs b"
  using assms by (auto simp: push_def put_cmd_def obj_upd_other split: option.split)

lemma late_ack_other:
  assumes "dget (b_runs b) j \<noteq> Some a" "a < length (b_objs b)"
  shows "obj (snd (accept_late_ack now j key b)) a = obj b a" "a < length (b_objs (snd (accept_late_ack now j key b)))"
    "b_runs (snd (accept_late_ack now j key b)) = b_runs b"
  using assms by (auto simp: accept_late_ack_def claim_run_def Let_def put_cmd_def obj_upd_other split: option.split)

lemma link_tell_other:
  assumes "dget (b_runs (w_broker w)) (fst item) \<noteq> Some a" "a < length (b_objs (w_broker w))"
  shows "undisturbed i a w (link_tell now key item w)"
proof -
  note l = late_ack_other [OF assms]
  obtain j ev where item: "item = (j, ev)" by (cases item)
  have "w_db (link_tell now key item w) = w_db w \<and> run_at (link_tell now key item w) a = run_at w a \<and>
      a < length (b_objs (w_broker (link_tell now key item w))) \<and>
      b_runs (w_broker (link_tell now key item w)) = b_runs (w_broker w)"
    using assms l unfolding item
    by (auto simp: link_tell_def link_report_event_def link_finish_run_def report_event_def finish_run_def
        with_broker_def broker_push_def run_at_def push_other case_prod_beta Let_def split: option.split)
  then show ?thesis by (simp add: undisturbed_def)
qed

subsection \<open>What the pipeline does\<close>

lemma core_turn:
  "w_db (core_pipeline_turn L now fresh a w) = w_db (pipeline_turn L now fresh a w)"
  "w_broker (core_pipeline_turn L now fresh a w) = w_broker (pipeline_turn L now fresh a w)"
  by (simp_all add: core_pipeline_turn_def with_forget_listener_def Let_def)

lemma run_ids_update:
  assumes "\<And>r. rn_run_id (f r) = rn_run_id r"
  shows "run_ids (d\<lparr>db_runs := update_where p f (db_runs d)\<rparr>) = run_ids d"
proof -
  have "map rn_run_id (update_where p f (db_runs d)) = map rn_run_id (db_runs d)"
    by (rule map_update_where) (rule assms)
  then have "set (map rn_run_id (update_where p f (db_runs d))) = set (map rn_run_id (db_runs d))" by (rule arg_cong)
  then show ?thesis by (simp add: run_ids_def)
qed

lemma run_id_stamp_status [simp]: "rn_run_id (stamp_status now s r) = rn_run_id r"
  by (simp add: stamp_status_def Let_def)

lemma run_ids_mark_run_status: "mark_run_status now i s md d = Inr (d', ok) \<Longrightarrow> run_ids d' = run_ids d"
  by (auto simp: mark_run_status_def Let_def run_ids_update split: option.splits if_splits)

lemma run_ids_mark_status: "run_ids (w_db (fst (mark_status now i s md w))) = run_ids (w_db w)"
  by (auto simp: mark_status_def notify_change_def Let_def split: sum.split prod.split dest: run_ids_mark_run_status)

definition same_place :: "address \<Rightarrow> 'z world_scheme \<Rightarrow> 'z world_scheme \<Rightarrow> bool" where
  "same_place a w w' \<longleftrightarrow> length (b_objs (w_broker w')) = length (b_objs (w_broker w)) \<and>
     b_runs (w_broker w') = b_runs (w_broker w) \<and> run_ids (w_db w') = run_ids (w_db w) \<and>
     r_run_id (run_at w' a) = r_run_id (run_at w a) \<and> r_claimed_by (run_at w' a) = r_claimed_by (run_at w a) \<and>
     r_in_queue (run_at w' a) = r_in_queue (run_at w a)"

lemma same_place_open: "same_place a w w' \<Longrightarrow> open_run i a key w \<Longrightarrow> open_run i a key w'"
  by (simp add: same_place_def open_run_def)

lemma claim_in_place: "same_place a w (handle_claim now a w)"
  by (simp add: same_place_def handle_claim_def run_at_def run_ids_mark_status)

lemma relay_in_place:
  assumes "in_step a w" "r_run_id (run_at w a) \<in> run_ids (w_db w)" "proper_event L e"
  shows "same_place a w (handle_relay L now a e w) \<and> relayed a [e] w (handle_relay L now a e w)"
proof -
  let ?n = "next_seq a (upd_run a (note_event e) w)"
  have a: "a < length (b_objs (w_broker w))" using assms(1) by (simp add: in_step_def)
  have noted: "r_run_id (note_event e r) = r_run_id r \<and> r_claimed_by (note_event e r) = r_claimed_by r
      \<and> r_in_queue (note_event e r) = r_in_queue r" for r
    by (simp add: note_event_def Let_def split: option.split)
  have n: "same_place a w ?n" "w_db ?n = w_db w"
    using a by (simp_all add: same_place_def next_seq_def upd_run_def run_at_def obj_upd_obj noted)
  then obtain d where d: "append_run_event now (r_run_id (run_at ?n a)) (r_seq (run_at ?n a)) e (w_db ?n) = Inr d"
    using assms(2) by (simp add: append_run_event_def insert_event_def same_place_def)
  then have st: "store_event now a e ?n = Inr (?n\<lparr>w_db := d\<rparr>)" by (simp add: store_event_def)
  have ids: "run_ids d = run_ids (w_db w)"
    using d n(2) by (auto simp: append_run_event_def insert_event_def run_ids_def split: if_splits)
  let ?w2 = "?n\<lparr>w_db := d\<rparr>"
  have h: "handle_relay L now a e w =
      relay_out a e (?w2\<lparr>w_db := touch_run_activity now (r_run_id (run_at ?w2 a)) (w_db ?w2)\<rparr>)"
    using assms(3) st by (auto simp: handle_relay_def proper_event_def Let_def)
  have t: "run_ids (touch_run_activity now j d) = run_ids d" for j
    unfolding touch_run_activity_def by (rule run_ids_update) simp
  have "relayed a [e] w (handle_relay L now a e w)" unfolding h by (rule relayed_stored [OF assms(1) st])
  moreover have "same_place a w (handle_relay L now a e w)"
    using n(1) a unfolding h by (simp add: same_place_def relay_out_def put_out_def run_at_def obj_upd_obj t ids)
  ultimately show ?thesis by simp
qed

lemma turn_claim:
  assumes "in_step a w" "r_in_queue (run_at w a) = Claim # cmds"
  shows "relayed a [] w (pipeline_turn L now fresh a w)"
    and "open_run i a key w \<Longrightarrow> open_run i a key (pipeline_turn L now fresh a w)"
    and "r_in_queue (run_at (pipeline_turn L now fresh a w) a) = cmds"
proof -
  let ?q = "upd_run a (\<lambda>r. r\<lparr>r_in_queue := cmds\<rparr>) w"
  have a: "a < length (b_objs (w_broker w))" using assms(1) by (simp add: in_step_def)
  have t: "pipeline_turn L now fresh a w = handle_claim now a ?q"
    using assms(2) by (simp add: pipeline_turn_def pipeline_stops_def Let_def)
  have q: "relayed a [] w ?q" by (rule relayed_upd [OF assms(1)]) (simp add: seen_of_def)
  show "relayed a [] w (pipeline_turn L now fresh a w)"
    using relayed_trans [OF q relayed_mark [OF in_step_relayed [OF q]]] unfolding t handle_claim_def by simp
  show "r_in_queue (run_at (pipeline_turn L now fresh a w) a) = cmds"
    using claim_in_place [of a ?q now] a unfolding t by (simp add: same_place_def upd_run_def run_at_def obj_upd_obj)
  show "open_run i a key (pipeline_turn L now fresh a w)" if "open_run i a key w"
  proof -
    have "open_run i a key ?q" using that a by (simp add: open_run_def upd_run_def run_at_def obj_upd_obj)
    then show ?thesis using same_place_open [OF claim_in_place] unfolding t by blast
  qed
qed

lemma turn_relay:
  assumes "in_step a w" "r_in_queue (run_at w a) = RelayEvent e # cmds" "open_run i a key w" "proper_event L e"
  shows "relayed a [e] w (pipeline_turn L now fresh a w)" "open_run i a key (pipeline_turn L now fresh a w)"
    "r_in_queue (run_at (pipeline_turn L now fresh a w) a) = cmds"
proof -
  let ?q = "upd_run a (\<lambda>r. r\<lparr>r_in_queue := cmds\<rparr>) w"
  have a: "a < length (b_objs (w_broker w))" using assms(1) by (simp add: in_step_def)
  have t: "pipeline_turn L now fresh a w = handle_relay L now a e ?q"
    using assms(2) by (simp add: pipeline_turn_def pipeline_stops_def Let_def)
  have q: "relayed a [] w ?q" by (rule relayed_upd [OF assms(1)]) (simp add: seen_of_def)
  have o: "open_run i a key ?q" using assms(3) a by (simp add: open_run_def upd_run_def run_at_def obj_upd_obj)
  then have known: "r_run_id (run_at ?q a) \<in> run_ids (w_db ?q)" by (simp add: open_run_def)
  note h = relay_in_place [OF in_step_relayed [OF q] known assms(4), of now]
  show "relayed a [e] w (pipeline_turn L now fresh a w)" using relayed_trans [OF q] h unfolding t by fastforce
  show "open_run i a key (pipeline_turn L now fresh a w)" using same_place_open [OF _ o] h unfolding t by blast
  show "r_in_queue (run_at (pipeline_turn L now fresh a w) a) = cmds"
    using h a unfolding t by (simp add: same_place_def upd_run_def run_at_def obj_upd_obj)
qed

text \<open>The last turn: the stream is settled, perhaps with an error event, and the run is forgotten.\<close>

lemma turn_finish:
  assumes "in_step a w" "r_in_queue (run_at w a) = FinishStream # cmds" "open_run i a key w"
  shows "\<exists>es w1. (es = [] \<or> es = [unfinished_error]) \<and> relayed a es w w1 \<and>
      w_db (pipeline_turn L now fresh a w) = w_db w1 \<and>
      r_out_queue (run_at (pipeline_turn L now fresh a w) a) = r_out_queue (run_at w1 a) @ [EndOfStream] \<and>
      (\<forall>j. dget (b_runs (w_broker (pipeline_turn L now fresh a w))) j \<noteq> Some a) \<and>
      a < length (b_objs (w_broker (pipeline_turn L now fresh a w)))"
proof -
  let ?q = "upd_run a (\<lambda>r. r\<lparr>r_in_queue := cmds\<rparr>) w"
  let ?w1 = "handle_finish now fresh a ?q"
  have a: "a < length (b_objs (w_broker w))" using assms(1) by (simp add: in_step_def)
  have t: "pipeline_turn L now fresh a w = end_task a (PipelineTask a ()) ?w1"
    using assms(2) by (simp add: pipeline_turn_def pipeline_stops_def Let_def)
  have q: "relayed a [] w ?q" by (rule relayed_upd [OF assms(1)]) (simp add: seen_of_def)
  obtain es where es: "es = [] \<or> es = [unfinished_error]" "relayed a es ?q ?w1"
    using relayed_handle_finish [OF in_step_relayed [OF q]] by blast
  have w1: "relayed a es w ?w1" using relayed_trans [OF q es(2)] by simp
  have "handler_effect a (w_broker w) (w_broker ?w1)"
    by (rule effect_finish) (simp add: broker_upd_run eff_write eff_none standing_def)
  note f = effect_frame [OF this]
  let ?b = "(w_broker ?w1)\<lparr>b_tasks := remove1 (PipelineTask a ()) (b_tasks (w_broker ?w1))\<rparr>"
  have "r_run_id (obj ?b a) = i" using f assms(3) by (simp add: open_run_def run_at_def obj_def)
  then have runs: "b_runs (end_run a ?b) = dpop i (b_runs (w_broker w))" using f by (simp add: end_run_frame)
  have al: "a < length (b_objs ?b)" using f a by simp
  have objs: "b_objs (end_run a ?b) = b_objs (put_out a EndOfStream ?b)" for b :: "unit broker"
    by (simp add: end_run_def forget_def Let_def release_capacity_def split: option.split)
  show ?thesis
    by (intro exI [of _ es] exI [of _ ?w1] conjI es(1) w1)
      (use runs al assms(3) in \<open>auto simp: t end_task_def run_at_def obj_def objs put_out_def upd_obj_def open_run_def split: if_splits\<close>)
qed

end
