(* ===== verification/LinkClaims.thy ===== *)
theory LinkClaims
  imports LinkSession
begin

text \<open>
  From the agent to the log: through the runtime, the link, the facade and the run's pipeline every
  event arrives once and in order, whatever else happens in between.
\<close>

subsection \<open>The invariant of a session\<close>

text \<open>While the run is open, what the link was told is what was relayed and then what waits in the run's
  command queue; once it is closed, all of it was relayed.\<close>

definition session_open :: "string \<Rightarrow> address \<Rightarrow> string \<Rightarrow> core \<Rightarrow> 'i runtime \<times> core \<Rightarrow> bool" where
  "session_open i a key w0 st \<longleftrightarrow>
     (\<exists>es pre ahead ended. relayed a es w0 (snd st) \<and> open_run i a key (snd st) \<and> (pre = [] \<or> pre = [Claim]) \<and>
        r_in_queue (run_at (snd st) a) = pre @ map RelayEvent ahead @ (if ended then [FinishStream] else []) \<and>
        told i (fst st) = items i (es @ ahead) ended)"

lemma session_openI:
  "relayed a es w0 w \<Longrightarrow> open_run i a key w \<Longrightarrow> pre = [] \<or> pre = [Claim] \<Longrightarrow>
     r_in_queue (run_at w a) = pre @ map RelayEvent ahead @ (if ended then [FinishStream] else []) \<Longrightarrow>
     told i rt = items i (es @ ahead) ended \<Longrightarrow> session_open i a key w0 (rt, w)"
  unfolding session_open_def fst_conv snd_conv by blast

definition session_closed :: "string \<Rightarrow> address \<Rightarrow> core \<Rightarrow> 'i runtime \<times> core \<Rightarrow> bool" where
  "session_closed i a w0 st \<longleftrightarrow>
     (\<exists>es tail. (tail = [] \<or> tail = [unfinished_error]) \<and> told i (fst st) = items i es True \<and>
        r_out_queue (run_at (snd st) a) = r_out_queue (run_at w0 a) @ map OutEvent (es @ tail) @ [EndOfStream] \<and>
        (\<forall>n \<le> r_seq (run_at w0 a). get_run_events (w_db (snd st)) i n = get_run_events (w_db w0) i n @ es @ tail) \<and>
        (\<forall>j. dget (b_runs (w_broker (snd st))) j \<noteq> Some a) \<and> a < length (b_objs (w_broker (snd st))))"

definition session_ok :: "string \<Rightarrow> address \<Rightarrow> string \<Rightarrow> core \<Rightarrow> 'i runtime \<times> core \<Rightarrow> bool" where
  "session_ok i a key w0 st \<longleftrightarrow> runtime_ok (fst st) \<and> r_run_id (run_at w0 a) = i \<and>
     (session_open i a key w0 st \<or> session_closed i a w0 st)"

lemma told_report:
  "rt_linked rt \<Longrightarrow> rt_output rt = item # rest \<Longrightarrow>
     told i (report_output rt) = told i rt @ (if fst item = i then [item] else [])"
  by (simp add: told_def report_output_def)

lemma told_well_finished: "runtime_ok rt \<Longrightarrow> well_finished (told i rt)"
  unfolding runtime_ok_def items_of_run_def told_def by (metis filter_append well_finished_prefix)

lemma items_snoc:
  "items i es False @ [(i, Some e)] = items i (es @ [e]) False" "items i es False @ [(i, None)] = items i es True"
  by (simp_all add: items_def)

text \<open>Nothing of the run follows its finish.\<close>

lemma nothing_after_finish: "\<not> well_finished (items i es True @ [(i, ev)])"
  by (auto simp: well_finished_def items_def unfinished_def)

lemma closed_undisturbed:
  assumes "session_closed i a w0 (rt, w)" "undisturbed i a w w'" "told i rt' = told i rt"
  shows "session_closed i a w0 (rt', w')"
  using assms undisturbed_log(1) [OF assms(2)] by (simp add: session_closed_def undisturbed_def) blast

lemma open_undisturbed:
  assumes "session_open i a key w0 (rt, w)" "undisturbed i a w w'" "told i rt' = told i rt"
  shows "session_open i a key w0 (rt', w')"
proof -
  have "r_run_id (run_at w a) = i" using assms(1) by (auto simp: session_open_def open_run_def)
  note u = undisturbed_relayed [OF assms(2) this] undisturbed_open [OF assms(2)]
  have "run_at w' a = run_at w a" using assms(2) by (simp add: undisturbed_def)
  with assms(1,3) u show ?thesis unfolding session_open_def fst_conv snd_conv by metis
qed

lemma undisturbed_refl: "a < length (b_objs (w_broker w)) \<Longrightarrow> undisturbed i a w w"
  by (simp add: undisturbed_def)

lemma session_place: "session_ok i a key w0 (rt, w) \<Longrightarrow> a < length (b_objs (w_broker w))"
  by (auto simp: session_ok_def session_open_def session_closed_def open_run_def)

subsection \<open>Every step keeps it\<close>

lemma report_keeps:
  assumes ok: "session_ok i a key w0 (rt, w)" and o: "rt_output rt = item # rest"
  shows "session_ok i a key w0 (report_output rt, link_tell now key item w)"
proof -
  let ?rt = "report_output rt" and ?w = "link_tell now key item w"
  have "runtime_ok rt" using ok by (simp add: session_ok_def)
  then have rt: "runtime_ok ?rt" "rt_linked rt" by (rule ok_report) (simp add: \<open>runtime_ok rt\<close> [unfolded runtime_ok_def])
  note told = told_report [OF rt(2) o, of i]
  have a: "a < length (b_objs (w_broker w))" by (rule session_place [OF ok])
  show ?thesis
  proof (cases "fst item = i")
    case False
    then have t: "told i ?rt = told i rt" using told by simp
    have "dget (b_runs (w_broker w)) (fst item) \<noteq> Some a"
      using ok False by (auto simp: session_ok_def session_open_def session_closed_def open_run_def)
    note u = link_tell_other [OF this a, of i now key]
    show ?thesis
      using ok rt(1) open_undisturbed [OF _ u t] closed_undisturbed [OF _ u t] unfolding session_ok_def by auto
  next
    case True
    then obtain ev where item: "item = (i, ev)" by (cases item) auto
    have t: "told i ?rt = told i rt @ [(i, ev)]" using told by (simp add: item)
    have wf: "well_finished (told i rt @ [(i, ev)])" using told_well_finished [OF rt(1), of i] unfolding t .
    from ok wf have "session_open i a key w0 (rt, w)"
      by (auto simp: session_ok_def session_closed_def nothing_after_finish)
    then obtain es pre ahead ended where h: "relayed a es w0 w" "open_run i a key w" "pre = [] \<or> pre = [Claim]"
        "r_in_queue (run_at w a) = pre @ map RelayEvent ahead @ (if ended then [FinishStream] else [])"
        "told i rt = items i (es @ ahead) ended"
      by (auto simp: session_open_def)
    have e: "\<not> ended" using wf h(5) nothing_after_finish by (cases ended) auto
    let ?c = "case ev of Some e \<Rightarrow> RelayEvent e | None \<Rightarrow> FinishStream"
    have w: "?w = upd_run a (\<lambda>r. r\<lparr>r_in_queue := r_in_queue r @ [?c]\<rparr>) w"
      unfolding item by (rule link_tell_own [OF h(2)])
    have "relayed a [] w ?w" unfolding w
      by (rule relayed_upd [OF in_step_relayed [OF h(1)]]) (simp add: seen_of_def)
    from relayed_trans [OF h(1) this] have r: "relayed a es w0 ?w" by simp
    have op: "open_run i a key ?w" using h(2) a unfolding w by (simp add: open_run_def upd_run_def run_at_def obj_upd_obj)
    have q: "r_in_queue (run_at ?w a) = pre @ map RelayEvent ahead @ [?c]"
      using h(4) e a unfolding w by (simp add: upd_run_def run_at_def obj_upd_obj)
    have "session_open i a key w0 (?rt, ?w)"
    proof (cases ev)
      case None
      with h(5) q t e show ?thesis
        by (intro session_openI [OF r op h(3), of ahead True]) (simp_all add: items_snoc)
    next
      case (Some e')
      with h(5) q t e show ?thesis
        by (intro session_openI [OF r op h(3), of "ahead @ [e']" False]) (simp_all add: items_snoc flip: append_assoc)
    qed
    with ok rt(1) show ?thesis by (simp add: session_ok_def)
  qed
qed

lemma pipeline_keeps:
  assumes ok: "session_ok i a key w0 (rt, w)" and tracked: "dget (b_runs (w_broker w)) i = Some a"
    and q: "r_in_queue (run_at w a) \<noteq> []" and proper: "\<forall>e. (i, Some e) \<in> set (rt_sent rt) \<longrightarrow> proper_event L e"
  shows "session_ok i a key w0 (rt, core_pipeline_turn L now fresh a w)"
proof -
  let ?w = "pipeline_turn L now fresh a w" and ?c = "core_pipeline_turn L now fresh a w"
  have same: "relayed a es v ?c = relayed a es v ?w" "open_run i a key ?c = open_run i a key ?w"
      "run_at ?c a = run_at ?w a" for es and v :: core
    by (simp_all add: relayed_def in_step_def open_run_def run_at_def core_turn)
  from ok tracked have "session_open i a key w0 (rt, w)" by (auto simp: session_ok_def session_closed_def)
  then obtain es pre ahead ended where h: "relayed a es w0 w" "open_run i a key w" "pre = [] \<or> pre = [Claim]"
      "r_in_queue (run_at w a) = pre @ map RelayEvent ahead @ (if ended then [FinishStream] else [])"
      "told i rt = items i (es @ ahead) ended"
    by (auto simp: session_open_def)
  note s = in_step_relayed [OF h(1)]
  consider (claim) "pre = [Claim]" | (event) e rest where "pre = []" "ahead = e # rest"
    | (finish) "pre = []" "ahead = []" "ended"
    using h(3,4) q by (cases ahead) (auto split: if_splits)
  then have "session_open i a key w0 (rt, ?c) \<or> session_closed i a w0 (rt, ?c)"
  proof cases
    case claim
    then have c: "r_in_queue (run_at w a) = Claim # (map RelayEvent ahead @ (if ended then [FinishStream] else []))"
      using h(4) by simp
    note t = turn_claim [OF s c, where L = L and now = now and fresh = fresh]
    have "relayed a es w0 ?w" using relayed_trans [OF h(1) t(1)] by simp
    then have "session_open i a key w0 (rt, ?c)"
      using t(2) [OF h(2)] t(3) h(5) by (intro session_openI [of a es _ _ _ _ "[]" ahead ended]) (simp_all add: same)
    then show ?thesis ..
  next
    case event
    have "(i, Some e) \<in> set (told i rt)" unfolding h(5) event by (simp add: items_def)
    then have e: "proper_event L e" using proper by (simp add: told_def)
    have c: "r_in_queue (run_at w a) = RelayEvent e # (map RelayEvent rest @ (if ended then [FinishStream] else []))"
      using h(4) event by simp
    note t = turn_relay [OF s c h(2) e, where now = now and fresh = fresh]
    have "relayed a (es @ [e]) w0 ?w" by (rule relayed_trans [OF h(1) t(1)])
    moreover have "told i rt = items i ((es @ [e]) @ rest) ended" using h(5) event by simp
    ultimately have "session_open i a key w0 (rt, ?c)"
      using t(2,3) by (intro session_openI [of a "es @ [e]" _ _ _ _ "[]" rest ended]) (simp_all add: same)
    then show ?thesis ..
  next
    case finish
    have c: "r_in_queue (run_at w a) = FinishStream # []" using h(4) finish by simp
    from turn_finish [OF s c h(2), where L = L and now = now and fresh = fresh] obtain tail w1 where
      t: "tail = [] \<or> tail = [unfinished_error]" "relayed a tail w w1" "w_db ?w = w_db w1"
        "r_out_queue (run_at ?w a) = r_out_queue (run_at w1 a) @ [EndOfStream]"
        "\<forall>j. dget (b_runs (w_broker ?w)) j \<noteq> Some a" "a < length (b_objs (w_broker ?w))" by blast
    have r: "relayed a (es @ tail) w0 w1" by (rule relayed_trans [OF h(1) t(2)])
    have "r_run_id (run_at w0 a) = i" using ok by (simp add: session_ok_def)
    with r t h(5) finish have "session_closed i a w0 (rt, ?c)"
      unfolding session_closed_def fst_conv snd_conv same core_turn
      by (intro exI [of _ es] exI [of _ tail]) (simp add: relayed_def)
    then show ?thesis ..
  qed
  with ok show ?thesis by (simp add: session_ok_def)
qed

lemma step_keeps:
  assumes "session_step L i a key st st'" "session_ok i a key w0 st"
    and "\<forall>e. (i, Some e) \<in> set (rt_sent (fst st)) \<longrightarrow> proper_event L e"
  shows "session_ok i a key w0 st'"
  using assms(1)
proof cases
  case (ss_runtime rt rt' w)
  then have t: "told i rt' = told i rt" by (simp add: told_def)
  have a: "undisturbed i a w w" using assms(2) session_place undisturbed_refl unfolding ss_runtime by blast
  have "runtime_ok rt'"
    by (rule ok_rt_step [OF ss_runtime(3)]) (use assms(2) in \<open>simp add: session_ok_def ss_runtime(1)\<close>)
  then show ?thesis
    using assms(2) open_undisturbed [OF _ a t] closed_undisturbed [OF _ a t] unfolding ss_runtime session_ok_def by auto
next
  case (ss_report rt item rest w now)
  with assms(2) show ?thesis using report_keeps by blast
next
  case (ss_pipeline w rt now fresh)
  with assms(2,3) show ?thesis using pipeline_keeps by fastforce
next
  case (ss_other w w' rt)
  with assms(2) show ?thesis
    using open_undisturbed [OF _ ss_other(3), where rt = rt and rt' = rt]
      closed_undisturbed [OF _ ss_other(3), where rt = rt and rt' = rt]
    unfolding ss_other session_ok_def by auto
qed

lemma start_ok: "session_start i a key st \<Longrightarrow> session_ok i a key (snd st) st"
proof -
  assume s: "session_start i a key st"
  then have "runtime_ok (fst st)" using runtime.holds by (auto simp: session_start_def Let_def)
  moreover have "told i (fst st) = items i ([] @ []) False"
    using s by (simp add: session_start_def Let_def told_def items_of_run_def items_def)
  moreover have "relayed a [] (snd st) (snd st)"
    using s by (intro relayed_refl) (simp add: session_start_def Let_def in_step_def)
  moreover have "\<exists>pre. (pre = [] \<or> pre = [Claim]) \<and> r_in_queue (run_at (snd st) a) =
      pre @ map RelayEvent [] @ (if False then [FinishStream] else [])"
    using s by (auto simp: session_start_def Let_def)
  moreover have "open_run i a key (snd st)" "r_run_id (run_at (snd st) a) = i"
    using s by (simp_all add: session_start_def Let_def open_run_def)
  ultimately show ?thesis
    unfolding session_ok_def session_open_def by blast
qed

lemma sent_grows: "session_step L i a key st st' \<Longrightarrow> set (rt_sent (fst st)) \<subseteq> set (rt_sent (fst st'))"
  by (erule session_step.cases) (auto simp: report_output_def)

lemma session_keeps:
  assumes "(session_step L i a key)\<^sup>*\<^sup>* st st'" "session_start i a key st"
    and "\<forall>e. (i, Some e) \<in> set (rt_sent (fst st')) \<longrightarrow> proper_event L e"
  shows "session_ok i a key (snd st) st'"
  using assms(1,3)
proof (induction rule: rtranclp_induct)
  case base
  show ?case by (rule start_ok [OF assms(2)])
next
  case (step y z)
  then have "\<forall>e. (i, Some e) \<in> set (rt_sent (fst y)) \<longrightarrow> proper_event L e" using sent_grows by blast
  with step show ?case using step_keeps by blast
qed


subsection \<open>A demonstration\<close>

text \<open>A run whose agent says one thing and ends: the session from its acceptance to its end.\<close>

definition heard_event :: pyval where
  "heard_event = PDict [(''type'', PStr ''RUN_FINISHED'')]"

definition heard_start :: core where
  "heard_start = \<lparr>w_db = demo_run, w_broker = demo_claimed, w_changes = [], w_cancels = [],
     c_relay = c_relay demo_core, c_challenges = [], c_started = True, c_sweeping = True\<rparr>"

definition heard_running :: "unit runtime" where
  "heard_running = start_task (hd (rt_tasks demo_spawned)) demo_spawned"

definition heard_said :: "unit runtime" where
  "heard_said = emit (hd (rt_tasks heard_running)) heard_event heard_running"

definition heard_ended :: "unit runtime" where
  "heard_ended = end_task_run (hd (rt_tasks (report_output heard_said))) (report_output heard_said)"

definition heard_told :: core where
  "heard_told = link_tell 6 ''k'' (''r1'', None) (link_tell 5 ''k'' (''r1'', Some heard_event) heard_start)"

definition heard_turn :: "core \<Rightarrow> core" where
  "heard_turn = core_pipeline_turn demo_lib 7 (\<lambda>n. ''m'') 0"

lemma heard_world:
  "b_runs (w_broker heard_start) = [(''r1'', 0)]" "length (b_objs (w_broker heard_start)) = 1"
  "r_run_id (run_at heard_start 0) = ''r1''" "r_claimed_by (run_at heard_start 0) = Some ''k''"
  "r_in_queue (run_at heard_start 0) = [Claim]" "map rn_run_id (db_runs (w_db heard_start)) = [''r1'']"
  "get_last_event_seq (w_db heard_start) ''r1'' = 0" "r_seq (run_at heard_start 0) = 0"
  "get_run_events (w_db heard_start) ''r1'' 0 = []" "r_out_queue (run_at heard_start 0) = []"
  by code_simp+

lemma heard_runtime:
  "items_of_run ''r1'' demo_spawned = []"
  "hd (rt_tasks demo_spawned) \<in> set (rt_tasks demo_spawned)" "\<not> ex_cancelled (hd (rt_tasks demo_spawned))"
  "hd (rt_tasks heard_running) \<in> set (rt_tasks heard_running)" "ex_started (hd (rt_tasks heard_running))"
  "hd (rt_tasks (report_output heard_said)) \<in> set (rt_tasks (report_output heard_said))"
  "ex_started (hd (rt_tasks (report_output heard_said)))"
  "rt_running heard_said" "rt_output heard_said = [(''r1'', Some heard_event)]"
  "rt_running heard_ended" "rt_output heard_ended = [(''r1'', None)]"
  "rt_sent (report_output heard_ended) = [(''r1'', Some heard_event), (''r1'', None)]"
  by code_simp+

lemma heard_turns:
  "dget (b_runs (w_broker heard_told)) ''r1'' = Some 0" "r_in_queue (run_at heard_told 0) \<noteq> []"
  "dget (b_runs (w_broker (heard_turn heard_told))) ''r1'' = Some 0" "r_in_queue (run_at (heard_turn heard_told) 0) \<noteq> []"
  "dget (b_runs (w_broker (heard_turn (heard_turn heard_told)))) ''r1'' = Some 0"
  "r_in_queue (run_at (heard_turn (heard_turn heard_told)) 0) \<noteq> []"
  "dget (b_runs (w_broker (heard_turn (heard_turn (heard_turn heard_told))))) ''r1'' = None"
  "r_out_queue (run_at (heard_turn (heard_turn (heard_turn heard_told))) 0) = [OutEvent heard_event, EndOfStream]"
  by code_simp+

lemma heard_session:
  "(session_step demo_lib ''r1'' 0 ''k'')\<^sup>*\<^sup>* (demo_spawned, heard_start)
     (report_output heard_ended, heard_turn (heard_turn (heard_turn heard_told)))"
proof -
  let ?S = "session_step demo_lib ''r1'' 0 ''k'' :: unit runtime \<times> core \<Rightarrow> unit runtime \<times> core \<Rightarrow> bool"
  let ?w1 = "link_tell 5 ''k'' (''r1'', Some heard_event) heard_start"
  have "?S (demo_spawned, heard_start) (heard_running, heard_start)"
    unfolding heard_running_def by (rule ss_runtime [OF t_start_task [OF heard_runtime(2,3)]]) (simp add: start_task_def)
  moreover have "?S (heard_running, heard_start) (heard_said, heard_start)"
    unfolding heard_said_def by (rule ss_runtime [OF t_emit [OF heard_runtime(4,5)]]) (simp add: emit_def)
  moreover have "?S (heard_said, heard_start) (report_output heard_said, ?w1)"
    by (rule ss_report [OF heard_runtime(8,9)])
  moreover have "?S (report_output heard_said, ?w1) (heard_ended, ?w1)"
    unfolding heard_ended_def by (rule ss_runtime [OF t_end [OF heard_runtime(6,7)]]) (simp add: end_task_run_def drop_task_def)
  moreover have "?S (heard_ended, ?w1) (report_output heard_ended, heard_told)"
    unfolding heard_told_def by (rule ss_report [OF heard_runtime(10,11)])
  moreover have "?S (report_output heard_ended, heard_told) (report_output heard_ended, heard_turn heard_told)"
    unfolding heard_turn_def by (rule ss_pipeline [OF heard_turns(1,2)])
  moreover have "?S (report_output heard_ended, heard_turn heard_told) (report_output heard_ended, heard_turn (heard_turn heard_told))"
    using ss_pipeline [OF heard_turns(3,4)] unfolding heard_turn_def by blast
  moreover have "?S (report_output heard_ended, heard_turn (heard_turn heard_told))
      (report_output heard_ended, heard_turn (heard_turn (heard_turn heard_told)))"
    using ss_pipeline [OF heard_turns(5,6)] unfolding heard_turn_def by blast
  ultimately show ?thesis by (meson converse_rtranclp_into_rtranclp rtranclp.rtrancl_refl)
qed


end
