(* ===== verification/SdkSerial.thy ===== *)
theory SdkSerial
  imports Prelude
begin

text \<open>
  \<open>serialize_per_thread\<close> of \<open>funduq_provider_sdk/provider.py\<close>: an agent callable wrapped so that the
  runs of one thread take turns.  The wrapper keeps one \<open>asyncio.Lock\<close> per thread; the lock is the
  standard library's, with its queue of futures: a waiter is woken by a release and takes the lock when
  it runs again, and a waiter that was cancelled takes itself off the queue when it runs again.  The
  agent's stream is not part of the repository: a run inside may emit any event or end at any step.
\<close>

subsection \<open>The lock\<close>

text \<open>A waiting call: the future was given a result (\<open>wt_woken\<close>); its task was asked to stop
  (\<open>wt_cancelled\<close>), which cancels the future as long as it has no result.\<close>

record waiter =
  wt_call :: nat
  wt_woken :: bool
  wt_cancelled :: bool

record lock =
  lk_locked :: bool
  lk_waiters :: "waiter list"

definition new_lock :: lock where
  "new_lock = \<lparr>lk_locked = False, lk_waiters = []\<rparr>"

text \<open>\<open>_wake_up_first\<close>: the first future is given its result unless it is done.\<close>

fun wake_up_first :: "waiter list \<Rightarrow> waiter list" where
  "wake_up_first [] = []"
| "wake_up_first (x # xs) = (if wt_woken x \<or> wt_cancelled x then x else x\<lparr>wt_woken := True\<rparr>) # xs"

text \<open>The way in without waiting: the lock is free, and whoever waits has a cancelled future.\<close>

definition lock_free :: "lock \<Rightarrow> bool" where
  "lock_free l \<longleftrightarrow> \<not> lk_locked l \<and> (\<forall>x \<in> set (lk_waiters l). wt_cancelled x \<and> \<not> wt_woken x)"

text \<open>\<open>acquire\<close> up to its wait: whether the call is inside, and the lock.\<close>

definition lock_acquire :: "nat \<Rightarrow> lock \<Rightarrow> bool \<times> lock" where
  "lock_acquire n l =
     (if lock_free l then (True, l\<lparr>lk_locked := True\<rparr>)
      else (False, l\<lparr>lk_waiters := lk_waiters l @ [\<lparr>wt_call = n, wt_woken = False, wt_cancelled = False\<rparr>]\<rparr>))"

definition leave_queue :: "nat \<Rightarrow> lock \<Rightarrow> lock" where
  "leave_queue n l = l\<lparr>lk_waiters := filter (\<lambda>x. wt_call x \<noteq> n) (lk_waiters l)\<rparr>"

text \<open>\<open>acquire\<close> after its wait: with the result, and with \<open>CancelledError\<close>.\<close>

definition lock_resume :: "nat \<Rightarrow> lock \<Rightarrow> lock" where
  "lock_resume n l = (leave_queue n l)\<lparr>lk_locked := True\<rparr>"

definition lock_give_up :: "nat \<Rightarrow> lock \<Rightarrow> lock" where
  "lock_give_up n l =
     (let l' = leave_queue n l in if lk_locked l' then l' else l'\<lparr>lk_waiters := wake_up_first (lk_waiters l')\<rparr>)"

definition lock_release :: "lock \<Rightarrow> lock" where
  "lock_release l = l\<lparr>lk_locked := False, lk_waiters := wake_up_first (lk_waiters l)\<rparr>"

definition cancel_waiter :: "nat \<Rightarrow> waiter \<Rightarrow> waiter" where
  "cancel_waiter n x = (if wt_call x = n then x\<lparr>wt_cancelled := True\<rparr> else x)"

definition lock_cancel :: "nat \<Rightarrow> lock \<Rightarrow> lock" where
  "lock_cancel n l = l\<lparr>lk_waiters := map (cancel_waiter n) (lk_waiters l)\<rparr>"

subsection \<open>The wrapped callable\<close>

text \<open>A call is a run's thread and a number of its own within the thread.  The state holds the locks by
  thread, and what happened: the calls in the order they arrived and in the order they came in, those
  that were cancelled while they waited, those inside, and the events that came out.  A run without a
  thread passes by the locks.\<close>

type_synonym call = "string option \<times> nat"

record 'e serializer =
  sz_locks :: "(string, lock) dict"
  sz_arrived :: "call list"
  sz_entered :: "call list"
  sz_given_up :: "call list"
  sz_inside :: "call list"
  sz_events :: "(call \<times> 'e) list"

definition new_serializer :: "'e serializer" where
  "new_serializer = \<lparr>sz_locks = [], sz_arrived = [], sz_entered = [], sz_given_up = [], sz_inside = [],
     sz_events = []\<rparr>"

text \<open>\<open>locks.setdefault(thread_id, asyncio.Lock())\<close>.\<close>

definition lock_of :: "string \<Rightarrow> 'e serializer \<Rightarrow> lock" where
  "lock_of t s = (case dget (sz_locks s) t of None \<Rightarrow> new_lock | Some l \<Rightarrow> l)"

definition set_lock :: "string \<Rightarrow> lock \<Rightarrow> 'e serializer \<Rightarrow> 'e serializer" where
  "set_lock t l s = s\<lparr>sz_locks := dset t l (sz_locks s)\<rparr>"

definition come_in :: "call \<Rightarrow> 'e serializer \<Rightarrow> 'e serializer" where
  "come_in c s = s\<lparr>sz_entered := sz_entered s @ [c], sz_inside := sz_inside s @ [c]\<rparr>"

text \<open>The first step of a wrapped run.\<close>

definition serialized :: "call \<Rightarrow> 'e serializer \<Rightarrow> 'e serializer" where
  "serialized c s =
     (let s1 = s\<lparr>sz_arrived := sz_arrived s @ [c]\<rparr> in
      case fst c of
        None \<Rightarrow> come_in c s1
      | Some t \<Rightarrow>
          (let (got, l) = lock_acquire (snd c) (lock_of t s); s2 = set_lock t l s1
           in if got then come_in c s2 else s2))"

definition resume_turn :: "string \<Rightarrow> nat \<Rightarrow> 'e serializer \<Rightarrow> 'e serializer" where
  "resume_turn t n s = come_in (Some t, n) (set_lock t (lock_resume n (lock_of t s)) s)"

definition cancel_waiting :: "string \<Rightarrow> nat \<Rightarrow> 'e serializer \<Rightarrow> 'e serializer" where
  "cancel_waiting t n s =
     (set_lock t (lock_cancel n (lock_of t s)) s)\<lparr>sz_given_up := sz_given_up s @ [(Some t, n)]\<rparr>"

definition give_up :: "string \<Rightarrow> nat \<Rightarrow> 'e serializer \<Rightarrow> 'e serializer" where
  "give_up t n s = set_lock t (lock_give_up n (lock_of t s)) s"

definition run_event :: "call \<Rightarrow> 'e \<Rightarrow> 'e serializer \<Rightarrow> 'e serializer" where
  "run_event c e s = s\<lparr>sz_events := sz_events s @ [(c, e)]\<rparr>"

text \<open>The end of a run, whichever way its stream ended: the lock is released.\<close>

definition end_turn :: "call \<Rightarrow> 'e serializer \<Rightarrow> 'e serializer" where
  "end_turn c s =
     (let s1 = s\<lparr>sz_inside := filter (\<lambda>d. d \<noteq> c) (sz_inside s)\<rparr> in
      case fst c of None \<Rightarrow> s1 | Some t \<Rightarrow> set_lock t (lock_release (lock_of t s)) s1)"

inductive sz_step :: "'e serializer \<Rightarrow> 'e serializer \<Rightarrow> bool" where
  z_arrive: "c \<notin> set (sz_arrived s) \<Longrightarrow> sz_step s (serialized c s)"
| z_resume: "x \<in> set (lk_waiters (lock_of t s)) \<Longrightarrow> wt_woken x \<Longrightarrow> \<not> wt_cancelled x \<Longrightarrow>
    sz_step s (resume_turn t (wt_call x) s)"
| z_cancel: "x \<in> set (lk_waiters (lock_of t s)) \<Longrightarrow> \<not> wt_cancelled x \<Longrightarrow>
    sz_step s (cancel_waiting t (wt_call x) s)"
| z_give_up: "x \<in> set (lk_waiters (lock_of t s)) \<Longrightarrow> wt_cancelled x \<Longrightarrow> sz_step s (give_up t (wt_call x) s)"
| z_event: "c \<in> set (sz_inside s) \<Longrightarrow> sz_step s (run_event c e s)"
| z_end: "c \<in> set (sz_inside s) \<Longrightarrow> sz_step s (end_turn c s)"

inductive_simps sz_step_iff: "sz_step s s'"

end
