(* ===== verification/SerialClaims.thy ===== *)
theory SerialClaims
  imports SdkSerial
begin

text \<open>
  What \<open>serialize_per_thread\<close> promises: the runs of a thread take turns, in the order they arrived, and
  whoever is next comes in.
\<close>

subsection \<open>The lock is fair\<close>

text \<open>Only the head of the queue is ever woken, nobody is while the lock is held, and a free lock with a
  queue has a head whose turn it is.\<close>

definition lock_ok :: "lock \<Rightarrow> bool" where
  "lock_ok l \<longleftrightarrow> distinct (map wt_call (lk_waiters l))
     \<and> (\<forall>x \<in> set (tl (lk_waiters l)). \<not> wt_woken x)
     \<and> (lk_locked l \<longrightarrow> (\<forall>x \<in> set (lk_waiters l). \<not> wt_woken x))
     \<and> (\<not> lk_locked l \<and> lk_waiters l \<noteq> [] \<longrightarrow> wt_woken (hd (lk_waiters l)) \<or> wt_cancelled (hd (lk_waiters l)))"

definition waiting :: "lock \<Rightarrow> nat list" where
  "waiting l = map wt_call (filter (\<lambda>x. \<not> wt_cancelled x) (lk_waiters l))"

lemma calls_wake_up_first [simp]: "map wt_call (wake_up_first xs) = map wt_call xs"
  by (cases xs) simp_all

lemma length_wake_up_first [simp]: "length (wake_up_first xs) = length xs"
  by (cases xs) simp_all

lemma wake_up_first_parts:
  "set (tl (wake_up_first xs)) = set (tl xs)" "wake_up_first xs = [] \<longleftrightarrow> xs = []"
  "xs \<noteq> [] \<Longrightarrow> wt_woken (hd (wake_up_first xs)) \<or> wt_cancelled (hd (wake_up_first xs))"
  by (cases xs; simp)+

lemma waiting_wake_up_first [simp]:
  "map wt_call (filter (\<lambda>x. \<not> wt_cancelled x) (wake_up_first xs)) = map wt_call (filter (\<lambda>x. \<not> wt_cancelled x) xs)"
  by (cases xs) simp_all

lemma in_tlD: "x \<in> set (tl xs) \<Longrightarrow> x \<in> set xs"
  by (cases xs) auto

lemma wake_up_first_mem:
  "z \<in> set (wake_up_first xs) \<Longrightarrow> \<exists>y \<in> set xs. wt_call z = wt_call y \<and> (wt_cancelled z \<longleftrightarrow> wt_cancelled y)"
  by (cases xs) (auto split: if_splits)

lemma tl_filter_subset: "set (tl (filter P xs)) \<subseteq> set (tl xs)"
  by (induction xs) (auto dest: in_tlD)

lemma cancel_waiter_simps [simp]:
  "wt_call (cancel_waiter n x) = wt_call x" "wt_woken (cancel_waiter n x) = wt_woken x"
  "wt_cancelled (cancel_waiter n x) \<longleftrightarrow> wt_cancelled x \<or> wt_call x = n"
  by (simp_all add: cancel_waiter_def)

lemma distinct_calls_filter: "distinct (map wt_call xs) \<Longrightarrow> distinct (map wt_call (filter P xs))"
  by (rule distinct_map_filter)

lemma lock_ok_new [simp]: "lock_ok new_lock"
  by (simp add: new_lock_def lock_ok_def)

lemma lock_ok_acquire: "lock_ok l \<Longrightarrow> n \<notin> wt_call ` set (lk_waiters l) \<Longrightarrow> lock_ok (snd (lock_acquire n l))"
  by (cases "lk_waiters l") (auto simp: lock_ok_def lock_acquire_def lock_free_def)

lemma woken_is_head:
  "lock_ok l \<Longrightarrow> x \<in> set (lk_waiters l) \<Longrightarrow> wt_woken x \<Longrightarrow> \<not> lk_locked l \<and> (\<exists>xs. lk_waiters l = x # xs)"
  by (cases "lk_waiters l") (auto simp: lock_ok_def)

lemma lock_ok_resume: "lock_ok l \<Longrightarrow> x \<in> set (lk_waiters l) \<Longrightarrow> wt_woken x \<Longrightarrow> lock_ok (lock_resume (wt_call x) l)"
proof -
  assume ok: "lock_ok l" and x: "x \<in> set (lk_waiters l)" "wt_woken x"
  then obtain xs where l: "lk_waiters l = x # xs" "\<not> lk_locked l" using woken_is_head by blast
  have "set (tl (filter (\<lambda>y. wt_call y \<noteq> wt_call x) xs)) \<subseteq> set xs"
    using tl_filter_subset in_tlD by fastforce
  with ok show "lock_ok (lock_resume (wt_call x) l)"
    by (auto simp: lock_ok_def lock_resume_def leave_queue_def l intro!: distinct_calls_filter)
qed

lemma lock_ok_give_up: "lock_ok l \<Longrightarrow> lock_ok (lock_give_up n l)"
proof -
  assume ok: "lock_ok l"
  let ?ws = "filter (\<lambda>x. wt_call x \<noteq> n) (lk_waiters l)"
  have t: "set (tl ?ws) \<subseteq> set (tl (lk_waiters l))" by (rule tl_filter_subset)
  show ?thesis
    using ok t wake_up_first_parts [of ?ws]
    by (auto simp: lock_ok_def lock_give_up_def leave_queue_def Let_def distinct_calls_filter)
qed

lemma lock_ok_release: "lock_ok l \<Longrightarrow> lk_locked l \<Longrightarrow> lock_ok (lock_release l)"
  using wake_up_first_parts [of "lk_waiters l"] by (auto simp: lock_ok_def lock_release_def dest: list.set_sel(2))

lemma lock_ok_cancel: "lock_ok l \<Longrightarrow> lock_ok (lock_cancel n l)"
  by (cases "lk_waiters l") (auto simp: lock_ok_def lock_cancel_def comp_def)

subsection \<open>Turns\<close>

text \<open>What the wrapper keeps for a thread, over the lock, the calls inside, those that came in, gave up
  and arrived, and the calls whose events came out, one entry per event.\<close>

definition turns_ok :: "lock \<Rightarrow> nat list \<Rightarrow> nat list \<Rightarrow> nat list \<Rightarrow> nat list \<Rightarrow> nat list \<Rightarrow> bool" where
  "turns_ok l inside entered gone arrived out \<longleftrightarrow>
     lock_ok l \<and> distinct arrived \<and> set (map wt_call (lk_waiters l)) \<subseteq> set arrived \<and> set gone \<subseteq> set arrived \<and>
     (\<forall>x \<in> set (lk_waiters l). wt_cancelled x \<longleftrightarrow> wt_call x \<in> set gone) \<and>
     entered @ waiting l = filter (\<lambda>n. n \<notin> set gone) arrived \<and>
     (if lk_locked l then entered \<noteq> [] \<and> inside = [last entered] else inside = []) \<and>
     subseq (remdups_adj out) entered"

lemma turns_ok_init: "turns_ok new_lock [] [] [] [] []"
  by (simp add: turns_ok_def waiting_def) (simp add: new_lock_def)

lemma waiting_disjoint:
  assumes "turns_ok l inside entered gone arrived out"
  shows "distinct (entered @ waiting l)" "set (entered @ waiting l) \<subseteq> set arrived - set gone"
  using assms by (auto simp: turns_ok_def)

lemma turns_same_queue:
  assumes ok: "turns_ok l inside entered gone arrived out" and l: "lock_ok l'" "waiting l' = waiting l"
    and q: "\<And>z. z \<in> set (lk_waiters l') \<Longrightarrow>
      \<exists>y \<in> set (lk_waiters l). wt_call z = wt_call y \<and> (wt_cancelled z \<longleftrightarrow> wt_cancelled y)"
    and i: "if lk_locked l' then entered \<noteq> [] \<and> inside' = [last entered] else inside' = []"
  shows "turns_ok l' inside' entered gone arrived out"
proof -
  have "set (map wt_call (lk_waiters l')) \<subseteq> set (map wt_call (lk_waiters l))" using q by force
  moreover have "\<forall>z \<in> set (lk_waiters l'). wt_cancelled z \<longleftrightarrow> wt_call z \<in> set gone"
    using ok q unfolding turns_ok_def by metis
  ultimately show ?thesis using ok l i by (auto simp: turns_ok_def)
qed

lemma turns_arrive:
  assumes ok: "turns_ok l inside entered gone arrived out" and n: "n \<notin> set arrived"
  shows "turns_ok (snd (lock_acquire n l)) (if lock_free l then inside @ [n] else inside)
     (if lock_free l then entered @ [n] else entered) gone (arrived @ [n]) out"
proof -
  have "lock_ok (snd (lock_acquire n l))" using ok n by (intro lock_ok_acquire) (auto simp: turns_ok_def)
  moreover have "lock_free l \<Longrightarrow> waiting l = []" by (simp add: lock_free_def waiting_def)
  moreover have "n \<notin> set gone" using ok n by (auto simp: turns_ok_def)
  ultimately show ?thesis
    using ok n by (auto simp: turns_ok_def lock_acquire_def waiting_def lock_free_def intro: subseq_order.trans)
qed

lemma turns_resume:
  assumes ok: "turns_ok l inside entered gone arrived out" and x: "x \<in> set (lk_waiters l)" "wt_woken x" "\<not> wt_cancelled x"
  shows "turns_ok (lock_resume (wt_call x) l) (inside @ [wt_call x]) (entered @ [wt_call x]) gone arrived out"
proof -
  obtain xs where l: "lk_waiters l = x # xs" "\<not> lk_locked l"
    using woken_is_head [of l x] ok x by (auto simp: turns_ok_def)
  have "wt_call x \<notin> wt_call ` set xs" using ok l by (simp add: turns_ok_def lock_ok_def)
  then have "filter (\<lambda>y. wt_call y \<noteq> wt_call x) xs = xs" by (intro filter_True) (metis imageI)
  then have w: "lk_waiters (lock_resume (wt_call x) l) = xs" "lk_locked (lock_resume (wt_call x) l)"
    by (simp_all add: lock_resume_def leave_queue_def l)
  have "lock_ok (lock_resume (wt_call x) l)" using ok x by (intro lock_ok_resume) (auto simp: turns_ok_def)
  with ok x show ?thesis by (auto simp: turns_ok_def w l waiting_def intro: subseq_order.trans)
qed

lemma subseq_snoc_other: "subseq (zs @ [m]) (es @ [n]) \<Longrightarrow> m \<noteq> n \<Longrightarrow> subseq (zs @ [m]) es"
proof (erule subseq_appendE)
  fix us vs
  assume u: "zs @ [m] = us @ vs" "subseq us es" "subseq vs [n]" and "m \<noteq> n"
  then have "vs = []" by (cases vs rule: rev_cases) (auto dest: subseq_mem [of _ "[n]" m])
  with u show ?thesis by simp
qed

lemma turns_event:
  assumes ok: "turns_ok l inside entered gone arrived out" and n: "n \<in> set inside"
  shows "turns_ok l inside entered gone arrived (out @ [n])"
proof -
  obtain es where e: "entered = es @ [n]"
    using ok n by (cases entered rule: rev_cases) (auto simp: turns_ok_def split: if_splits)
  have "subseq (remdups_adj (out @ [n])) entered"
  proof (cases out rule: rev_cases)
    case Nil
    then show ?thesis by (simp add: e subseq_singleton_left)
  next
    case (snoc ys m)
    have s: "subseq (remdups_adj (ys @ [m])) (es @ [n])" using ok snoc e by (simp add: turns_ok_def)
    show ?thesis
    proof (cases "m = n")
      case True
      with s show ?thesis by (simp add: snoc e remdups_adj_append_two)
    next
      case False
      obtain zs where z: "remdups_adj (ys @ [m]) = zs @ [m]"
        by (metis append_butlast_last_id last_remdups_adj last_snoc remdups_adj_Nil_iff snoc_eq_iff_butlast)
      then have "subseq (zs @ [m]) es" using s False by (auto intro: subseq_snoc_other)
      then have "subseq ((zs @ [m]) @ [n]) (es @ [n])" by (simp only: subseq_append)
      with False z show ?thesis by (simp add: snoc e remdups_adj_append_two)
    qed
  qed
  with ok show ?thesis by (simp add: turns_ok_def)
qed

lemma turns_end:
  assumes ok: "turns_ok l inside entered gone arrived out" and n: "n \<in> set inside"
  shows "turns_ok (lock_release l) (filter (\<lambda>m. m \<noteq> n) inside) entered gone arrived out"
proof -
  have l: "lk_locked l" using ok n by (auto simp: turns_ok_def split: if_splits)
  then have "lock_ok (lock_release l)" using ok by (intro lock_ok_release) (auto simp: turns_ok_def)
  with ok show ?thesis
  proof (rule turns_same_queue)
    show "waiting (lock_release l) = waiting l" by (simp add: waiting_def lock_release_def)
  qed (use ok n l in \<open>auto simp: turns_ok_def lock_release_def dest!: wake_up_first_mem\<close>)
qed

lemma turns_cancel:
  assumes ok: "turns_ok l inside entered gone arrived out" and x: "x \<in> set (lk_waiters l)" "\<not> wt_cancelled x"
  shows "turns_ok (lock_cancel (wt_call x) l) inside entered (gone @ [wt_call x]) arrived out"
proof -
  have m: "wt_call x \<in> set (waiting l)" using x by (auto simp: waiting_def)
  have d: "distinct (entered @ waiting l)" by (rule waiting_disjoint [OF ok])
  have "waiting (lock_cancel (wt_call x) l) = filter (\<lambda>n. n \<noteq> wt_call x) (waiting l)"
    by (simp add: waiting_def lock_cancel_def filter_map comp_def conj_commute)
  moreover have "filter (\<lambda>n. n \<noteq> wt_call x) entered = entered" using m d by (intro filter_True) auto
  ultimately have "entered @ waiting (lock_cancel (wt_call x) l) = filter (\<lambda>n. n \<noteq> wt_call x) (entered @ waiting l)"
    by simp
  also have "entered @ waiting l = filter (\<lambda>n. n \<notin> set gone) arrived" using ok by (simp add: turns_ok_def)
  finally have "entered @ waiting (lock_cancel (wt_call x) l) = filter (\<lambda>n. n \<notin> set (gone @ [wt_call x])) arrived"
    by (simp add: conj_commute)
  moreover have "lock_ok (lock_cancel (wt_call x) l)" using ok by (intro lock_ok_cancel) (simp add: turns_ok_def)
  ultimately show ?thesis
    using ok x by (auto simp: turns_ok_def lock_cancel_def)
qed

lemma turns_give_up:
  assumes ok: "turns_ok l inside entered gone arrived out" and x: "x \<in> set (lk_waiters l)" "wt_cancelled x"
  shows "turns_ok (lock_give_up (wt_call x) l) inside entered gone arrived out"
proof -
  let ?ws = "filter (\<lambda>y. wt_call y \<noteq> wt_call x) (lk_waiters l)"
  have one: "y = x" if "y \<in> set (lk_waiters l)" "wt_call y = wt_call x" for y
    using ok x(1) that by (simp add: turns_ok_def lock_ok_def distinct_map inj_on_def)
  have f: "filter (\<lambda>y. \<not> wt_cancelled y) ?ws = filter (\<lambda>y. \<not> wt_cancelled y) (lk_waiters l)"
    using one x(2) by (auto intro!: filter_cong)
  have "lock_ok (lock_give_up (wt_call x) l)" using ok by (intro lock_ok_give_up) (simp add: turns_ok_def)
  with ok show ?thesis
  proof (rule turns_same_queue)
    show "waiting (lock_give_up (wt_call x) l) = waiting l"
      using f by (simp add: waiting_def lock_give_up_def leave_queue_def Let_def)
  qed (use ok in \<open>auto simp: turns_ok_def lock_give_up_def leave_queue_def Let_def dest!: wake_up_first_mem split: if_splits\<close>)
qed

subsection \<open>Every thread at once\<close>

definition of_thread :: "string \<Rightarrow> call list \<Rightarrow> nat list" where
  "of_thread t cs = map snd (filter (\<lambda>c. fst c = Some t) cs)"

lemma of_thread_simps [simp]:
  "of_thread t [] = []" "of_thread t (cs @ ds) = of_thread t cs @ of_thread t ds"
  "of_thread t [c] = (if fst c = Some t then [snd c] else [])"
  by (simp_all add: of_thread_def)

lemma mem_of_thread: "n \<in> set (of_thread t cs) \<longleftrightarrow> (Some t, n) \<in> set cs"
  by (force simp: of_thread_def)

lemma of_thread_without:
  "of_thread t (filter (\<lambda>d. d \<noteq> c) cs) =
     (if fst c = Some t then filter (\<lambda>n. n \<noteq> snd c) (of_thread t cs) else of_thread t cs)"
  by (cases c, induction cs) (auto simp: of_thread_def)

definition sz_ok :: "'e serializer \<Rightarrow> bool" where
  "sz_ok s \<longleftrightarrow> (\<forall>t. turns_ok (lock_of t s) (of_thread t (sz_inside s)) (of_thread t (sz_entered s))
     (of_thread t (sz_given_up s)) (of_thread t (sz_arrived s)) (of_thread t (map fst (sz_events s))))"

lemma lock_of_set_lock [simp]: "lock_of u (set_lock t l s) = (if u = t then l else lock_of u s)"
  by (simp add: lock_of_def set_lock_def)

lemma serializer_simps [simp]:
  "lock_of t (s\<lparr>sz_arrived := a\<rparr>) = lock_of t s" "lock_of t (s\<lparr>sz_given_up := g\<rparr>) = lock_of t s"
  "lock_of t (s\<lparr>sz_inside := i\<rparr>) = lock_of t s" "lock_of t (s\<lparr>sz_events := e\<rparr>) = lock_of t s"
  "lock_of t (come_in c s) = lock_of t s"
  "sz_inside (set_lock t l s) = sz_inside s" "sz_entered (set_lock t l s) = sz_entered s"
  "sz_given_up (set_lock t l s) = sz_given_up s" "sz_arrived (set_lock t l s) = sz_arrived s"
  "sz_events (set_lock t l s) = sz_events s"
  "sz_inside (come_in c s) = sz_inside s @ [c]" "sz_entered (come_in c s) = sz_entered s @ [c]"
  "sz_given_up (come_in c s) = sz_given_up s" "sz_arrived (come_in c s) = sz_arrived s"
  "sz_events (come_in c s) = sz_events s"
  by (simp_all add: lock_of_def set_lock_def come_in_def)

lemma sz_ok_new: "sz_ok new_serializer"
  by (simp add: sz_ok_def turns_ok_init) (simp add: new_serializer_def lock_of_def turns_ok_init)

lemma sz_ok_step: "sz_step s s' \<Longrightarrow> sz_ok s \<Longrightarrow> sz_ok s'"
proof (induction rule: sz_step.induct)
  case (z_arrive c s)
  obtain h n where c: "c = (h, n)" by (cases c)
  have fresh: "h = Some t \<Longrightarrow> n \<notin> set (of_thread t (sz_arrived s))" for t using z_arrive.hyps by (simp add: c mem_of_thread)
  show ?case
  proof (cases h)
    case None
    with z_arrive.prems show ?thesis by (simp add: sz_ok_def serialized_def c)
  next
    case (Some t)
    show ?thesis
      unfolding sz_ok_def
    proof
      fix u
      have "turns_ok (lock_of u s) (of_thread u (sz_inside s)) (of_thread u (sz_entered s)) (of_thread u (sz_given_up s))
        (of_thread u (sz_arrived s)) (of_thread u (map fst (sz_events s)))" using z_arrive.prems by (simp add: sz_ok_def)
      from this turns_arrive [OF this, of n] fresh [OF Some]
      show "turns_ok (lock_of u (serialized c s)) (of_thread u (sz_inside (serialized c s)))
        (of_thread u (sz_entered (serialized c s))) (of_thread u (sz_given_up (serialized c s)))
        (of_thread u (sz_arrived (serialized c s))) (of_thread u (map fst (sz_events (serialized c s))))"
        by (cases "u = t"; cases "lock_free (lock_of t s)") (simp_all add: serialized_def c Some lock_acquire_def)
    qed
  qed
next
  case (z_resume x t s)
  then show ?case by (auto simp: sz_ok_def resume_turn_def intro: turns_resume)
next
  case (z_cancel x t s)
  then show ?case by (auto simp: sz_ok_def cancel_waiting_def intro: turns_cancel)
next
  case (z_give_up x t s)
  then show ?case by (auto simp: sz_ok_def give_up_def intro: turns_give_up)
next
  case (z_event c s e)
  obtain h n where "c = (h, n)" by fastforce
  with z_event show ?case by (auto simp: sz_ok_def run_event_def mem_of_thread intro: turns_event)
next
  case (z_end c s)
  obtain h n where "c = (h, n)" by fastforce
  with z_end show ?case
    by (cases h) (auto simp: sz_ok_def end_turn_def Let_def of_thread_without mem_of_thread intro: turns_end)
qed

interpretation serializer: inductive_invariant "\<lambda>s. s = new_serializer" sz_step sz_ok
  by unfold_locales (auto intro: sz_ok_new sz_ok_step)

text \<open>With nobody inside, the calls ahead of the first that still wants in step aside and it comes in.\<close>

lemma next_comes_in:
  "sz_ok s \<Longrightarrow> of_thread t (sz_inside s) = [] \<Longrightarrow> waiting (lock_of t s) = n # ns \<Longrightarrow>
     \<exists>s'. sz_step\<^sup>*\<^sup>* s s' \<and> of_thread t (sz_inside s') = [n]"
proof (induction "length (lk_waiters (lock_of t s))" arbitrary: s rule: less_induct)
  case less
  have ok: "turns_ok (lock_of t s) [] (of_thread t (sz_entered s)) (of_thread t (sz_given_up s))
      (of_thread t (sz_arrived s)) (of_thread t (map fst (sz_events s)))"
    using less.prems(1,2) unfolding sz_ok_def by metis
  obtain x xs where w: "lk_waiters (lock_of t s) = x # xs"
    using less.prems(3) by (cases "lk_waiters (lock_of t s)") (auto simp: waiting_def)
  then have x: "x \<in> set (lk_waiters (lock_of t s))" by simp
  have turn: "wt_woken x \<or> wt_cancelled x"
    using ok w by (auto simp: turns_ok_def lock_ok_def split: if_splits)
  show ?case
  proof (cases "wt_cancelled x")
    case True
    let ?s = "give_up t (wt_call x) s"
    have step: "sz_step s ?s" by (rule z_give_up [OF x True])
    have short: "length (lk_waiters (lock_of t ?s)) < length (lk_waiters (lock_of t s))"
      by (simp add: give_up_def lock_give_up_def leave_queue_def Let_def w less_Suc_eq_le)
    have "of_thread t (sz_entered s) @ waiting (lock_of t ?s) = of_thread t (sz_entered s) @ waiting (lock_of t s)"
      using turns_give_up [OF ok x True] ok by (simp only: turns_ok_def give_up_def lock_of_set_lock if_True simp_thms)
    then have "waiting (lock_of t ?s) = n # ns" using less.prems(3) by simp
    moreover have "of_thread t (sz_inside ?s) = []" using less.prems(2) by (simp add: give_up_def)
    ultimately obtain s' where "sz_step\<^sup>*\<^sup>* ?s s'" "of_thread t (sz_inside s') = [n]"
      using less.hyps [OF short] sz_ok_step [OF step less.prems(1)] by blast
    with step show ?thesis by (meson converse_rtranclp_into_rtranclp)
  next
    case False
    with turn have "sz_step s (resume_turn t (wt_call x) s)" by (intro z_resume [OF x]) auto
    moreover have "wt_call x = n" using less.prems(3) False by (simp add: waiting_def w)
    ultimately show ?thesis using less.prems(2) by (auto simp: resume_turn_def)
  qed
qed

text \<open>C26: Wrapped by serialize_per_thread, the runs of one thread take turns in the order they arrived.
  In every execution - any arrivals, cancels of runs still waiting, ends and events, the lock's
  futures included - and for every thread: at most one run is inside; the runs that came in followed
  by those that wait are the arrivals without those that gave up; the events that came out are
  grouped by run, in the order of arrival; and when nobody is inside, the first that waits can come
  in by steps of the waiting calls alone, whoever gave up before it.\<close>

theorem runs_of_a_thread_take_turns:
  assumes "reach (\<lambda>s. s = new_serializer) sz_step s"
  shows "length (of_thread t (sz_inside s)) \<le> 1
    \<and> of_thread t (sz_entered s) @ waiting (lock_of t s) =
        filter (\<lambda>n. n \<notin> set (of_thread t (sz_given_up s))) (of_thread t (sz_arrived s))
    \<and> subseq (remdups_adj (of_thread t (map fst (sz_events s)))) (of_thread t (sz_arrived s))
    \<and> (of_thread t (sz_inside s) = [] \<and> waiting (lock_of t s) = n # ns \<longrightarrow>
        (\<exists>s'. sz_step\<^sup>*\<^sup>* s s' \<and> of_thread t (sz_inside s') = [n]))"
proof (intro conjI)
  have all: "sz_ok s" by (rule serializer.holds [OF assms])
  then have ok: "turns_ok (lock_of t s) (of_thread t (sz_inside s)) (of_thread t (sz_entered s))
      (of_thread t (sz_given_up s)) (of_thread t (sz_arrived s)) (of_thread t (map fst (sz_events s)))"
    by (simp add: sz_ok_def)
  then show "length (of_thread t (sz_inside s)) \<le> 1" by (simp add: turns_ok_def split: if_splits)
  show order: "of_thread t (sz_entered s) @ waiting (lock_of t s) =
        filter (\<lambda>n. n \<notin> set (of_thread t (sz_given_up s))) (of_thread t (sz_arrived s))"
    using ok by (simp add: turns_ok_def)
  have "subseq (of_thread t (sz_entered s)) (of_thread t (sz_entered s) @ waiting (lock_of t s))"
    by (rule subseq_rev_drop_many) simp
  with order have "subseq (of_thread t (sz_entered s)) (of_thread t (sz_arrived s))"
    by (metis subseq_filter_left subseq_order.trans)
  with ok show "subseq (remdups_adj (of_thread t (map fst (sz_events s)))) (of_thread t (sz_arrived s))"
    by (auto simp: turns_ok_def intro: subseq_order.trans)
  show "of_thread t (sz_inside s) = [] \<and> waiting (lock_of t s) = n # ns \<longrightarrow>
        (\<exists>s'. sz_step\<^sup>*\<^sup>* s s' \<and> of_thread t (sz_inside s') = [n])"
    using next_comes_in [OF all] by blast
qed

subsection \<open>A demonstration\<close>

text \<open>Three runs of one thread; the second gives up while the first is inside, the first ends.\<close>

definition demo_serial :: "string serializer" where
  "demo_serial =
     end_turn (Some ''t'', 1) (cancel_waiting ''t'' 2 (run_event (Some ''t'', 1) ''e''
       (serialized (Some ''t'', 3) (serialized (Some ''t'', 2) (serialized (Some ''t'', 1) new_serializer)))))"

lemmas demo_serial_defs = serialized_def run_event_def cancel_waiting_def end_turn_def new_serializer_def set_lock_def
  lock_of_def come_in_def lock_acquire_def lock_free_def lock_cancel_def cancel_waiter_def lock_release_def new_lock_def

lemma reach_demo_serial: "reach (\<lambda>s. s = new_serializer) sz_step demo_serial"
proof -
  let ?r = "reach (\<lambda>s. s = new_serializer) sz_step"
  let ?s1 = "serialized (Some ''t'', 1) (new_serializer :: string serializer)"
  let ?s2 = "serialized (Some ''t'', 2) ?s1"
  let ?s3 = "serialized (Some ''t'', 3) ?s2"
  let ?s4 = "run_event (Some ''t'', 1) ''e'' ?s3"
  let ?s5 = "cancel_waiting ''t'' 2 ?s4"
  have 0: "?r (new_serializer :: string serializer)" by (rule reach_init) simp
  have 1: "?r ?s1" by (rule reach_step [OF 0 z_arrive]) (simp add: demo_serial_defs)
  have 2: "?r ?s2" by (rule reach_step [OF 1 z_arrive]) (simp add: demo_serial_defs)
  have 3: "?r ?s3" by (rule reach_step [OF 2 z_arrive]) (simp add: demo_serial_defs)
  have 4: "?r ?s4" by (rule reach_step [OF 3 z_event]) (simp add: demo_serial_defs)
  have "sz_step ?s4 (cancel_waiting ''t'' (wt_call \<lparr>wt_call = 2, wt_woken = False, wt_cancelled = False\<rparr>) ?s4)"
    by (rule z_cancel) (simp_all add: demo_serial_defs)
  with 4 have 5: "?r ?s5" by (simp add: reach_step)
  show ?thesis unfolding demo_serial_def by (rule reach_step [OF 5 z_end]) (simp add: demo_serial_defs)
qed

lemma runs_of_a_thread_take_turns_witness:
  "\<exists>s'. sz_step\<^sup>*\<^sup>* demo_serial s' \<and> of_thread ''t'' (sz_inside s') = [3]"
proof -
  have "of_thread ''t'' (sz_inside demo_serial) = []" "waiting (lock_of ''t'' demo_serial) = [3]"
    by (simp_all add: demo_serial_def demo_serial_defs of_thread_def waiting_def)
  with runs_of_a_thread_take_turns [OF reach_demo_serial, of "''t''" 3 "[]"] show ?thesis by blast
qed

end
