(* ===== verification/SdkKeys.thy ===== *)
theory SdkKeys
  imports SdkRuntime
begin

text \<open>
  The rest of the provider SDKs' own code: \<open>ProviderIdentity.load_or_create\<close> over its key file, and
  the parts of the links that only pass on (\<open>identity.py\<close>, \<open>inprocess.py\<close>, \<open>link.py\<close>).  A path is looked
  up in a dictionary of files; \<open>raw\<close> is the key library's \<open>private_bytes_raw\<close>.
\<close>

subsection \<open>The key file\<close>

record key_file =
  kf_bytes :: string
  kf_mode :: nat

text \<open>\<open>Ed25519PrivateKey.from_private_bytes\<close>: a \<open>ValueError\<close> unless there are 32 bytes.\<close>

definition from_private_bytes :: "('k, 'z) crypto_scheme \<Rightarrow> string \<Rightarrow> 'k result" where
  "from_private_bytes C bs = (if length bs \<noteq> 32 then Inl ValueError else Inr (seed_key C bs))"

text \<open>\<open>load_or_create\<close>; \<open>generated\<close> is the fresh private key, and mode 384 is \<open>0o600\<close>.\<close>

definition load_or_create ::
    "('k, 'z) crypto_scheme \<Rightarrow> ('k \<Rightarrow> string) \<Rightarrow> 'k \<Rightarrow> string \<Rightarrow> (string, key_file) dict
       \<Rightarrow> ('k identity \<times> (string, key_file) dict) result" where
  "load_or_create C raw generated path files =
     (case dget files path of
        Some f \<Rightarrow> bindR (from_private_bytes C (kf_bytes f)) (\<lambda>k. Inr (identity_of C k, files))
      | None \<Rightarrow> Inr (identity_of C generated, dset path \<lparr>kf_bytes = raw generated, kf_mode = 384\<rparr> files))"

text \<open>What the key library documents: the raw bytes are 32 and give the key back.\<close>

definition raw_ok :: "('k, 'z) crypto_scheme \<Rightarrow> ('k \<Rightarrow> string) \<Rightarrow> bool" where
  "raw_ok C raw \<longleftrightarrow> (\<forall>k. length (raw k) = 32 \<and> seed_key C (raw k) = k)"

text \<open>A provider keeps its identity over restarts. The first call at a path creates a key file that
  only its owner can read, and every later call, whatever key it would have generated, returns the
  same identity and changes no file; a file of another length is refused and kept.\<close>

theorem a_restart_keeps_the_identity:
  assumes "raw_ok C raw" "load_or_create C raw k path files = Inr (idt, files')"
  shows "(\<forall>k'. load_or_create C raw k' path files' = Inr (idt, files'))
    \<and> (dget files path = None \<longrightarrow> idt = identity_of C k \<and> map_option kf_mode (dget files' path) = Some 384)
    \<and> (\<forall>p. p \<noteq> path \<longrightarrow> dget files' p = dget files p)
    \<and> (\<forall>f k'. length (kf_bytes f) \<noteq> 32 \<longrightarrow> load_or_create C raw k' path [(path, f)] = Inl ValueError)"
  using assms
  by (auto simp: load_or_create_def raw_ok_def from_private_bytes_def split: option.splits if_splits)

text \<open>A key library with a single key.\<close>

definition one_key_crypto :: "unit crypto" where
  "one_key_crypto = \<lparr>ed_public = (\<lambda>s. ''p''), ed_sign = (\<lambda>s m. m), ed_key_ok = (\<lambda>k. True),
     ed_verify = (\<lambda>k s m. s = m), seed_key = (\<lambda>s. ()), sha256_hex = (\<lambda>s. s)\<rparr>"

definition one_key_raw :: "unit \<Rightarrow> string" where
  "one_key_raw k = replicate 32 (CHR ''s'')"

lemma a_restart_keeps_the_identity_witness:
  "load_or_create one_key_crypto one_key_raw () ''key'' [(''key'', \<lparr>kf_bytes = one_key_raw (), kf_mode = 384\<rparr>)] =
     Inr (identity_of one_key_crypto (), [(''key'', \<lparr>kf_bytes = one_key_raw (), kf_mode = 384\<rparr>)])"
proof -
  have ok: "raw_ok one_key_crypto one_key_raw" by (simp add: raw_ok_def one_key_raw_def)
  have made: "load_or_create one_key_crypto one_key_raw () ''key'' [] =
      Inr (identity_of one_key_crypto (), [(''key'', \<lparr>kf_bytes = one_key_raw (), kf_mode = 384\<rparr>)])"
    by (simp add: load_or_create_def)
  show ?thesis by (rule spec [OF conjunct1 [OF a_restart_keeps_the_identity [OF ok made]], of "()"])
qed

subsection \<open>What the links pass on\<close>

text \<open>\<open>InProcessLink.cancel\<close> and \<open>thread_messages\<close>; \<open>validate\<close> is the AG-UI package's adapter, \<open>None\<close> where
  it raises.\<close>

definition link_cancel :: "string \<Rightarrow> 'i runtime \<Rightarrow> 'i runtime" where
  "link_cancel run_id rt = rt_cancel run_id rt"

definition link_thread_messages ::
    "(pyval list \<Rightarrow> 'm list option) \<Rightarrow> string \<Rightarrow> int option \<Rightarrow> db \<Rightarrow> 'm list result" where
  "link_thread_messages validate thread_id limit d =
     (case validate (get_thread_messages d thread_id) of
        None \<Rightarrow> Inl ValueError | Some messages \<Rightarrow> Inr (last_messages messages limit))"

text \<open>\<open>FunduqLLMLink.complete\<close> and \<open>InProcessLLMProvider.serve\<close>: the handler sees the delivered form.\<close>

definition llm_serve :: "(delivered_completion \<Rightarrow> 'c) \<Rightarrow> delivered_completion \<Rightarrow> 'c" where
  "llm_serve handler delivered = handler delivered"

definition llm_complete :: "(delivered_completion \<Rightarrow> 'c) \<Rightarrow> completion_request \<Rightarrow> 'c" where
  "llm_complete handler request = llm_serve handler (from_request request)"

text \<open>With a positive limit the link hands over the newest messages, at most that many, in their order.\<close>

lemma link_messages_are_the_newest:
  assumes "link_thread_messages validate t (Some n) d = Inr ms" "0 < n"
  shows "\<exists>all. validate (get_thread_messages d t) = Some all \<and> suffix ms all \<and> length ms = min (nat n) (length all)"
  using assms by (auto simp: link_thread_messages_def last_messages_def suffix_drop split: option.splits)

end
