(* ===== verification/Changes.thy ===== *)
theory Changes
  imports Handlers
begin

text \<open>
  \<open>Funduq.on_change\<close> and \<open>Funduq._notify_change\<close>: who hears of the changes a \<open>world\<close> collects in
  \<open>w_changes\<close>.  The subscribers are a set of callbacks \<open>'c\<close>; a callback may raise, which is logged.
\<close>

record 'c listeners =
  cs_subscribers :: "'c set"
  cs_heard :: "('c \<times> change_event) list"

definition on_change :: "'c \<Rightarrow> 'c listeners \<Rightarrow> 'c listeners" where
  "on_change callback s = s\<lparr>cs_subscribers := insert callback (cs_subscribers s)\<rparr>"

definition unsubscribe :: "'c \<Rightarrow> 'c listeners \<Rightarrow> 'c listeners" where
  "unsubscribe callback s = s\<lparr>cs_subscribers := cs_subscribers s - {callback}\<rparr>"

text \<open>The loop of \<open>_notify_change\<close> over the snapshot of the subscribers, in the order the set yields them;
  \<open>raises\<close> says which calls end in an exception: the event was handed over all the same, and the loop
  goes on.\<close>

fun call_all :: "('c \<Rightarrow> change_event \<Rightarrow> bool) \<Rightarrow> change_event \<Rightarrow> 'c list \<Rightarrow> 'c listeners \<Rightarrow> 'c listeners \<times> nat" where
  "call_all raises e [] s = (s, 0)"
| "call_all raises e (c # cs) s =
     (let (s', logged) = call_all raises e cs (s\<lparr>cs_heard := cs_heard s @ [(c, e)]\<rparr>)
      in (s', if raises c e then Suc logged else logged))"

definition notify_listeners ::
    "('c \<Rightarrow> change_event \<Rightarrow> bool) \<Rightarrow> ('c set \<Rightarrow> 'c list) \<Rightarrow> change_event \<Rightarrow> 'c listeners \<Rightarrow> 'c listeners" where
  "notify_listeners raises order e s = fst (call_all raises e (order (cs_subscribers s)) s)"

datatype 'c listener_op = Listen 'c | StopListening 'c | Change change_event

fun listener_step ::
    "('c \<Rightarrow> change_event \<Rightarrow> bool) \<Rightarrow> ('c set \<Rightarrow> 'c list) \<Rightarrow> 'c listener_op \<Rightarrow> 'c listeners \<Rightarrow> 'c listeners" where
  "listener_step raises order (Listen c) s = on_change c s"
| "listener_step raises order (StopListening c) s = unsubscribe c s"
| "listener_step raises order (Change e) s = notify_listeners raises order e s"

text \<open>What a callback should hear: the changes that fall while it is subscribed.\<close>

fun hears :: "'c \<Rightarrow> bool \<Rightarrow> 'c listener_op list \<Rightarrow> change_event list" where
  "hears c subscribed [] = []"
| "hears c subscribed (Listen d # ops) = hears c (subscribed \<or> d = c) ops"
| "hears c subscribed (StopListening d # ops) = hears c (subscribed \<and> d \<noteq> c) ops"
| "hears c subscribed (Change e # ops) = (if subscribed then [e] else []) @ hears c subscribed ops"

definition heard_by :: "'c \<Rightarrow> 'c listeners \<Rightarrow> change_event list" where
  "heard_by c s = map snd (filter (\<lambda>x. fst x = c) (cs_heard s))"

lemma call_all_subscribers [simp]: "cs_subscribers (fst (call_all raises e cs s)) = cs_subscribers s"
  by (induction raises e cs s rule: call_all.induct) (simp_all add: case_prod_beta Let_def)

lemma call_all_heard: "cs_heard (fst (call_all raises e cs s)) = cs_heard s @ map (\<lambda>c. (c, e)) cs"
  by (induction raises e cs s rule: call_all.induct) (simp_all add: case_prod_beta Let_def)

lemma heard_once:
  "distinct cs \<Longrightarrow> map snd (filter (\<lambda>x. fst x = c) (map (\<lambda>c. (c, e)) cs)) = (if c \<in> set cs then [e] else [])"
  by (induction cs) auto

lemma heard_notify:
  assumes "distinct (order (cs_subscribers s))" "set (order (cs_subscribers s)) = cs_subscribers s"
  shows "heard_by c (notify_listeners raises order e s) =
    heard_by c s @ (if c \<in> cs_subscribers s then [e] else [])"
  using heard_once [OF assms(1), of c e] assms(2)
  by (simp add: heard_by_def notify_listeners_def call_all_heard)

lemma finite_listeners: "finite (cs_subscribers s) \<Longrightarrow> finite (cs_subscribers (listener_step raises order op s))"
  by (cases op) (simp_all add: on_change_def unsubscribe_def notify_listeners_def)

text \<open>Every subscriber hears every change while it is subscribed, once and in order, and no other,
  whichever callbacks of whichever subscribers raise and in whatever order the set is walked.\<close>

theorem listeners_hear_every_change:
  assumes "finite (cs_subscribers s)"
    and "\<And>S. finite S \<Longrightarrow> distinct (order S) \<and> set (order S) = S"
  shows "heard_by c (fold (listener_step raises order) ops s) =
    heard_by c s @ hears c (c \<in> cs_subscribers s) ops"
  using assms(1)
proof (induction ops arbitrary: s)
  case Nil
  then show ?case by simp
next
  case (Cons op ops)
  note IH = Cons.IH [OF finite_listeners [OF Cons.prems, of raises order op]]
  show ?case
  proof (cases op)
    case (Change e)
    then show ?thesis
      using IH heard_notify [of order s c raises e] assms(2) [OF Cons.prems]
      by (simp add: notify_listeners_def)
  next
    case (Listen d)
    then show ?thesis using IH by (simp add: on_change_def heard_by_def eq_commute disj_commute)
  next
    case (StopListening d)
    then show ?thesis using IH by (simp add: unsubscribe_def heard_by_def eq_commute)
  qed
qed

lemma listeners_hear_every_change_witness:
  "heard_by (1::nat) (fold (listener_step (\<lambda>c e. c = 2) sorted_list_of_set)
     [Listen 2, Listen 1, Change RosterChanged, StopListening 1, Change LlmRosterChanged]
     \<lparr>cs_subscribers = {}, cs_heard = []\<rparr>) = [RosterChanged]"
proof -
  have s: "finite (cs_subscribers \<lparr>cs_subscribers = {} :: nat set, cs_heard = []\<rparr>)" by simp
  show ?thesis
    by (subst listeners_hear_every_change [OF s]) (simp_all add: heard_by_def)
qed

end
