(* ===== verification/Migrations.thy ===== *)
theory Migrations
  imports CoreRuns
begin

text \<open>
  \<open>funduq/migrate.py\<close> with the revisions under \<open>funduq/alembic/versions\<close>, against the tables
  \<open>funduq/schema.py\<close> declares.  The database's catalog holds its tables, its indexes and the revision
  Alembic recorded.  Alembic and SQLAlchemy are third-party code, used as documented: an operation
  fails on a name that is taken or missing, upgrading runs the revisions that follow the recorded one,
  a primary key column is not nullable, and column-level keys are constraints of the table.  Column
  defaults are filled in by the program, not the database.
\<close>

subsection \<open>Catalogs\<close>

datatype col_type = CString | CInteger | CBigSerial | CTimestamp | CJson

record db_column =
  co_name :: string
  co_type :: col_type
  co_nullable :: bool

definition column :: "string \<Rightarrow> col_type \<Rightarrow> bool \<Rightarrow> db_column" where
  "column n t nullable = \<lparr>co_name = n, co_type = t, co_nullable = nullable\<rparr>"

text \<open>Constraints as they are written down: the name where there is one, columns, and for a foreign key
  the \<open>table.column\<close>s it refers to.\<close>

datatype table_constraint =
    PrimaryKey "string list"
  | ForeignKey "string option" "string list" "string list"
  | Unique "string option" "string list"
  | Check string string

record db_table =
  ta_columns :: "db_column list"
  ta_constraints :: "table_constraint list"

record catalog =
  ca_tables :: "(string, db_table) dict"
  ca_indexes :: "(string, string \<times> string list) dict"
  ca_revision :: "string option"

definition empty_catalog :: catalog where
  "empty_catalog = \<lparr>ca_tables = [], ca_indexes = [], ca_revision = None\<rparr>"

subsection \<open>Operations\<close>

datatype ddl =
    CreateTable string "db_column list" "table_constraint list"
  | CreateIndex string string "string list"
  | AddColumn string db_column
  | DropIndex string string
  | DropTable string
  | DropColumn string string

definition table_of_column :: "string \<Rightarrow> string" where
  "table_of_column target = takeWhile (\<lambda>c. c \<noteq> CHR ''.'') target"

fun refers_to :: "table_constraint \<Rightarrow> string list" where
  "refers_to (ForeignKey n cs targets) = map table_of_column targets"
| "refers_to _ = []"

definition referenced :: "db_table \<Rightarrow> string list" where
  "referenced t = concat (map refers_to (ta_constraints t))"

definition column_names :: "db_table \<Rightarrow> string list" where
  "column_names t = map co_name (ta_columns t)"

definition in_table :: "string \<Rightarrow> (db_table \<Rightarrow> db_table option) \<Rightarrow> catalog \<Rightarrow> catalog option" where
  "in_table n f c =
     Option.bind (dget (ca_tables c) n) (\<lambda>t. map_option (\<lambda>t'. c\<lparr>ca_tables := dset n t' (ca_tables c)\<rparr>) (f t))"

fun apply_ddl :: "ddl \<Rightarrow> catalog \<Rightarrow> catalog option" where
  "apply_ddl (CreateTable n columns constraints) c =
     (let t = \<lparr>ta_columns = columns, ta_constraints = constraints\<rparr> in
      if dget (ca_tables c) n \<noteq> None \<or> \<not> set (referenced t) \<subseteq> insert n (set (dkeys (ca_tables c))) then None
      else Some (c\<lparr>ca_tables := dset n t (ca_tables c)\<rparr>))"
| "apply_ddl (CreateIndex i n columns) c =
     (case dget (ca_tables c) n of
        None \<Rightarrow> None
      | Some t \<Rightarrow>
          if dget (ca_indexes c) i \<noteq> None \<or> \<not> set columns \<subseteq> set (column_names t) then None
          else Some (c\<lparr>ca_indexes := dset i (n, columns) (ca_indexes c)\<rparr>))"
| "apply_ddl (AddColumn n col) c =
     in_table n (\<lambda>t. if co_name col \<in> set (column_names t) then None
                     else Some (t\<lparr>ta_columns := ta_columns t @ [col]\<rparr>)) c"
| "apply_ddl (DropIndex i n) c =
     (case dget (ca_indexes c) i of
        None \<Rightarrow> None
      | Some x \<Rightarrow> if fst x \<noteq> n then None else Some (c\<lparr>ca_indexes := dpop i (ca_indexes c)\<rparr>))"
| "apply_ddl (DropTable n) c =
     (if dget (ca_tables c) n = None \<or> (\<exists>x \<in> set (ca_tables c). fst x \<noteq> n \<and> n \<in> set (referenced (snd x))) then None
      else Some (c\<lparr>ca_tables := dpop n (ca_tables c),
                   ca_indexes := filter (\<lambda>x. fst (snd x) \<noteq> n) (ca_indexes c)\<rparr>))"
| "apply_ddl (DropColumn n col) c =
     in_table n (\<lambda>t. if col \<in> set (column_names t)
                     then Some (t\<lparr>ta_columns := filter (\<lambda>x. co_name x \<noteq> col) (ta_columns t)\<rparr>) else None) c"

fun apply_all :: "ddl list \<Rightarrow> catalog \<Rightarrow> catalog option" where
  "apply_all [] c = Some c"
| "apply_all (x # xs) c = Option.bind (apply_ddl x c) (apply_all xs)"

subsection \<open>The revisions\<close>

record revision =
  rv_revision :: string
  rv_down_revision :: "string option"
  rv_upgrade :: "ddl list"
  rv_downgrade :: "ddl list"

definition initial_upgrade :: "ddl list" where
  "initial_upgrade =
    [CreateTable ''providers''
       [column ''public_key'' CString False,
        column ''fingerprint'' CString False,
        column ''display_name'' CString True,
        column ''updated_at'' CTimestamp False]
       [PrimaryKey [''public_key''],
        Unique None [''fingerprint'']],
     CreateTable ''agents''
       [column ''provider_key'' CString False,
        column ''name'' CString False,
        column ''agent_card'' CJson False,
        column ''metadata'' CJson False,
        column ''joined_at'' CTimestamp False,
        column ''last_seen_at'' CTimestamp False]
       [ForeignKey None [''provider_key''] [''providers.public_key''],
        PrimaryKey [''provider_key'', ''name'']],
     CreateTable ''llm_providers''
       [column ''provider_key'' CString False,
        column ''name'' CString False,
        column ''metadata'' CJson False,
        column ''joined_at'' CTimestamp False,
        column ''last_seen_at'' CTimestamp False]
       [ForeignKey None [''provider_key''] [''providers.public_key''],
        PrimaryKey [''provider_key'', ''name'']],
     CreateTable ''threads''
       [column ''thread_id'' CString False,
        column ''provider_key'' CString False,
        column ''agent_name'' CString False,
        column ''parent_thread_id'' CString True,
        column ''metadata'' CJson False,
        column ''created_at'' CTimestamp False,
        column ''last_activity_at'' CTimestamp False]
       [ForeignKey None [''parent_thread_id''] [''threads.thread_id''],
        ForeignKey (Some ''fk_threads_agent'') [''provider_key'', ''agent_name''] [''agents.provider_key'', ''agents.name''],
        PrimaryKey [''thread_id'']],
     CreateIndex ''idx_threads_parent'' ''threads'' [''parent_thread_id''],
     CreateTable ''runs''
       [column ''run_id'' CString False,
        column ''thread_id'' CString False,
        column ''provider_key'' CString False,
        column ''agent_name'' CString False,
        column ''protocol'' CString False,
        column ''status'' CString False,
        column ''input_json'' CJson False,
        column ''started_at'' CTimestamp True,
        column ''completed_at'' CTimestamp True,
        column ''last_activity_at'' CTimestamp True,
        column ''metadata'' CJson False,
        column ''created_at'' CTimestamp False]
       [Check ''ck_runs_protocol'' ''protocol IN ('ag-ui', 'a2a')'',
        Check ''ck_runs_status'' ''status IN ('queued', 'running', 'input-required', 'cancelling', 'completed', 'failed', 'cancelled')'',
        ForeignKey (Some ''fk_runs_agent'') [''provider_key'', ''agent_name''] [''agents.provider_key'', ''agents.name''],
        ForeignKey None [''thread_id''] [''threads.thread_id''],
        PrimaryKey [''run_id'']],
     CreateIndex ''idx_runs_agent_status'' ''runs'' [''provider_key'', ''agent_name'', ''status''],
     CreateIndex ''idx_runs_thread'' ''runs'' [''thread_id'', ''created_at''],
     CreateTable ''run_events''
       [column ''id'' CBigSerial False,
        column ''run_id'' CString False,
        column ''seq'' CInteger False,
        column ''event_json'' CJson False,
        column ''created_at'' CTimestamp False]
       [ForeignKey None [''run_id''] [''runs.run_id''],
        PrimaryKey [''id'']],
     CreateIndex ''idx_run_events_run'' ''run_events'' [''run_id'', ''seq''],
     CreateTable ''thread_messages''
       [column ''id'' CBigSerial False,
        column ''thread_id'' CString False,
        column ''run_id'' CString False,
        column ''message_id'' CString False,
        column ''message_json'' CJson False,
        column ''metadata'' CJson False,
        column ''created_at'' CTimestamp False]
       [ForeignKey None [''run_id''] [''runs.run_id''],
        ForeignKey None [''thread_id''] [''threads.thread_id''],
        PrimaryKey [''id''],
        Unique (Some ''uq_thread_messages_thread_message'') [''thread_id'', ''message_id'']],
     CreateIndex ''idx_thread_messages_thread'' ''thread_messages'' [''thread_id'', ''id'']]"

definition initial_downgrade :: "ddl list" where
  "initial_downgrade =
    [DropIndex ''idx_thread_messages_thread'' ''thread_messages'',
     DropTable ''thread_messages'',
     DropIndex ''idx_run_events_run'' ''run_events'',
     DropTable ''run_events'',
     DropIndex ''idx_runs_thread'' ''runs'',
     DropIndex ''idx_runs_agent_status'' ''runs'',
     DropTable ''runs'',
     DropIndex ''idx_threads_parent'' ''threads'',
     DropTable ''threads'',
     DropTable ''llm_providers'',
     DropTable ''agents'',
     DropTable ''providers'']"

definition initial_schema :: revision where
  "initial_schema = \<lparr>rv_revision = ''ff342e6c6b85'', rv_down_revision = None,
     rv_upgrade = initial_upgrade, rv_downgrade = initial_downgrade\<rparr>"

definition head_keys :: revision where
  "head_keys = \<lparr>rv_revision = ''a11c3b7d42e9'', rv_down_revision = Some ''ff342e6c6b85'',
     rv_upgrade = [AddColumn ''threads'' (column ''head_key'' CString True),
                   AddColumn ''runs'' (column ''head_key'' CString True)],
     rv_downgrade = [DropColumn ''runs'' ''head_key'', DropColumn ''threads'' ''head_key'']\<rparr>"

definition versions :: "revision list" where
  "versions = [initial_schema, head_keys]"

definition EXPECTED_SCHEMA_REVISION :: string where
  "EXPECTED_SCHEMA_REVISION = ''a11c3b7d42e9''"

text \<open>Upgrading to the head: each revision that follows the recorded one is applied and recorded.\<close>

fun upgrade_head :: "revision list \<Rightarrow> catalog \<Rightarrow> catalog option" where
  "upgrade_head [] c = Some c"
| "upgrade_head (r # rs) c =
     (if rv_down_revision r = ca_revision c
      then Option.bind (apply_all (rv_upgrade r) c) (\<lambda>c'. upgrade_head rs (c'\<lparr>ca_revision := Some (rv_revision r)\<rparr>))
      else upgrade_head rs c)"

definition downgrade :: "revision \<Rightarrow> catalog \<Rightarrow> catalog option" where
  "downgrade r c =
     (if ca_revision c = Some (rv_revision r)
      then map_option (\<lambda>c'. c'\<lparr>ca_revision := rv_down_revision r\<rparr>) (apply_all (rv_downgrade r) c) else None)"

definition migrate :: "catalog \<Rightarrow> catalog option" where
  "migrate c = upgrade_head versions c"

subsection \<open>The declared tables\<close>

text \<open>A declared column: its type, the column it refers to, whether it is the primary key or part of it,
  unique, nullable.\<close>

datatype declared_item =
    Declared string col_type "string option" bool bool bool
  | Extra table_constraint
  | Indexed string "string list"

fun declared_columns :: "declared_item list \<Rightarrow> db_column list" where
  "declared_columns [] = []"
| "declared_columns (Declared n t target primary uniq nullable # ds) =
     column n t (nullable \<and> \<not> primary) # declared_columns ds"
| "declared_columns (_ # ds) = declared_columns ds"

definition primary_key :: "declared_item list \<Rightarrow> string list" where
  "primary_key ds = concat (map (\<lambda>d. case d of Declared n t target primary uniq nullable \<Rightarrow> if primary then [n] else []
                                   | _ \<Rightarrow> []) ds)"

fun declared_constraints :: "declared_item list \<Rightarrow> table_constraint list" where
  "declared_constraints [] = []"
| "declared_constraints (Declared n t target primary uniq nullable # ds) =
     (case target of None \<Rightarrow> [] | Some x \<Rightarrow> [ForeignKey None [n] [x]])
     @ (if uniq then [Unique None [n]] else []) @ declared_constraints ds"
| "declared_constraints (Extra x # ds) = x # declared_constraints ds"
| "declared_constraints (Indexed i cs # ds) = declared_constraints ds"

fun declared_indexes :: "string \<Rightarrow> declared_item list \<Rightarrow> (string \<times> string \<times> string list) list" where
  "declared_indexes n [] = []"
| "declared_indexes n (Indexed i cs # ds) = (i, n, cs) # declared_indexes n ds"
| "declared_indexes n (_ # ds) = declared_indexes n ds"

definition declared_table :: "declared_item list \<Rightarrow> db_table" where
  "declared_table ds = \<lparr>ta_columns = declared_columns ds,
     ta_constraints = PrimaryKey (primary_key ds) # declared_constraints ds\<rparr>"

definition providers_table :: "declared_item list" where
  "providers_table =
    [Declared ''public_key'' CString None True False False,
     Declared ''fingerprint'' CString None False True False,
     Declared ''display_name'' CString None False False True,
     Declared ''updated_at'' CTimestamp None False False False]"

definition agents_table :: "declared_item list" where
  "agents_table =
    [Declared ''provider_key'' CString (Some ''providers.public_key'') True False False,
     Declared ''name'' CString None True False False,
     Declared ''agent_card'' CJson None False False False,
     Declared ''metadata'' CJson None False False False,
     Declared ''joined_at'' CTimestamp None False False False,
     Declared ''last_seen_at'' CTimestamp None False False False]"

definition llm_providers_table :: "declared_item list" where
  "llm_providers_table =
    [Declared ''provider_key'' CString (Some ''providers.public_key'') True False False,
     Declared ''name'' CString None True False False,
     Declared ''metadata'' CJson None False False False,
     Declared ''joined_at'' CTimestamp None False False False,
     Declared ''last_seen_at'' CTimestamp None False False False]"

definition threads_table :: "declared_item list" where
  "threads_table =
    [Declared ''thread_id'' CString None True False False,
     Declared ''provider_key'' CString None False False False,
     Declared ''agent_name'' CString None False False False,
     Declared ''parent_thread_id'' CString (Some ''threads.thread_id'') False False True,
     Declared ''head_key'' CString None False False True,
     Declared ''metadata'' CJson None False False False,
     Declared ''created_at'' CTimestamp None False False False,
     Declared ''last_activity_at'' CTimestamp None False False False,
     Extra (ForeignKey (Some ''fk_threads_agent'') [''provider_key'', ''agent_name''] [''agents.provider_key'', ''agents.name'']),
     Indexed ''idx_threads_parent'' [''parent_thread_id'']]"

definition runs_table :: "declared_item list" where
  "runs_table =
    [Declared ''run_id'' CString None True False False,
     Declared ''thread_id'' CString (Some ''threads.thread_id'') False False False,
     Declared ''provider_key'' CString None False False False,
     Declared ''agent_name'' CString None False False False,
     Declared ''protocol'' CString None False False False,
     Declared ''status'' CString None False False False,
     Declared ''head_key'' CString None False False True,
     Declared ''input_json'' CJson None False False False,
     Declared ''started_at'' CTimestamp None False False True,
     Declared ''completed_at'' CTimestamp None False False True,
     Declared ''last_activity_at'' CTimestamp None False False True,
     Declared ''metadata'' CJson None False False False,
     Declared ''created_at'' CTimestamp None False False False,
     Extra (Check ''ck_runs_protocol'' ''protocol IN ('ag-ui', 'a2a')''),
     Extra (Check ''ck_runs_status'' ''status IN ('queued', 'running', 'input-required', 'cancelling', 'completed', 'failed', 'cancelled')''),
     Extra (ForeignKey (Some ''fk_runs_agent'') [''provider_key'', ''agent_name''] [''agents.provider_key'', ''agents.name'']),
     Indexed ''idx_runs_thread'' [''thread_id'', ''created_at''],
     Indexed ''idx_runs_agent_status'' [''provider_key'', ''agent_name'', ''status'']]"

definition thread_messages_table :: "declared_item list" where
  "thread_messages_table =
    [Declared ''id'' CBigSerial None True False False,
     Declared ''thread_id'' CString (Some ''threads.thread_id'') False False False,
     Declared ''run_id'' CString (Some ''runs.run_id'') False False False,
     Declared ''message_id'' CString None False False False,
     Declared ''message_json'' CJson None False False False,
     Declared ''metadata'' CJson None False False False,
     Declared ''created_at'' CTimestamp None False False False,
     Extra (Unique (Some ''uq_thread_messages_thread_message'') [''thread_id'', ''message_id'']),
     Indexed ''idx_thread_messages_thread'' [''thread_id'', ''id'']]"

definition run_events_table :: "declared_item list" where
  "run_events_table =
    [Declared ''id'' CBigSerial None True False False,
     Declared ''run_id'' CString (Some ''runs.run_id'') False False False,
     Declared ''seq'' CInteger None False False False,
     Declared ''event_json'' CJson None False False False,
     Declared ''created_at'' CTimestamp None False False False,
     Indexed ''idx_run_events_run'' [''run_id'', ''seq'']]"

definition metadata_tables :: "(string \<times> declared_item list) list" where
  "metadata_tables =
    [(''providers'', providers_table), (''agents'', agents_table), (''llm_providers'', llm_providers_table), (''threads'', threads_table), (''runs'', runs_table), (''thread_messages'', thread_messages_table), (''run_events'', run_events_table)]"

definition declared_catalog :: catalog where
  "declared_catalog = \<lparr>ca_tables = map (\<lambda>(n, ds). (n, declared_table ds)) metadata_tables,
     ca_indexes = concat (map (\<lambda>(n, ds). declared_indexes n ds) metadata_tables),
     ca_revision = Some EXPECTED_SCHEMA_REVISION\<rparr>"

end
