(* ===== verification/MigrationClaims.thy ===== *)
theory MigrationClaims
  imports Migrations
begin

text \<open>
  The chain of revisions against the declared tables: two descriptions of the database that are written
  down independently and have to agree.
\<close>

text \<open>The same items in whatever order: columns that were added later stand at the end of their table.\<close>

definition same_items :: "'a list \<Rightarrow> 'a list \<Rightarrow> bool" where
  "same_items xs ys \<longleftrightarrow> length xs = length ys \<and> set xs = set ys"

definition same_table :: "db_table option \<Rightarrow> db_table option \<Rightarrow> bool" where
  "same_table t u \<longleftrightarrow>
     (case (t, u) of
        (Some x, Some y) \<Rightarrow>
          same_items (ta_columns x) (ta_columns y) \<and> same_items (ta_constraints x) (ta_constraints y)
      | _ \<Rightarrow> False)"

definition same_catalog :: "catalog \<Rightarrow> catalog \<Rightarrow> bool" where
  "same_catalog c d \<longleftrightarrow>
     same_items (dkeys (ca_tables c)) (dkeys (ca_tables d)) \<and>
     (\<forall>n \<in> set (dkeys (ca_tables c)). same_table (dget (ca_tables c) n) (dget (ca_tables d) n)) \<and>
     same_items (ca_indexes c) (ca_indexes d) \<and> ca_revision c = ca_revision d"

definition migrated_ok :: "catalog \<Rightarrow> catalog \<Rightarrow> bool" where
  "migrated_ok m c \<longleftrightarrow> same_catalog c declared_catalog \<and> migrate c = Some c \<and> migrate m = Some c \<and>
     downgrade head_keys c = Some m \<and> downgrade initial_schema m = Some empty_catalog"

lemma migrated:
  "(case upgrade_head [initial_schema] empty_catalog of
      None \<Rightarrow> False
    | Some m \<Rightarrow> (case migrate empty_catalog of None \<Rightarrow> False | Some c \<Rightarrow> migrated_ok m c))"
  by code_simp


end
