(* ===== verification/MigrationEnv.thy ===== *)
theory MigrationEnv
  imports MigrationClaims
begin

text \<open>
  Which database and which schema: \<open>funduq/alembic/env.py\<close> and \<open>funduq/db_schema.py\<close> on the side of the
  migrations, \<open>_create_engine\<close> of \<open>funduq/core.py\<close> with the two settings it reads on the side of the
  program.  SQLAlchemy's \<open>make_url\<close> is the record \<open>url_lib\<close>; \<open>configparser\<close>, which Alembic stores the
  URL in, is the standard library's.  Statements are the SQL text sent, connections the options given.
\<close>

subsection \<open>The settings\<close>

definition DEFAULT_DB_SCHEMA :: string where
  "DEFAULT_DB_SCHEMA = ''public''"

definition DEFAULT_DATABASE_URL :: string where
  "DEFAULT_DATABASE_URL = ''sqlite+aiosqlite:///./funduq.db''"

definition quoted_schema :: "string \<Rightarrow> string" where
  "quoted_schema db_schema = [CHR ''\"''] @ db_schema @ [CHR ''\"'']"

text \<open>The backend and the driver of a URL, and the URL with the driver name \<open>sqlite\<close>.\<close>

record url_lib =
  ul_backend :: "string \<Rightarrow> string"
  ul_driver :: "string \<Rightarrow> string"
  ul_sync :: "string \<Rightarrow> string"

text \<open>Documented: with the driver name \<open>sqlite\<close> it is still a URL of that backend.\<close>

definition url_ok :: "url_lib \<Rightarrow> bool" where
  "url_ok U \<longleftrightarrow> (\<forall>u. ul_backend U (ul_sync U u) = ''sqlite'')"

text \<open>The process environment: \<open>FUNDUQ_DATABASE_URL\<close> and \<open>FUNDUQ_DB_SCHEMA\<close>.\<close>

record environ =
  en_database_url :: "string option"
  en_db_schema :: "string option"

record database_settings =
  ds_database_url :: string
  ds_db_schema :: string

definition settings_from :: "environ \<Rightarrow> database_settings" where
  "settings_from env =
     \<lparr>ds_database_url = (case en_database_url env of None \<Rightarrow> DEFAULT_DATABASE_URL | Some u \<Rightarrow> u),
      ds_db_schema = (case en_db_schema env of None \<Rightarrow> DEFAULT_DB_SCHEMA | Some s \<Rightarrow> s)\<rparr>"

subsection \<open>The program's engine\<close>

text \<open>A search path as it is set: none for the database's own default.\<close>

record engine_setup =
  es_url :: string
  es_options :: "string option"
  es_pre_ping :: bool
  es_pragmas :: "string list"

definition create_engine :: "url_lib \<Rightarrow> database_settings \<Rightarrow> engine_setup" where
  "create_engine U st =
     (let is_sqlite = (ul_backend U (ds_database_url st) = ''sqlite'') in
      \<lparr>es_url = ds_database_url st,
       es_options = (if \<not> is_sqlite \<and> ds_db_schema st \<noteq> DEFAULT_DB_SCHEMA
                     then Some (''-c search_path='' @ quoted_schema (ds_db_schema st) @ '',public'') else None),
       es_pre_ping = (\<not> is_sqlite),
       es_pragmas = (if is_sqlite then [''PRAGMA foreign_keys=ON'', ''PRAGMA journal_mode=WAL'', ''PRAGMA busy_timeout=5000'']
                     else [])\<rparr>)"

subsection \<open>The migrations' connection\<close>

text \<open>\<open>ConfigParser.set\<close> drops the doubled percent signs, then the references \<open>%(name)s\<close>, and refuses a
  value that has a percent sign left.  \<open>get\<close> halves the doubled ones and puts in the value of each
  reference, \<open>lookup\<close>, or raises.\<close>

fun drop_doubled :: "string \<Rightarrow> string" where
  "drop_doubled (c # d # cs) =
     (if c = CHR ''%'' \<and> d = CHR ''%'' then drop_doubled cs else c # drop_doubled (d # cs))"
| "drop_doubled cs = cs"

text \<open>The name and what follows it, where a reference starts after \<open>%(\<close>.\<close>

definition reference_after :: "string \<Rightarrow> (string \<times> string) option" where
  "reference_after cs =
     (let name = takeWhile (\<lambda>c. c \<noteq> CHR '')'') cs;
          rest = dropWhile (\<lambda>c. c \<noteq> CHR '')'') cs
      in if name \<noteq> [] \<and> take 2 rest = '')s'' then Some (name, drop 2 rest) else None)"

lemma reference_shorter: "reference_after cs = Some (name, rest) \<Longrightarrow> length rest < Suc (length cs)"
  using length_dropWhile_le [of "\<lambda>c. c \<noteq> CHR '')''" cs] by (auto simp: reference_after_def Let_def split: if_splits)

function drop_references :: "string \<Rightarrow> string" where
  "drop_references [] = []"
| "drop_references (c # cs) =
     (case (if c = CHR ''%'' \<and> take 1 cs = ''('' then reference_after (drop 1 cs) else None) of
        Some (name, rest) \<Rightarrow> drop_references rest
      | None \<Rightarrow> c # drop_references cs)"
  by pat_completeness auto

termination
proof (relation "measure length")
  fix c :: char and cs x name rest
  assume "(if c = CHR ''%'' \<and> take 1 cs = ''('' then reference_after (drop 1 cs) else None) = Some x" "(name, rest) = x"
  then show "(rest, c # cs) \<in> measure length"
    using reference_shorter [of "drop 1 cs" name rest] by (auto split: if_splits)
qed simp_all

definition set_main_option :: "string \<Rightarrow> string option" where
  "set_main_option v = (if CHR ''%'' \<in> set (drop_references (drop_doubled v)) then None else Some v)"

function config_get :: "(string \<Rightarrow> string option) \<Rightarrow> string \<Rightarrow> string option" where
  "config_get lookup [] = Some []"
| "config_get lookup (c # cs) =
     (if c \<noteq> CHR ''%'' then map_option (Cons c) (config_get lookup cs)
      else if take 1 cs = ''%'' then map_option (Cons c) (config_get lookup (drop 1 cs))
      else if take 1 cs = ''('' then
        (case reference_after (drop 1 cs) of
           None \<Rightarrow> None
         | Some (name, rest) \<Rightarrow>
             Option.bind (lookup name) (\<lambda>v. map_option (\<lambda>vs. v @ vs) (config_get lookup rest)))
      else None)"
  by pat_completeness auto

termination
proof (relation "measure (\<lambda>(lookup, v). length v)")
  fix lookup :: "string \<Rightarrow> string option" and c :: char and cs x name rest v
  assume "reference_after (drop 1 cs) = Some x" "(name, rest) = x"
  then show "((lookup, rest), (lookup, c # cs)) \<in> measure (\<lambda>(lookup, v). length v)"
    using reference_shorter [of "drop 1 cs" name rest] by auto
qed auto

text \<open>\<open>attributes.get(a) or os.environ.get(e, default)\<close>\<close>

definition attribute_or :: "string option \<Rightarrow> string option \<Rightarrow> string \<Rightarrow> string" where
  "attribute_or a e d = (case a of Some (x # xs) \<Rightarrow> x # xs | _ \<Rightarrow> (case e of None \<Rightarrow> d | Some v \<Rightarrow> v))"

definition env_database_url :: "url_lib \<Rightarrow> string option \<Rightarrow> environ \<Rightarrow> string" where
  "env_database_url U attribute env =
     (let u = attribute_or attribute (en_database_url env) DEFAULT_DATABASE_URL in
      if ul_backend U u = ''sqlite'' \<and> ul_driver U u = ''aiosqlite'' then ul_sync U u else u)"

definition env_db_schema :: "url_lib \<Rightarrow> string \<Rightarrow> string option \<Rightarrow> environ \<Rightarrow> string" where
  "env_db_schema U url attribute env =
     (if ul_backend U url \<noteq> ''postgresql'' then DEFAULT_DB_SCHEMA
      else attribute_or attribute (en_db_schema env) DEFAULT_DB_SCHEMA)"

text \<open>What precedes the revisions, and where Alembic keeps its version table.  Online the statements are
  committed on their own; offline they are part of the one transaction of the script.\<close>

record migration_plan =
  pl_url :: string
  pl_statements :: "string list"
  pl_version_schema :: "string option"

definition schema_statements :: "string \<Rightarrow> string list" where
  "schema_statements s =
     (if s \<noteq> DEFAULT_DB_SCHEMA
      then [''CREATE SCHEMA IF NOT EXISTS '' @ quoted_schema s, ''SET search_path TO '' @ quoted_schema s @ '', public'']
      else [])"

definition migration_env ::
    "url_lib \<Rightarrow> (string \<Rightarrow> string option) \<Rightarrow> string option \<Rightarrow> string option \<Rightarrow> environ \<Rightarrow> migration_plan option" where
  "migration_env U lookup url_attribute schema_attribute env =
     (let u = env_database_url U url_attribute env;
          s = env_db_schema U u schema_attribute env
      in Option.bind (set_main_option u) (\<lambda>stored.
         map_option (\<lambda>url. \<lparr>pl_url = url, pl_statements = schema_statements s,
                            pl_version_schema = (if s \<noteq> DEFAULT_DB_SCHEMA then Some s else None)\<rparr>)
           (config_get lookup stored)))"

text \<open>\<open>migrate(database_url, db_schema)\<close> hands its arguments over as attributes.\<close>

definition migrate_database ::
    "url_lib \<Rightarrow> (string \<Rightarrow> string option) \<Rightarrow> string option \<Rightarrow> string option \<Rightarrow> environ \<Rightarrow> catalog
       \<Rightarrow> (migration_plan \<times> catalog) option" where
  "migrate_database U lookup database_url db_schema env c =
     Option.bind (migration_env U lookup database_url db_schema env) (\<lambda>p. map_option (\<lambda>c'. (p, c')) (migrate c))"

subsection \<open>The two sides meet\<close>

lemma drop_no_percent: "CHR ''%'' \<notin> set v \<Longrightarrow> drop_doubled v = v \<and> drop_references v = v"
  by (induction v rule: drop_doubled.induct) auto

lemma no_percent: "CHR ''%'' \<notin> set v \<Longrightarrow> set_main_option v = Some v \<and> config_get lookup v = Some v"
proof -
  assume v: "CHR ''%'' \<notin> set v"
  then have "config_get lookup v = Some v" by (induction v) auto
  with v show ?thesis by (simp add: set_main_option_def drop_no_percent)
qed

text \<open>What a search path setting names, whichever way it is sent.\<close>

definition engine_path :: "engine_setup \<Rightarrow> string option" where
  "engine_path e = map_option (drop (length ''-c search_path='')) (es_options e)"

definition plan_path :: "migration_plan \<Rightarrow> string option" where
  "plan_path p = (case pl_statements p of [_, s] \<Rightarrow> Some (filter (\<lambda>c. c \<noteq> CHR '' '') (drop (length ''SET search_path TO '') s))
                  | _ \<Rightarrow> None)"

text \<open>\<open>repo.get_schema_revision\<close>, which the health check reads.\<close>

definition get_schema_revision :: "catalog \<Rightarrow> string option" where
  "get_schema_revision c = ca_revision c"

lemma migrated_revision:
  assumes "migrate c = Some c'" "ca_revision c \<in> {None, Some (rv_revision initial_schema), Some EXPECTED_SCHEMA_REVISION}"
  shows "get_schema_revision c' = Some EXPECTED_SCHEMA_REVISION"
proof -
  have "rv_revision head_keys = EXPECTED_SCHEMA_REVISION" "rv_down_revision head_keys = Some (rv_revision initial_schema)"
    "rv_down_revision initial_schema = None" by code_simp+
  with assms show ?thesis
    by (auto simp: migrate_def versions_def get_schema_revision_def bind_eq_Some_conv split: if_splits)
qed


definition demo_urls :: url_lib where
  "demo_urls = \<lparr>ul_backend = (\<lambda>u. if take 6 u = ''sqlite'' then ''sqlite'' else ''postgresql''),
     ul_driver = (\<lambda>u. if take 6 u = ''sqlite'' then ''aiosqlite'' else ''psycopg''), ul_sync = (\<lambda>u. ''sqlite:///./funduq.db'')\<rparr>"


text \<open>A URL with an escaped character in its password is a good URL for the program; \<open>env.py\<close> stores it
  undoubled and \<open>configparser\<close> refuses it, so the database cannot be migrated.\<close>

lemma escaped_urls_are_not_migrated:
  assumes "ul_backend U ''postgresql://u:p%40ss@h/d'' = ''postgresql''"
  shows "migrate_database U lookup (Some ''postgresql://u:p%40ss@h/d'') schema env c = None"
proof -
  have "env_database_url U (Some ''postgresql://u:p%40ss@h/d'') env = ''postgresql://u:p%40ss@h/d''"
    using assms by (simp add: env_database_url_def attribute_or_def)
  moreover have "set_main_option ''postgresql://u:p%40ss@h/d'' = None" by code_simp
  ultimately show ?thesis by (simp add: migrate_database_def migration_env_def)
qed

end
