(* ===== verification/RunIdents.thy ===== *)
theory RunIdents
  imports BrokerMoves
begin

text \<open>
  What no step of the broker changes of a \<open>Run\<close>: the run and the thread it is about.  Only
  \<open>enqueue_run\<close> makes new objects.
\<close>

text \<open>The run and the thread of a \<open>Run\<close> never change while it lives.\<close>

definition ident :: "run \<Rightarrow> string \<times> string" where
  "ident r = (r_run_id r, r_thread_id r)"

definition idents :: "'h broker \<Rightarrow> (string \<times> string) list" where
  "idents b = map ident (b_objs b)"

lemma idents_same: "b_objs b' = b_objs b \<Longrightarrow> idents b' = idents b"
  by (simp add: idents_def)

lemma idents_pointwise:
  assumes "length (b_objs b') = length (b_objs b)" "\<And>x. standing (obj b' x) = standing (obj b x)"
  shows "idents b' = idents b"
  unfolding idents_def
proof (rule nth_equalityI)
  fix x assume "x < length (map ident (b_objs b'))"
  with assms(1) show "map ident (b_objs b') ! x = map ident (b_objs b) ! x"
    using standing_eqD [OF assms(2) [of x]] by (simp add: ident_def obj_def)
qed (simp add: assms(1))

lemma idents_calm: "calm b b' \<Longrightarrow> idents b' = idents b"
  by (rule idents_pointwise) (simp_all add: calm_def)

lemma idents_upd: "(\<And>r. ident (f r) = ident r) \<Longrightarrow> idents (upd_obj a f b) = idents b"
proof -
  assume f: "\<And>r. ident (f r) = ident r"
  have "map ident ((b_objs b)[a := f (b_objs b ! a)]) = map ident (b_objs b)"
  proof (rule nth_equalityI)
    fix x assume "x < length (map ident ((b_objs b)[a := f (b_objs b ! a)]))"
    then show "map ident ((b_objs b)[a := f (b_objs b ! a)]) ! x = map ident (b_objs b) ! x"
      by (cases "x = a") (simp_all add: f)
  qed simp
  then show ?thesis by (simp add: idents_def upd_obj_def)
qed

lemma idents_simps [simp]:
  "idents (put_cmd a c b) = idents b" "idents (put_out a i b) = idents b"
  "idents (spawn t b) = idents b" "idents (queue_remove ag j b) = idents b"
  "idents (take_capacity k b) = idents b" "idents (forget j b) = idents b"
  "idents (note_abnormal now k e b) = idents b" "idents (unregister_provider now ags b) = idents b"
proof -
  show "idents (put_cmd a c b) = idents b" "idents (put_out a i b) = idents b"
    unfolding put_cmd_def put_out_def by (intro idents_upd, simp add: ident_def)+
qed (rule idents_same, simp)+

lemma idents_claim [simp]: "idents (claim_run a p b) = idents b"
  by (simp add: claim_run_def Let_def idents_upd ident_def split: option.split)

lemma idents_move: "move s t \<Longrightarrow> \<exists>new. idents (fst t) = idents (fst s) @ new"
proof (induction rule: move.induct)
  case (m_calm b b' sw' sw)
  then show ?case by (simp add: idents_calm)
next
  case (m_enqueue run_id b sw now agent thread inp protocol h seq a b')
  then show ?case by (auto simp: enqueue_run_def Let_def idents_def split: if_splits)
next
  case (m_register m b sw)
  show ?case by (simp add: register_provider_def idents_def)
next
  case (m_cancel b sw run_id)
  show ?case by (simp add: request_cancel_def Let_def idents_upd ident_def split: option.split)
next
  case (m_prune b b' sw' sw)
  have "b_objs b' = b_objs b" using m_prune(1) unfolding pruned_def by blast
  then show ?case by (simp add: idents_def)
next
  case (m_full b p c d ag a here rest placed)
  show ?case by (simp add: idents_def)
next
  case (m_end t b b1 sw)
  have "idents b1 = idents (b\<lparr>b_tasks := remove1 t (b_tasks b)\<rparr>)" by (rule idents_calm [OF m_end(2)])
  then show ?case by (simp add: end_run_def) (simp add: idents_def)
qed simp_all

lemma idents_bstep: "bstep timeout s t \<Longrightarrow> length (b_objs (fst t)) = length (b_objs (fst s)) \<Longrightarrow> idents (fst t) = idents (fst s)"
proof -
  assume "bstep timeout s t" and len: "length (b_objs (fst t)) = length (b_objs (fst s))"
  then have "move\<^sup>*\<^sup>* s t" by (simp add: bstep_moves flip: moves_def)
  then have "\<exists>new. idents (fst t) = idents (fst s) @ new"
  proof (induction rule: rtranclp_induct)
    case (step t u)
    with idents_move [OF step(2)] show ?case by auto
  qed simp
  then obtain new where new: "idents (fst t) = idents (fst s) @ new" ..
  from arg_cong [OF this, of length] len have "new = []" by (simp add: idents_def)
  with new show ?thesis by simp
qed

text \<open>Steps of the broker that make no new run objects.\<close>

definition broker_runs_on :: "int \<Rightarrow> 'h broker \<times> sweep \<Rightarrow> 'h broker \<times> sweep \<Rightarrow> bool" where
  "broker_runs_on timeout s t \<longleftrightarrow> (bstep timeout)\<^sup>*\<^sup>* s t \<and> idents (fst t) = idents (fst s)"

lemma runs_on_refl [simp]: "broker_runs_on timeout s s"
  by (simp add: broker_runs_on_def)

lemma runs_on_trans: "broker_runs_on timeout s t \<Longrightarrow> broker_runs_on timeout t u \<Longrightarrow> broker_runs_on timeout s u"
  by (auto simp: broker_runs_on_def)

lemma runs_on_one: "bstep timeout s t \<Longrightarrow> length (b_objs (fst t)) = length (b_objs (fst s)) \<Longrightarrow> broker_runs_on timeout s t"
  by (simp add: broker_runs_on_def idents_bstep r_into_rtranclp)

lemma length_ops [simp]:
  "length (b_objs (start b)) = length (b_objs b)" "length (b_objs (stop b)) = length (b_objs b)"
  "length (b_objs (snd (push now i c b))) = length (b_objs b)"
  "length (b_objs (snd (request_cancel i b))) = length (b_objs b)"
  "length (b_objs (snd (accept_late_ack now i k b))) = length (b_objs b)"
  "length (b_objs (register_provider m b)) = length (b_objs b)"
  by (simp_all add: start_def stop_def push_def request_cancel_def accept_late_ack_def Let_def register_provider_def
      split: option.split)

lemma pruned_objs: "pruned b b' \<Longrightarrow> b_objs b' = b_objs b"
  by (simp only: pruned_def)

lemma length_walk: "walk_agent ag here rest placed b = (sw', b') \<Longrightarrow> length (b_objs b') = length (b_objs b)"
  using pruned_objs [OF pruned_scan [of b ag]]
  by (auto simp: walk_agent_def split: prod.splits scan_result.splits)

lemma length_offer: "offer_answer now a p ans b = (out, b') \<Longrightarrow> length (b_objs b') = length (b_objs b)"
  by (auto simp: offer_answer_def Let_def split: answer.splits if_splits option.splits)

lemma length_answer:
  assumes "sweep_answer now ag a p here rest placed ans b = (sw', b')"
  shows "length (b_objs b') = length (b_objs b)"
proof -
  obtain out b1 where o: "offer_answer now a p ans b = (out, b1)" by fastforce
  have "length (b_objs b') = length (b_objs b1)"
    using assms o by (cases out) (auto simp: sweep_answer_def Let_def dest: length_walk)
  with length_offer [OF o] show ?thesis by simp
qed

lemma length_sweep_begin: "sweep_begin now timeout b = (sw', b') \<Longrightarrow> length (b_objs b') = length (b_objs b)"
  using pruned_objs [OF pruned_expire_agents [of b now "now - timeout" "dkeys (b_pending b)"]]
  by (auto simp: sweep_begin_def expire_queued_def Let_def)

lemmas runs_on_call =
  runs_on_one [OF s_start, simplified] runs_on_one [OF s_stop, simplified] runs_on_one [OF s_push, simplified]
  runs_on_one [OF s_cancel, simplified] runs_on_one [OF s_late_ack, simplified]
  runs_on_one [OF s_register, simplified] runs_on_one [OF s_unregister, simplified]

text \<open>The turns of the sweep.\<close>

inductive sweep_turn :: "int \<Rightarrow> 'h broker \<times> sweep \<Rightarrow> 'h broker \<times> sweep \<Rightarrow> bool" for timeout where
  t_begin: "sweep_begin now timeout b = (sw', b') \<Longrightarrow> sweep_turn timeout (b, Sleeping) (b', sw')"
| t_walk: "walk_agent ag False rest placed b = (sw', b') \<Longrightarrow>
    sweep_turn timeout (b, Walking (ag # rest) placed) (b', sw')"
| t_sleep: "sweep_turn timeout (b, Walking [] placed) (b, Sleeping)"
| t_answer: "sweep_answer now ag a p here rest placed ans b = (sw', b') \<Longrightarrow>
    sweep_turn timeout (b, Awaiting ag a p here rest placed) (b', sw')"

lemma runs_on_sweep: "sweep_turn timeout s t \<Longrightarrow> broker_runs_on timeout s t"
proof (induction rule: sweep_turn.induct)
  case (t_begin now b sw' b')
  then show ?case by (intro runs_on_one s_sweep_begin) (auto dest: length_sweep_begin)
next
  case (t_walk ag rest placed b sw' b')
  then show ?case by (intro runs_on_one s_walk) (auto dest: length_walk)
next
  case (t_sleep b placed)
  show ?case by (intro runs_on_one s_sleep) simp
next
  case (t_answer now ag a p here rest placed ans b sw' b')
  then show ?case by (intro runs_on_one s_answer) (auto dest: length_answer)
qed

end
