(* ===== verification/RecordGrowth.thy ===== *)
theory RecordGrowth
  imports RepoHistory
begin

text \<open>
  What no write of the record takes back: a run, once there, stays, with its thread, and
  the constraints keep holding.  \<open>record_grows\<close> is that as a relation of two databases, which every
  write of \<open>repo.py\<close> is an instance of.
\<close>

definition run_key :: "run_row \<Rightarrow> string \<times> string" where
  "run_key r = (rn_run_id r, rn_thread_id r)"

definition run_keys :: "db \<Rightarrow> (string \<times> string) set" where
  "run_keys d = run_key ` set (db_runs d)"

definition record_grows :: "db \<Rightarrow> db \<Rightarrow> bool" where
  "record_grows d d' \<longleftrightarrow> (db_ok d \<longrightarrow> db_ok d') \<and> run_keys d \<subseteq> run_keys d'"

lemma grows_refl [simp]: "record_grows d d"
  by (simp add: record_grows_def)

lemma grows_trans: "record_grows d d' \<Longrightarrow> record_grows d' d'' \<Longrightarrow> record_grows d d''"
  by (auto simp: record_grows_def)

lemma keys_same_runs: "db_runs d' = db_runs d \<Longrightarrow> run_keys d' = run_keys d"
  by (simp add: run_keys_def)

lemma keys_update: "(\<And>r. run_key (f r) = run_key r) \<Longrightarrow> run_keys (d\<lparr>db_runs := update_where p f (db_runs d)\<rparr>) = run_keys d"
proof -
  assume f: "\<And>r. run_key (f r) = run_key r"
  have "map run_key (update_where p f (db_runs d)) = map run_key (db_runs d)" by (rule map_update_where) (rule f)
  from arg_cong [OF this, of set] show ?thesis by (simp add: run_keys_def)
qed

lemma keys_mark: "mark_run_status now rid s md d = Inr (d', ok) \<Longrightarrow> run_keys d' = run_keys d"
  by (auto simp: mark_run_status_def Let_def run_key_def run_agent_def stamp_status_def split: option.splits if_splits
      intro!: keys_update)

lemma keys_reopen: "run_keys (fst (reopen_run now rid inp md expected d)) = run_keys d"
  unfolding reopen_run_def Let_def fst_conv by (rule keys_update) (simp add: run_key_def run_agent_def)

lemma keys_fail_rows: "run_keys (fst (fail_rows now p reason rows d)) = run_keys d"
proof (induction rows arbitrary: d)
  case (Cons r rows)
  have "run_keys (fst (fail_one now p reason r d)) = run_keys d"
    unfolding fail_one_def Let_def fst_conv by (rule keys_update) (simp add: run_key_def run_agent_def)
  with Cons show ?case by (simp add: case_prod_beta)
qed simp

lemma keys_insert_run: "insert_run r d = Inr d' \<Longrightarrow> run_keys d' = insert (run_key r) (run_keys d)"
  by (auto simp: insert_run_def run_keys_def split: if_splits)

lemma keys_step: "repo_step C d d' \<Longrightarrow> run_keys d \<subseteq> run_keys d'"
proof (induction rule: repo_step.induct)
  case (p_touch_run d now rid)
  show ?case unfolding touch_run_activity_def
    by (subst keys_update) (simp_all add: run_key_def run_agent_def)
next
  case (p_create_run now fresh tid ag prot inp md hk d d' rid)
  then show ?case by (auto simp: create_run_def dest: keys_insert_run)
next
  case (p_register now k batch name d d' refs)
  show ?case using runs_register_agents [OF p_register] by (simp add: run_keys_def)
next
  case (p_register_llm now k names md d d' lrefs)
  show ?case using runs_register_llm [OF p_register_llm] by (simp add: run_keys_def)
next
  case (p_ensure_thread now fresh ag tid parent md create hk d d' t)
  show ?case using runs_ensure_thread [OF p_ensure_thread] by (simp add: run_keys_def)
next
  case (p_messages now tid rid ms d d' stored)
  show ?case using runs_append_messages [OF p_messages] by (simp add: run_keys_def)
next
  case (p_delete_agent ag d d' gone)
  then show ?case by (auto simp: delete_agent_def run_keys_def split: if_splits)
next
  case (p_event now rid seq ev d d')
  then show ?case by (auto simp: append_run_event_def insert_event_def run_keys_def split: if_splits)
qed (simp_all add: keys_reopen keys_mark sweep_defs fail_runs_def keys_fail_rows,
    simp_all add: run_keys_def touch_agents_def touch_llm_providers_def delete_llm_provider_def Let_def)

lemma grows_step: "repo_step C d d' \<Longrightarrow> record_grows d d'"
  by (simp add: record_grows_def keys_step ok_step)

lemmas grows_write =
  grows_step [OF p_register] grows_step [OF p_register_llm] grows_step [OF p_touch_agents]
  grows_step [OF p_touch_llm] grows_step [OF p_delete_agent] grows_step [OF p_delete_llm]
  grows_step [OF p_ensure_thread] grows_step [OF p_messages] grows_step [OF p_create_run]
  grows_step [OF p_reopen] grows_step [OF p_mark] grows_step [OF p_touch_run] grows_step [OF p_orphaned]
  grows_step [OF p_stalled] grows_step [OF p_paused] grows_step [OF p_event]

lemma key_in_record:
  assumes "(i, t) \<in> run_keys d"
  shows "\<exists>row. get_run d i = Some row" "i \<in> run_ids d"
proof -
  from assms obtain r where r: "r \<in> set (db_runs d)" "rn_run_id r = i" by (auto simp: run_keys_def run_key_def)
  then show "i \<in> run_ids d" by (auto simp: run_ids_def)
  from r show "\<exists>row. get_run d i = Some row"
    unfolding get_run_def using find_None_iff [of "\<lambda>r. rn_run_id r = i" "db_runs d"] by (metis option.exhaust)
qed

lemma key_row:
  assumes "(i, t) \<in> run_keys d" "db_ok d"
  shows "\<exists>row. get_run d i = Some row \<and> rn_thread_id row = t"
proof -
  from assms(1) obtain r where r: "r \<in> set (db_runs d)" "run_key r = (i, t)" by (auto simp: run_keys_def)
  with get_run_unique [OF assms(2) r(1)] show ?thesis by (auto simp: run_key_def)
qed

end
