(* ===== verification/SystemSteps.thy ===== *)
theory SystemSteps
  imports DoorClaims RunIdents RecordGrowth
begin

text \<open>
  The whole program as one transition system.  A state is a \<open>core\<close>, the state of a \<open>Funduq\<close>, with the
  place where its broker's sweep stands.  Requests at the doors, calls of the facade, the tasks of the
  runs, the sweeps and completions take their steps in any order; each step is the definition that models
  the method, run as a whole.  Every step is related to the three parts it touches: the broker's own
  transition system, the constraints of the record, and the relay.
\<close>

subsection \<open>The steps\<close>

text \<open>\<open>free_id\<close> is what a launch needs of the run id it was given: nothing of a former round of that run is
  left in the broker.  The theory AwaitWindows shows a window in which the program does not see to it.\<close>

definition free_id :: "string \<Rightarrow> core \<times> sweep \<Rightarrow> bool" where
  "free_id i s \<longleftrightarrow> unreferenced i (w_broker (fst s), snd s)"

inductive sys_step :: "'k deployment \<Rightarrow> 'k identity option \<Rightarrow> agui_lib \<Rightarrow> int \<Rightarrow> core \<times> sweep \<Rightarrow> core \<times> sweep \<Rightarrow> bool"
  for D :: "'k deployment" and I :: "'k identity option" and L :: agui_lib and timeout :: int
where
  y_door: "door D ck ids agent req w = (w', r) \<Longrightarrow> (\<And>i t. r = Inr (Some (i, t, True)) \<Longrightarrow> free_id i (w, sw)) \<Longrightarrow>
    sys_step D I L timeout (w, sw) (w', sw)"
| y_start_run: "start_run (dp_run_input D) (dp_settings D) now ids agent inp tid md w = (w', r) \<Longrightarrow>
    free_id (mi_run ids) (w, sw) \<Longrightarrow> sys_step D I L timeout (w, sw) (w', sw)"
| y_resume_run: "resume_run (dp_run_input D) now fresh i inp md w = (w', r) \<Longrightarrow> free_id i (w, sw) \<Longrightarrow>
    sys_step D I L timeout (w, sw) (w', sw)"
| y_create_thread: "core_create_thread now i agent parent md w = Inr (w', t) \<Longrightarrow> sys_step D I L timeout (w, sw) (w', sw)"
| y_register: "core_register_agents (dp_crypto D) ck key sig ts batch n w = Inr (w', refs) \<Longrightarrow>
    sys_step D I L timeout (w, sw) (w', sw)"
| y_register_llm: "core_register_llm_providers (dp_crypto D) ck key sig ts names md w = Inr (w', lrefs) \<Longrightarrow>
    sys_step D I L timeout (w, sw) (w', sw)"
| y_challenge: "sys_step D I L timeout (w, sw) (issue_connect_challenge t nonce w, sw)"
| y_attach: "attach_provider (dp_crypto D) ck I face c names minted presented w = (w', res) \<Longrightarrow>
    sys_step D I L timeout (w, sw) (w', sw)"
| y_attach_llm: "attach_llm_provider (dp_crypto D) ck I face l names minted presented w = (w', res) \<Longrightarrow>
    sys_step D I L timeout (w, sw) (w', sw)"
| y_detach: "sys_step D I L timeout (w, sw) (detach_provider now key c w, sw)"
| y_detach_llm: "sys_step D I L timeout (w, sw) (detach_llm_provider now key l w, sw)"
| y_detach_all: "sys_step D I L timeout (w, sw) (detach_all_for now key w, sw)"
| y_delete: "core_delete_agent (dp_crypto D) t key name sig ts w = Inr w' \<Longrightarrow> sys_step D I L timeout (w, sw) (w', sw)"
| y_delete_llm: "core_delete_llm_offering (dp_crypto D) t key name sig ts w = Inr w' \<Longrightarrow>
    sys_step D I L timeout (w, sw) (w', sw)"
| y_report: "sys_step D I L timeout (w, sw) (snd (report_event now i event key w), sw)"
| y_finish: "sys_step D I L timeout (w, sw) (snd (finish_run now i key w), sw)"
| y_cancel: "sys_step D I L timeout (w, sw) (snd (cancel_run i w), sw)"
| y_cancel_task: "sys_step D I L timeout (w, sw) (fst (cancel_task D w agent task), sw)"
| y_counted: "counted key ending (c_relay w) = Inr k \<Longrightarrow> sys_step D I L timeout (w, sw) (w\<lparr>c_relay := k\<rparr>, sw)"
| y_start: "core_start now w = (w', res) \<Longrightarrow> sys_step D I L timeout (w, sw) (w', sw)"
| y_aclose: "sys_step D I L timeout (w, sw) (core_aclose w, Sleeping)"
| y_health: "sweep_once now stall paused w = Inr (w', stalled, stale) \<Longrightarrow> sys_step D I L timeout (w, sw) (w', sw)"
| y_sweep: "sweep_turn timeout (w_broker w, sw) (b, sw') \<Longrightarrow> sys_step D I L timeout (w, sw) (w\<lparr>w_broker := b\<rparr>, sw')"
| y_pipeline: "PipelineTask a () \<in> set (b_tasks (w_broker w)) \<Longrightarrow> r_in_queue (run_at w a) \<noteq> [] \<Longrightarrow>
    sys_step D I L timeout (w, sw) (core_pipeline_turn L now fresh a w, sw)"
| y_one_shot: "OneShotTask a cmd \<in> set (b_tasks (w_broker w)) \<Longrightarrow>
    sys_step D I L timeout (w, sw) (core_one_shot L now fresh a cmd w, sw)"

text \<open>\<open>Funduq\<close> starts over any consistent record.\<close>

definition sys_init :: "'k deployment \<Rightarrow> core \<times> sweep \<Rightarrow> bool" where
  "sys_init D s \<longleftrightarrow> (\<exists>d idt w. db_ok d \<and> new_funduq (dp_crypto D) (dp_settings D) d = Inr (idt, w) \<and> s = (w, Sleeping))"

subsection \<open>What a step does to the parts\<close>

definition keeps :: "int \<Rightarrow> core \<times> sweep \<Rightarrow> core \<times> sweep \<Rightarrow> bool" where
  "keeps timeout s t \<longleftrightarrow>
     (bstep timeout)\<^sup>*\<^sup>* (w_broker (fst s), snd s) (w_broker (fst t), snd t) \<and>
     set (idents (w_broker (fst t))) \<subseteq> set (idents (w_broker (fst s))) \<union> run_keys (w_db (fst t)) \<and>
     record_grows (w_db (fst s)) (w_db (fst t)) \<and>
     (relay_ok (c_relay (fst s)) \<longrightarrow> relay_ok (c_relay (fst t)))"

lemma keeps_trans: "keeps timeout s t \<Longrightarrow> keeps timeout t u \<Longrightarrow> keeps timeout s u"
  unfolding keeps_def record_grows_def by (intro conjI) (meson rtranclp_trans, blast+)

lemma keepsI:
  assumes "broker_runs_on timeout (w_broker w, sw) (w_broker w', sw')" "record_grows (w_db w) (w_db w')"
    "relay_ok (c_relay w) \<Longrightarrow> relay_ok (c_relay w')"
  shows "keeps timeout (w, sw) (w', sw')"
  using assms by (simp add: keeps_def broker_runs_on_def)

lemma keeps_db: "w_broker w' = w_broker w \<Longrightarrow> c_relay w' = c_relay w \<Longrightarrow> record_grows (w_db w) (w_db w') \<Longrightarrow>
    keeps timeout (w, sw) (w', sw)"
  by (rule keepsI) simp_all

lemma keeps_broker: "w_db w' = w_db w \<Longrightarrow> c_relay w' = c_relay w \<Longrightarrow>
    broker_runs_on timeout (w_broker w, sw) (w_broker w', sw') \<Longrightarrow> keeps timeout (w, sw) (w', sw')"
  by (rule keepsI) simp_all

lemma keeps_relay: "w_db w' = w_db w \<Longrightarrow> w_broker w' = w_broker w \<Longrightarrow>
    (relay_ok (c_relay w) \<Longrightarrow> relay_ok (c_relay w')) \<Longrightarrow> keeps timeout (w, sw) (w', sw)"
  by (rule keepsI) simp_all

lemma notify_parts [simp]:
  "w_db (notify_change e w) = w_db w" "w_broker (notify_change e w) = w_broker w" "c_relay (notify_change e w') = c_relay w'"
  by (simp_all add: notify_change_def)

subsection \<open>The rosters\<close>

lemma register_parts:
  assumes "roster_register C ck R key sig ts names store w = Inr (w', refs)"
  shows "\<exists>d regs ws e. store (w_db w) = Inr (d, regs) \<and>
    (w' = notify_change e (w\<lparr>w_db := d\<rparr>) \<or> w' = notify_change e (ro_withdraw R (ck_now ck) ws (w\<lparr>w_db := d\<rparr>)))"
  using assms by (auto simp: roster_register_def Let_def split: if_splits)

lemma keeps_register:
  assumes "core_register_agents C ck key sig ts batch n w = Inr (w', refs)"
  shows "keeps timeout (w, sw) (w', sw)"
proof -
  from assms obtain names where
      "roster_register C ck agent_roster key sig ts names (register_agents C (ck_now ck) key batch n) w = Inr (w', refs)"
    by (auto simp: core_register_agents_def)
  from register_parts [OF this] show ?thesis
    by (auto simp: agent_roster_def intro!: keepsI grows_write(1) runs_on_call)
qed

lemma keeps_register_llm:
  assumes "core_register_llm_providers C ck key sig ts names md w = Inr (w', refs)"
  shows "keeps timeout (w, sw) (w', sw)"
  using register_parts [OF assms [unfolded core_register_llm_providers_def]]
  by (auto simp: llm_roster_def intro!: keepsI grows_write(2))

lemma own_mapping_names:
  "own_mapping (dupdate [] (map (\<lambda>n. (\<lparr>ar_provider_key = c_public_key c, ar_name = n\<rparr>, c)) names))"
proof -
  let ?m = "map (\<lambda>n. (\<lparr>ar_provider_key = c_public_key c, ar_name = n\<rparr>, c)) names"
  have "set (dupdate d kvs) \<subseteq> set d \<union> set kvs" for d and kvs :: "(agent_ref, connection) dict"
  proof (induction kvs arbitrary: d)
    case (Cons kv kvs)
    have "set (dset (fst kv) (snd kv) d) \<subseteq> insert kv (set d)"
      by (induction d) auto
    with Cons [of "dset (fst kv) (snd kv) d"] show ?case by (cases kv) auto
  qed simp
  from this [of "[]" ?m] show ?thesis by (auto simp: own_mapping_def)
qed

definition parts :: "core \<Rightarrow> db \<times> unit broker \<times> kyok_relay" where
  "parts w = (w_db w, w_broker w, c_relay w)"

lemma parts_eqD: "parts v = parts w \<Longrightarrow> w_db v = w_db w \<and> w_broker v = w_broker w \<and> c_relay v = c_relay w"
  by (simp add: parts_def)

lemma keeps_parts: "parts w' = parts w \<Longrightarrow> keeps timeout (w, sw) (w', sw)"
  by (rule keeps_db) (auto simp: parts_def)

lemma parts_challenges [simp]: "parts (issue_connect_challenge t n w) = parts w"
  "parts (snd (consume_connect_challenge t n w)) = parts w" "parts (fst (connect_proof t I face ns mi offer w)) = parts w"
  using connect_proof_state [of t I face ns mi offer w]
  by (auto simp: issue_connect_challenge_def consume_connect_challenge_def parts_def)

text \<open>An attach that fails may have used up a challenge; one that succeeds writes the live table and
  touches the names.\<close>

lemma attach_parts:
  assumes "roster_attach C ck I R face connection names minted offer w = (w', res)"
  shows "parts w' = parts w \<or> (\<exists>v e. parts v = parts w \<and> w' = notify_change e
      ((ro_write_live R (dupdate [] (map (\<lambda>n. (ro_ref R (ro_public_key R connection) n, connection)) names)) v)
        \<lparr>w_db := ro_touch R (ck_now ck) (ro_public_key R connection) names
           (w_db (ro_write_live R (dupdate [] (map (\<lambda>n. (ro_ref R (ro_public_key R connection) n, connection)) names)) v))\<rparr>))"
proof (cases "names = []")
  case True
  with assms show ?thesis by (simp add: roster_attach_def)
next
  case False
  obtain w1 out where cp: "connect_proof (ck_time ck) I face names minted offer w = (w1, out)" by fastforce
  have w1: "parts w1 = parts w"
    using parts_challenges(3) [of "ck_time ck" I face names minted offer w] cp by simp
  have dropped: "parts (w1\<lparr>c_challenges := x\<rparr>) = parts w" for x using w1 by (simp add: parts_def)
  from assms False cp w1 show ?thesis
    by (auto simp: roster_attach_def consume_connect_challenge_def Let_def dropped
        split: sum.splits option.splits if_splits prod.splits) (use dropped in blast)+
qed

lemma keeps_attach:
  assumes "attach_provider C ck I face c names minted presented w = (w', res)"
  shows "keeps timeout (w, sw) (w', sw)"
  using attach_parts [OF assms [unfolded attach_provider_def]]
proof (elim disjE exE conjE)
  fix v e assume v: "parts v = parts w" and w': "w' = notify_change e ((ro_write_live agent_roster
      (dupdate [] (map (\<lambda>n. (ro_ref agent_roster (ro_public_key agent_roster c) n, c)) names)) v)
        \<lparr>w_db := ro_touch agent_roster (ck_now ck) (ro_public_key agent_roster c) names
           (w_db (ro_write_live agent_roster (dupdate [] (map (\<lambda>n. (ro_ref agent_roster (ro_public_key agent_roster c) n, c)) names)) v))\<rparr>)"
  show ?thesis
    using parts_eqD [OF v] unfolding w'
    by (intro keepsI) (simp_all add: agent_roster_def own_mapping_names runs_on_call grows_write(3))
qed (rule keeps_parts)

lemma keeps_attach_llm:
  assumes "attach_llm_provider C ck I face l names minted presented w = (w', res)"
  shows "keeps timeout (w, sw) (w', sw)"
  using attach_parts [OF assms [unfolded attach_llm_provider_def]]
proof (elim disjE exE conjE)
  fix v e assume v: "parts v = parts w" and w': "w' = notify_change e ((ro_write_live llm_roster
      (dupdate [] (map (\<lambda>n. (ro_ref llm_roster (ro_public_key llm_roster l) n, l)) names)) v)
        \<lparr>w_db := ro_touch llm_roster (ck_now ck) (ro_public_key llm_roster l) names
           (w_db (ro_write_live llm_roster (dupdate [] (map (\<lambda>n. (ro_ref llm_roster (ro_public_key llm_roster l) n, l)) names)) v))\<rparr>)"
  show ?thesis
    using parts_eqD [OF v] unfolding w'
    by (intro keepsI) (simp_all add: llm_roster_def grows_write(4))
qed (rule keeps_parts)

lemma keeps_detach: "keeps timeout (w, sw) (detach_provider now key c w, sw)"
  by (simp add: detach_provider_def roster_detach_def Let_def keeps_parts)
    (simp add: agent_roster_def keepsI runs_on_call)

lemma keeps_detach_llm: "keeps timeout (w, sw) (detach_llm_provider now key l w, sw)"
  by (simp add: detach_llm_provider_def roster_detach_def Let_def keeps_parts)
    (simp add: llm_roster_def keepsI)

lemma keeps_detach_all: "keeps timeout (w, sw) (detach_all_for now key w, sw)"
proof -
  let ?v = "roster_detach_all now agent_roster key w"
  have "keeps timeout (w, sw) (?v, sw)"
    by (simp add: roster_detach_all_def Let_def keeps_parts) (simp add: agent_roster_def keepsI runs_on_call)
  moreover have "keeps timeout (?v, sw) (roster_detach_all now llm_roster key ?v, sw)" for v
    by (simp add: roster_detach_all_def [of now llm_roster] Let_def keeps_parts) (simp add: llm_roster_def keepsI)
  ultimately show ?thesis unfolding detach_all_for_def by (rule keeps_trans)
qed

subsection \<open>Calls of the facade\<close>

lemma keeps_create_thread: "core_create_thread now i agent parent md w = Inr (w', t) \<Longrightarrow> keeps timeout (w, sw) (w', sw)"
  using grows_write(7) [of now i agent None parent md True None "w_db w"]
  by (auto simp: core_create_thread_def ensure_thread_def intro!: keeps_db)

lemma keeps_delete: "core_delete_agent C t key name sig ts w = Inr w' \<Longrightarrow> keeps timeout (w, sw) (w', sw)"
  by (auto simp: core_delete_agent_def Let_def split: if_splits intro!: keeps_db grows_write(5))

lemma keeps_delete_llm: "core_delete_llm_offering C t key name sig ts w = Inr w' \<Longrightarrow> keeps timeout (w, sw) (w', sw)"
  by (auto simp: core_delete_llm_offering_def Let_def split: if_splits intro!: keeps_db grows_write(6))

lemma keeps_push: "keeps timeout (w, sw) (snd (broker_push now i c w), sw)"
  by (rule keeps_broker) (simp_all add: broker_push_def case_prod_beta runs_on_call)

lemma keeps_cancel: "keeps timeout (w, sw) (snd (cancel_run i w), sw)"
  by (rule keeps_broker) (simp_all add: cancel_run_def with_broker_def runs_on_call)

lemma keeps_refl [simp]: "keeps timeout s s"
  by (simp add: keeps_def)

lemma keeps_cancel_task: "keeps timeout (w, sw) (fst (cancel_task D w agent task), sw)"
  by (simp add: cancel_task_def Let_def keeps_cancel split: sum.split prod.split)

lemma keeps_report: "keeps timeout (w, sw) (snd (report_event now i event key w), sw)"
proof -
  have ack: "keeps timeout (w, sw) (snd (with_broker (accept_late_ack now i key (w_broker w)) w), sw)"
    by (rule keeps_broker) (simp_all add: with_broker_def runs_on_call)
  show ?thesis
    using ack keeps_trans [OF ack keeps_push] keeps_push
    by (simp add: report_event_def case_prod_beta Let_def split: option.split)
qed

lemma keeps_finish: "keeps timeout (w, sw) (snd (finish_run now i key w), sw)"
  by (simp add: finish_run_def keeps_push split: option.split)

lemma note_outcome_ok:
  assumes "note_outcome key c k = Inr k'" "relay_ok k"
  shows "relay_ok k'"
proof -
  from assms(1) obtain live where l: "lr_note key c (kr_live k) = Inr live" "k' = k\<lparr>kr_live := live\<rparr>"
    by (auto simp: note_outcome_def)
  from l(1) have c: "c \<in> set (lr_counter_names (kr_live k))" by (auto simp: lr_note_def split: if_splits)
  have "roster_ok (kr_live k)" using assms(2) by (simp add: relay_ok_def)
  then obtain t where "lr_note key c (kr_live k) = Inr t" "roster_ok t" "lr_counter_names t = lr_counter_names (kr_live k)"
    using c by (rule lr_note_known)
  with l assms(2) show ?thesis by (simp add: relay_ok_def)
qed

lemma keeps_counted: "counted key ending (c_relay w) = Inr k \<Longrightarrow> keeps timeout (w, sw) (w\<lparr>c_relay := k\<rparr>, sw)"
  unfolding counted_def by (rule keeps_relay) (auto dest: note_outcome_ok)

subsection \<open>Starting and sweeping\<close>

lemma keeps_close:
  assumes "close_with_terminal_event now i reason w = Inr w'"
  shows "keeps timeout (w, sw) (w', sw)"
proof -
  obtain pushed w1 where p: "broker_push now i (Fail reason) w = (pushed, w1)" by fastforce
  have "keeps timeout (w, sw) (w1, sw)" using keeps_push [of timeout w sw now i "Fail reason"] p by simp
  moreover have "keeps timeout (w1, sw) (w', sw)"
    using assms p by (auto simp: close_with_terminal_event_def split: if_splits intro!: keeps_db grows_write(16))
  ultimately show ?thesis by (rule keeps_trans)
qed

lemma keeps_close_all: "close_all now reason is w = Inr w' \<Longrightarrow> keeps timeout (w, sw) (w', sw)"
proof (induction "is" arbitrary: w)
  case (Cons i "is")
  then obtain w1 where "close_with_terminal_event now i reason w = Inr w1" "close_all now reason is w1 = Inr w'"
    by auto
  with keeps_close Cons.IH show ?case by (meson keeps_trans)
qed simp

lemma keeps_start:
  assumes "core_start now w = (w', res)"
  shows "keeps timeout (w, sw) (w', sw)"
proof -
  obtain d orphaned where f: "fail_orphaned_runs now (w_db w) = (d, orphaned)" by fastforce
  let ?w = "w\<lparr>c_started := True\<rparr>"
  have flag: "keeps timeout (w, sw) (?w, sw)" by (rule keeps_parts) (simp add: parts_def)
  have "keeps timeout (?w, sw) (?w\<lparr>w_db := d\<rparr>, sw)"
    using grows_write(13) [of "w_db w" now] f by (intro keeps_db) simp_all
  note failed = keeps_trans [OF flag this]
  have on: "keeps timeout (v, sw) (v\<lparr>w_broker := start (w_broker v), c_sweeping := True\<rparr>, sw)" for v
    by (rule keeps_broker) (simp_all add: runs_on_call)
  show ?thesis
  proof (cases "c_started w")
    case True
    with assms show ?thesis by (simp add: core_start_def)
  next
    case False
    show ?thesis
    proof (cases "close_all now ''orphaned_by_funduq_restart'' orphaned (?w\<lparr>w_db := d\<rparr>)")
      case (Inl e)
      with assms f False flag show ?thesis by (auto simp: core_start_def start_dispatch_def Let_def)
    next
      case (Inr w1)
      with assms f False have "w' = w1\<lparr>w_broker := start (w_broker w1), c_sweeping := True\<rparr>"
        by (auto simp: core_start_def start_dispatch_def Let_def)
      with keeps_trans [OF keeps_trans [OF failed keeps_close_all [OF Inr]] on] show ?thesis by simp
    qed
  qed
qed

lemma keeps_aclose: "keeps timeout (w, sw) (core_aclose w, Sleeping)"
  by (rule keeps_broker) (simp_all add: core_aclose_def runs_on_call)

lemma keeps_health:
  assumes "sweep_once now stall paused w = Inr (w', stalled, stale)"
  shows "keeps timeout (w, sw) (w', sw)"
proof -
  obtain d1 s1 where f1: "fail_stalled_runs now stall (w_db w) = (d1, s1)" by fastforce
  define p where "p = (case paused of None \<Rightarrow> (d1, []) | Some t \<Rightarrow> fail_stale_paused_runs now t d1)"
  obtain d2 s2 where f2: "p = (d2, s2)" by (cases p)
  have "record_grows (w_db w) d1" using grows_write(14) [of "w_db w" now stall] f1 by simp
  moreover have "record_grows d1 d2"
    using f2 grows_write(15) [of d1 now] by (auto simp: p_def split: option.splits) (metis fst_conv)
  ultimately have d: "keeps timeout (w, sw) (w\<lparr>w_db := d2\<rparr>, sw)"
    by (intro keeps_db) (auto intro: grows_trans)
  from assms f1 f2 obtain w1 where
      "close_all now ''stalled_no_activity'' s1 (w\<lparr>w_db := d2\<rparr>) = Inr w1" "close_all now ''paused_no_resume'' s2 w1 = Inr w'"
    by (auto simp: sweep_once_def p_def)
  with d show ?thesis by (meson keeps_close_all keeps_trans)
qed

lemma keeps_sweep: "sweep_turn timeout (w_broker w, sw) (b, sw') \<Longrightarrow> keeps timeout (w, sw) (w\<lparr>w_broker := b\<rparr>, sw')"
  by (rule keeps_broker) (simp_all add: runs_on_sweep)

subsection \<open>Handlers and tasks\<close>

lemma grows_mark_status: "mark_status now i s md w = (w', r) \<Longrightarrow> record_grows (w_db w) (w_db w')"
  by (auto simp: mark_status_def notify_change_def Let_def split: sum.splits prod.splits if_splits
      intro: grows_write(11))

lemma grows_mark_fst [simp]: "record_grows (w_db w) (w_db (fst (mark_status now i s md w)))"
  by (cases "mark_status now i s md w") (simp add: grows_mark_status)

lemma grows_store_event: "store_event now a e w = Inr w' \<Longrightarrow> record_grows (w_db w) (w_db w')"
  by (auto simp: store_event_def intro: grows_write(16))

lemma grows_store_reply: "store_reply now fresh r d = Inr d' \<Longrightarrow> record_grows d d'"
  by (auto simp: store_reply_def split: if_splits intro: grows_write(8))

lemma handler_db [simp]:
  "w_db (next_seq a w) = w_db w" "w_db (relay_out a e w) = w_db w" "w_db (upd_run a f w) = w_db w"
  "w_db (snd (broker_push now i c w)) = w_db w"
  by (simp_all add: next_seq_def relay_out_def upd_run_def broker_push_def case_prod_beta)

lemma grows_finish: "record_grows (w_db w) (w_db (handle_finish now fresh a w))"
proof -
  obtain s md where s: "final_status (run_at w a) = (s, md)" by fastforce
  obtain w1 r where m: "mark_status now (r_run_id (run_at w a)) s md w = (w1, r)" by fastforce
  note g1 = grows_mark_status [OF m]
  show ?thesis
  proof (cases r)
    case (Inl e)
    with g1 s m show ?thesis by (simp add: handle_finish_def Let_def)
  next
    case (Inr settled)
    define out where "out = (if settled \<and> s \<in> {Completed, InputRequired} then store_reply now fresh (run_at w a) (w_db w1)
        else Inr (w_db w1))"
    have g2: "record_grows (w_db w) d" if "out = Inr d" for d
      using that grows_trans [OF g1 grows_store_reply] g1 by (auto simp: out_def split: if_splits)
    have g3: "record_grows (w_db w) (w_db w3)" if "out = Inr d" "store_event now a e (next_seq a (w1\<lparr>w_db := d\<rparr>)) = Inr w3" for d e w3
      using grows_trans [OF g2 [OF that(1)]] grows_store_event [OF that(2)] by simp
    have "handle_finish now fresh a w = (case out of Inl _ \<Rightarrow> w1
        | Inr d \<Rightarrow> if \<not> (s = Failed \<and> \<not> r_saw_run_error (run_at w a)) then w1\<lparr>w_db := d\<rparr>
           else (case store_event now a unfinished_error (next_seq a (w1\<lparr>w_db := d\<rparr>)) of
                   Inl _ \<Rightarrow> next_seq a w1 | Inr w3 \<Rightarrow> relay_out a unfinished_error w3))"
      unfolding handle_finish_def Let_def s out_def by (simp only: m Inr prod.case sum.case)
    with g1 g2 g3 show ?thesis by (cases out) (simp_all split: sum.split)
  qed
qed

lemma grows_handle: "record_grows (w_db w) (w_db (handle L now fresh a cmd w))"
proof (cases cmd)
  case Claim
  then show ?thesis by (simp add: handle_claim_def)
next
  case (RelayEvent e)
  have "record_grows (w_db w) (touch_run_activity now j (w_db w2))"
    if "store_event now a e (next_seq a (upd_run a (note_event e) w)) = Inr w2" for w2 j
    using grows_store_event [OF that] grows_write(12) grows_trans by fastforce
  then show ?thesis by (auto simp: RelayEvent handle_relay_def Let_def split: sum.split)
next
  case FinishStream
  then show ?thesis by (simp add: grows_finish)
next
  case RequestCancel
  obtain w1 r1 where m: "mark_status now (r_run_id (run_at w a)) Cancelling PNone w = (w1, r1)" by fastforce
  show ?thesis
    using grows_mark_status [OF prod.collapse [symmetric]] grows_mark_status [OF m] m
    by (simp add: RequestCancel handle_cancel_def Let_def split: sum.split option.split)
next
  case (Fail reason)
  show ?thesis
    using grows_store_event [of now a "fail_event reason" "next_seq a w"]
    by (auto simp: Fail handle_fail_def Let_def split: sum.split prod.split dest: grows_mark_status intro: grows_trans)
qed

lemma relay_ok_discard_all: "relay_ok k \<Longrightarrow> relay_ok (discard_all is k)"
  by (induction "is" arbitrary: k) simp_all

lemma keeps_listener:
  assumes "keeps timeout (w, sw) (step w, sw)"
  shows "keeps timeout (w, sw) (with_forget_listener step w, sw)"
  using assms by (auto simp: keeps_def with_forget_listener_def Let_def intro: relay_ok_discard_all)

lemma effect_length: "handler_effect a b b' \<Longrightarrow> length (b_objs b') = length (b_objs b)"
  using effect_frame by blast

lemma length_end_run [simp]: "length (b_objs (end_run a b)) = length (b_objs b)"
  by (simp add: end_run_def)

lemma objs_length_handle: "length (b_objs (w_broker (handle L now fresh a cmd w))) = length (b_objs (w_broker w))"
  using effect_length [OF effect_handle [OF eff_none]] by blast

lemma keeps_pipeline:
  assumes "PipelineTask a () \<in> set (b_tasks (w_broker w))" "r_in_queue (run_at w a) \<noteq> []"
  shows "keeps timeout (w, sw) (core_pipeline_turn L now fresh a w, sw)"
proof -
  obtain cmd cmds where q: "r_in_queue (run_at w a) = cmd # cmds" using assms(2) by (cases "r_in_queue (run_at w a)") auto
  let ?w = "pipeline_turn L now fresh a w"
  let ?w1 = "handle L now fresh a cmd (upd_run a (\<lambda>r. r\<lparr>r_in_queue := cmds\<rparr>) w)"
  have w: "?w = (if pipeline_stops (run_at ?w1 a) cmd then end_task a (PipelineTask a ()) ?w1 else ?w1)"
    using q by (simp add: pipeline_turn_def Let_def)
  have len: "length (b_objs (w_broker ?w)) = length (b_objs (w_broker w))"
    using objs_length_handle [of L now fresh a cmd "upd_run a (\<lambda>r. r\<lparr>r_in_queue := cmds\<rparr>) w"]
    by (simp add: w end_task_def broker_upd_run)
  have "record_grows (w_db w) (w_db ?w)"
    using grows_handle [of "upd_run a (\<lambda>r. r\<lparr>r_in_queue := cmds\<rparr>) w" L now fresh a cmd] by (simp add: w end_task_def)
  moreover have "c_relay ?w = c_relay w" by (simp add: w end_task_def relay_handle)
  moreover have "broker_runs_on timeout (w_broker w, sw) (w_broker ?w, sw)"
    by (intro runs_on_one pipeline_turn_bstep assms) (simp add: len)
  ultimately have "keeps timeout (w, sw) (?w, sw)" by (intro keepsI) simp_all
  then show ?thesis unfolding core_pipeline_turn_def by (rule keeps_listener)
qed

lemma keeps_one_shot:
  assumes "OneShotTask a cmd \<in> set (b_tasks (w_broker w))"
  shows "keeps timeout (w, sw) (core_one_shot L now fresh a cmd w, sw)"
proof -
  let ?w = "one_shot L now fresh a cmd w"
  let ?v = "w\<lparr>w_broker := (w_broker w)\<lparr>b_tasks := remove1 (OneShotTask a cmd) (b_tasks (w_broker w))\<rparr>\<rparr>"
  have "length (b_objs (w_broker ?w)) = length (b_objs (w_broker w))"
    using objs_length_handle [of L now fresh a cmd ?v] by (simp add: one_shot_def Let_def split: option.split)
  moreover have "record_grows (w_db w) (w_db ?w)"
    using grows_handle [of ?v L now fresh a cmd] by (simp add: one_shot_def Let_def split: option.split)
  moreover have "c_relay ?w = c_relay w" by (simp add: one_shot_def Let_def relay_handle split: option.split)
  moreover from calculation have "broker_runs_on timeout (w_broker w, sw) (w_broker ?w, sw)"
    by (intro runs_on_one one_shot_bstep assms) simp
  ultimately have "keeps timeout (w, sw) (?w, sw)" by (intro keepsI) simp_all
  then show ?thesis unfolding core_one_shot_def by (rule keeps_listener)
qed

subsection \<open>Launching runs\<close>

lemma free_same: "w_broker v = w_broker w \<Longrightarrow> free_id i (v, sw) = free_id i (w, sw)"
  by (simp add: free_id_def)

lemma keeps_enqueue:
  assumes "core_enqueue_run now i agent t inp prot seq w = Inr (a, w')" "free_id i (w, sw)" "(i, t) \<in> run_keys (w_db w)"
  shows "keeps timeout (w, sw) (w', sw)"
proof -
  from assms(1) obtain b where b: "enqueue_run now i agent t inp prot (Some ()) seq (w_broker w) = Inr (a, b)"
      and w': "w' = w\<lparr>w_broker := b\<rparr>"
    by (auto simp: core_enqueue_run_def)
  have "bstep timeout (w_broker w, sw) (b, sw)"
    using s_enqueue [OF _ b] assms(2) by (simp add: free_id_def)
  moreover have "idents b = idents (w_broker w) @ [(i, t)]"
    using b by (auto simp: enqueue_run_def Let_def idents_def ident_def split: if_splits)
  ultimately show ?thesis using assms(3) by (simp add: keeps_def w' r_into_rtranclp)
qed

lemma keeps_launch:
  assumes "launch_run validate now fresh i agent t inp prot seq w = (w', r)" "free_id i (w, sw)" "(i, t) \<in> run_keys (w_db w)"
  shows "keeps timeout (w, sw) (w', sw)"
proof (cases "bindR (complete_run_agent_input validate fresh t i inp) (\<lambda>input.
             core_enqueue_run now i agent t input prot seq w)")
  case (Inl e)
  with assms(1) show ?thesis by (simp add: launch_run_def)
next
  case (Inr x)
  then obtain input where "core_enqueue_run now i agent t input prot seq w = Inr (fst x, snd x)" by auto
  note k = keeps_enqueue [OF this assms(2,3)]
  have "w' = snd x" using assms(1) by (cases x) (simp add: launch_run_def Inr)
  with k show ?thesis by simp
qed

lemma created_key: "create_run now i t agent prot inp md hk d = Inr (d', j) \<Longrightarrow> j = i \<and> (i, t) \<in> run_keys d'"
proof -
  assume c: "create_run now i t agent prot inp md hk d = Inr (d', j)"
  obtain row where "get_run d' i = Some row" "rn_thread_id row = t" using create_run_row(4) [OF c, of i] by simp
  with get_run_mem [of d' i row] show ?thesis
    using create_run_row(1) [OF c] by (auto simp: run_keys_def run_key_def)
qed

lemma keeps_start_run:
  assumes "start_run validate st now ids agent inp tid md w = (w', r)" "free_id (mi_run ids) (w, sw)"
  shows "keeps timeout (w, sw) (w', sw)"
proof -
  show ?thesis
  proof (cases "bindR (ensure_thread now (mi_thread ids) agent tid None md True None (w_db w)) (\<lambda>(d, t).
           bindR (ensure_queue_room d t (st_thread_queue_limit st)) (\<lambda>_.
           bindR (create_run now (mi_run ids) t agent ''ag-ui'' inp md None d) (\<lambda>(d', rid).
             Inr (d', t, rid))))")
    case (Inl e)
    with assms(1) show ?thesis by (simp add: start_run_def)
  next
    case (Inr x)
    then obtain d t d' where e: "ensure_thread now (mi_thread ids) agent tid None md True None (w_db w) = Inr (d, t)"
        and c: "create_run now (mi_run ids) t agent ''ag-ui'' inp md None d = Inr (d', snd (snd x))"
        and x: "x = (d', t, snd (snd x))"
      by (cases x) auto
    note k = created_key [OF c]
    have "record_grows (w_db w) d'" using grows_trans [OF grows_write(7) [OF e] grows_write(9) [OF c]] .
    then have 1: "keeps timeout (w, sw) (w\<lparr>w_db := d'\<rparr>, sw)" by (intro keeps_db) simp_all
    have "launch_run validate now (mi_message ids) (mi_run ids) agent t inp ''ag-ui'' 0 (w\<lparr>w_db := d'\<rparr>) = (w', r)"
      using assms(1) Inr x k by (simp add: start_run_def)
    from keeps_launch [OF this] 1 k assms(2) show ?thesis
      by (auto simp: free_same [of "w\<lparr>w_db := d'\<rparr>" w] intro: keeps_trans)
  qed
qed

lemma keeps_resume_run:
  assumes "resume_run validate now fresh i inp md w = (w', r)" "free_id i (w, sw)"
  shows "keeps timeout (w, sw) (w', sw)"
proof (cases "get_run (w_db w) i")
  case None
  with assms(1) show ?thesis by (simp add: resume_run_def)
next
  case (Some row)
  let ?d = "fst (reopen_run now i inp md None (w_db w))"
  have 1: "keeps timeout (w, sw) (w\<lparr>w_db := ?d\<rparr>, sw)" by (intro keeps_db) (simp_all add: grows_write(10))
  have "(i, rn_thread_id row) \<in> run_keys (w_db w)"
    using get_run_mem [OF Some] by (auto simp: run_keys_def run_key_def)
  then have k: "(i, rn_thread_id row) \<in> run_keys ?d" by (simp add: keys_reopen)
  from assms(1) Some obtain prot seq where
      "launch_run validate now fresh i (run_agent row) (rn_thread_id row) inp prot seq (w\<lparr>w_db := ?d\<rparr>) = (w', r)"
    by (auto simp: resume_run_def Let_def)
  from keeps_launch [OF this] 1 k assms(2) show ?thesis
    by (auto simp: free_same [of "w\<lparr>w_db := ?d\<rparr>" w] intro: keeps_trans)
qed

lemma round_grows:
  assumes "door_round D ck ids agent am t view d i"
  shows "record_grows view d" "(i, t) \<in> run_keys d"
proof -
  show "record_grows view d"
    using assms unfolding door_round_def by (auto intro: grows_write(9,10))
  show "(i, t) \<in> run_keys d"
    using assms unfolding door_round_def
    by (auto simp: keys_reopen dest: created_key) (auto simp: run_keys_def run_key_def)
qed

lemma let_in_grows: "let_in D ck agent req w am view \<Longrightarrow> record_grows (w_db w) view"
  by (simp add: let_in_def record_grows_def run_keys_def)

lemma inherits_ok: "inherits i k inherited k' \<Longrightarrow> relay_ok k \<Longrightarrow> relay_ok k'"
  by (auto simp: inherits_def split: if_splits) (metis relay_ok_ops(3) snd_conv)

lemma relay_ok_bind_opted: "relay_ok (c_relay w) \<Longrightarrow> relay_ok (c_relay (bind_opted kyok chain i w))"
  by (auto simp: bind_opted_def split: option.split)

lemma keeps_door:
  assumes "door_step D ck ids agent req w w' r" "\<And>i t. r = Inr (Some (i, t, True)) \<Longrightarrow> free_id i (w, sw)"
  shows "keeps timeout (w, sw) (w', sw)"
  using assms(1)
proof (cases rule: door_step.cases)
  case (abandoned am view t d i inherited k e)
  have "record_grows (w_db w) d" using grows_trans [OF let_in_grows round_grows(1)] abandoned(3,4) by blast
  then show ?thesis unfolding abandoned(1) by (intro keepsI) (simp_all add: inherits_ok [OF abandoned(5)])
next
  case (offline am view t d i ms d' stored applied)
  have "record_grows (w_db w) d'"
    by (rule grows_trans [OF grows_trans [OF let_in_grows [OF offline(2)] round_grows(1) [OF offline(3)]] grows_write(8) [OF offline(4)]])
  then have "record_grows (w_db w) (w_db w')" using grows_trans grows_mark_status [OF offline(6)] by fastforce
  moreover have "c_relay w' = c_relay w" "w_broker w' = w_broker w"
    using relay_mark_status [OF offline(6)] broker_mark_status' [OF offline(6)] by simp_all
  ultimately show ?thesis by (intro keeps_db)
next
  case (unqueued am view t d i ms d' stored inherited k chain e)
  have "record_grows (w_db w) d'"
    by (rule grows_trans [OF grows_trans [OF let_in_grows [OF unqueued(3)] round_grows(1) [OF unqueued(4)]] grows_write(8) [OF unqueued(5)]])
  then show ?thesis unfolding unqueued(1)
    by (intro keepsI) (simp_all add: inherits_ok [OF unqueued(6)] relay_ok_bind_opted)
next
  case (live am view t d i ms d' stored inherited k input proto seq chain a)
  let ?v = "bind_opted (am_kyok am) chain i (w\<lparr>w_db := d', c_relay := k\<rparr>)"
  have g: "record_grows (w_db w) d'"
    by (rule grows_trans [OF grows_trans [OF let_in_grows [OF live(2)] round_grows(1) [OF live(3)]] grows_write(8) [OF live(4)]])
  have "keeps timeout (w, sw) (?v, sw)"
    using g by (intro keepsI) (simp_all add: inherits_ok [OF live(6)] relay_ok_bind_opted)
  moreover have "(i, t) \<in> run_keys (w_db ?v)"
    using round_grows(2) [OF live(3)] grows_write(8) [OF live(4)] by (auto simp: record_grows_def)
  then have "keeps timeout (?v, sw) (w', sw)"
    using live(9) assms(2) [OF live(1)] by (intro keeps_enqueue) (simp_all add: free_id_def)
  ultimately show ?thesis by (rule keeps_trans)
qed simp_all

subsection \<open>Every step\<close>

theorem sys_step_keeps: "sys_step D I L timeout s t \<Longrightarrow> keeps timeout s t"
proof (induction rule: sys_step.induct)
  case (y_door ck ids agent req w w' r sw)
  then show ?case using keeps_door [OF door_is_a_step] by blast
qed (simp_all add: keeps_start_run keeps_resume_run keeps_create_thread keeps_register keeps_register_llm keeps_attach
    keeps_attach_llm keeps_detach keeps_detach_llm keeps_detach_all keeps_delete keeps_delete_llm keeps_report
    keeps_finish keeps_cancel keeps_cancel_task keeps_counted keeps_start keeps_aclose keeps_health keeps_sweep
    keeps_pipeline keeps_one_shot keeps_parts)

end
