(* ===== verification/SystemClaims.thy ===== *)
theory SystemClaims
  imports SystemSteps DoorDemos
begin

text \<open>
  What holds in every state the whole program reaches, and what that gives the handlers: the record
  never refuses what a run's pipeline writes.
\<close>

subsection \<open>The invariant\<close>

definition sys_ok :: "int \<Rightarrow> core \<times> sweep \<Rightarrow> bool" where
  "sys_ok timeout s \<longleftrightarrow>
     reach binit (bstep timeout) (w_broker (fst s), snd s) \<and> db_ok (w_db (fst s)) \<and> relay_ok (c_relay (fst s)) \<and>
     set (idents (w_broker (fst s))) \<subseteq> run_keys (w_db (fst s))"

lemma reach_more: "(bstep timeout)\<^sup>*\<^sup>* s t \<Longrightarrow> reach binit (bstep timeout) s \<Longrightarrow> reach binit (bstep timeout) t"
  by (induction rule: rtranclp_induct) (auto intro: reach.reach_step)

lemma sys_ok_init: "sys_init D s \<Longrightarrow> sys_ok timeout s"
  by (auto simp: sys_init_def sys_ok_def new_funduq_def idents_def binit_def new_broker_def intro!: reach.reach_init)

lemma sys_ok_keeps:
  assumes "keeps timeout s t" "sys_ok timeout s"
  shows "sys_ok timeout t"
proof -
  have "reach binit (bstep timeout) (w_broker (fst t), snd t)"
    using assms reach_more unfolding keeps_def sys_ok_def by blast
  with assms show ?thesis unfolding keeps_def sys_ok_def record_grows_def by blast
qed

interpretation system: inductive_invariant "sys_init D" "sys_step D I L timeout" "sys_ok timeout"
  for D I L timeout
  by unfold_locales (auto intro: sys_ok_init sys_ok_keeps sys_step_keeps)


text \<open>A start over a record with an agent, and a run started for it.\<close>

definition booted :: core where
  "booted = \<lparr>w_db = door_db, w_broker = start (new_broker (Some 3)), w_changes = [], w_cancels = [],
     c_relay = new_kyok_relay, c_challenges = [], c_started = True, c_sweeping = True\<rparr>"

definition launched :: core where
  "launched = fst (start_run (dp_run_input door_deployment) (dp_settings door_deployment) 5 door_ids demo_ref (PDict [])
     None PNone booted)"

lemma reach_booted: "reach (sys_init door_deployment) (sys_step door_deployment I L timeout) (booted, Sleeping)"
proof -
  let ?w = "\<lparr>w_db = door_db, w_broker = new_broker (Some 3), w_changes = [], w_cancels = [],
     c_relay = new_kyok_relay, c_challenges = [], c_started = False, c_sweeping = False\<rparr>"
  have "new_funduq (dp_crypto door_deployment) (dp_settings door_deployment) door_db = Inr (None, ?w)"
    by (simp add: new_funduq_def door_deployment_def default_settings_def)
  then have "sys_init door_deployment (?w, Sleeping)" using door_db_ok(1) by (auto simp: sys_init_def)
  then have "reach (sys_init door_deployment) (sys_step door_deployment I L timeout) (?w, Sleeping)" by (rule reach.reach_init)
  moreover have "db_runs door_db = []" by code_simp
  then have "core_start 1 ?w = (booted, Inr [])"
    by (simp add: core_start_def start_dispatch_def fail_orphaned_runs_def fail_runs_def booted_def)
  ultimately show ?thesis by (meson reach.reach_step y_start)
qed

lemma reach_launched: "reach (sys_init door_deployment) (sys_step door_deployment I L timeout) (launched, Sleeping)"
proof -
  have "free_id (mi_run door_ids) (booted, Sleeping)"
    by (simp add: free_id_def unreferenced_def booted_def start_def new_broker_def queue_of_def)
  from y_start_run [OF prod.collapse [symmetric] this] show ?thesis
    unfolding launched_def by (rule reach.reach_step [OF reach_booted])
qed

lemma launched_run: "map (\<lambda>r. (r_run_id r, r_thread_id r)) (b_objs (w_broker launched)) = [(''r1'', ''t1'')]"
  by code_simp


subsection \<open>What it gives the handlers\<close>

lemma object_on_record:
  assumes "sys_ok timeout (w, sw)" "a < length (b_objs (w_broker w))"
  shows "r_run_id (run_at w a) \<in> run_ids (w_db w)" "\<exists>row. get_run (w_db w) (r_run_id (run_at w a)) = Some row"
proof -
  have "(r_run_id (run_at w a), r_thread_id (run_at w a)) \<in> set (idents (w_broker w))"
    using nth_mem [OF assms(2)] by (auto simp: idents_def ident_def run_at_def obj_def)
  with assms(1) have "(r_run_id (run_at w a), r_thread_id (run_at w a)) \<in> run_keys (w_db w)" by (auto simp: sys_ok_def)
  from key_in_record [OF this] show "r_run_id (run_at w a) \<in> run_ids (w_db w)"
    "\<exists>row. get_run (w_db w) (r_run_id (run_at w a)) = Some row" by simp_all
qed

lemma run_at_upd: "a < length (b_objs (w_broker w)) \<Longrightarrow> run_at (upd_run a f w) a = f (run_at w a)"
  by (simp add: upd_run_def run_at_def obj_upd_obj)

lemma note_event_keeps [simp]:
  "r_seq (note_event e r) = r_seq r" "r_out_queue (note_event e r) = r_out_queue r" "r_run_id (note_event e r) = r_run_id r"
  "r_in_queue (note_event e r) = r_in_queue r"
  by (simp_all add: note_event_def Let_def split: option.split)

text \<open>C10: In every state the program reaches, a valid event that a run's pipeline takes off its queue is
  stored under the run's next number, behind everything stored, and handed to the subscribers, and no
  status a handler settles the run on is refused for want of a row: the error branches of the handlers
  that would drop an event or a verdict are never taken because the record lost the run.\<close>

theorem valid_events_are_stored_and_shown:
  assumes "reach (sys_init D) (sys_step D I L timeout) (w, sw)" "a < length (b_objs (w_broker w))"
    and "r_in_queue (run_at w a) = RelayEvent e # cmds" "is_dict e" "must_validate L e \<longrightarrow> al_valid L e"
    and "w' = core_pipeline_turn L now fresh a w"
  shows "db_events (w_db w') = db_events (w_db w) @ [\<lparr>ev_id = next_event_id (w_db w), ev_run_id = r_run_id (run_at w a),
        ev_seq = r_seq (run_at w a) + 1, ev_event_json = e, ev_created_at = now\<rparr>]
    \<and> r_out_queue (run_at w' a) = r_out_queue (run_at w a) @ [OutEvent e]
    \<and> r_seq (run_at w' a) = r_seq (run_at w a) + 1 \<and> r_in_queue (run_at w' a) = cmds
    \<and> (s \<noteq> Queued \<longrightarrow> (\<exists>v ok. mark_status now (r_run_id (run_at w a)) s md w = (v, Inr ok)))"
proof -
  note ok = system.holds [OF assms(1)]
  note row = object_on_record [OF ok assms(2)]
  let ?r = "run_at w a"
  define w0 where "w0 = upd_run a (\<lambda>r. r\<lparr>r_in_queue := cmds\<rparr>) w"
  define w1 where "w1 = next_seq a (upd_run a (note_event e) w0)"
  have len: "a < length (b_objs (w_broker w0))" "a < length (b_objs (w_broker (upd_run a (note_event e) w0)))"
      "a < length (b_objs (w_broker w1))"
    using assms(2) by (simp_all add: w0_def w1_def next_seq_def upd_run_def)
  have r1: "run_at w1 a = (note_event e (?r\<lparr>r_in_queue := cmds\<rparr>))\<lparr>r_seq := r_seq ?r + 1\<rparr>"
    using len assms(2) by (simp add: w1_def next_seq_def run_at_upd) (simp add: w0_def run_at_upd)
  have db: "w_db w1 = w_db w" by (simp add: w0_def w1_def)
  let ?ev = "\<lparr>ev_id = next_event_id (w_db w), ev_run_id = r_run_id ?r, ev_seq = r_seq ?r + 1, ev_event_json = e,
     ev_created_at = now\<rparr>"
  let ?d = "w_db w\<lparr>db_events := db_events (w_db w) @ [?ev]\<rparr>"
  have st: "store_event now a e w1 = Inr (w1\<lparr>w_db := ?d\<rparr>)"
    using row(1) by (simp add: store_event_def r1 db append_run_event_def insert_event_def)
  define w2 where "w2 = relay_out a e (w1\<lparr>w_db := touch_run_activity now (r_run_id (run_at (w1\<lparr>w_db := ?d\<rparr>) a)) ?d\<rparr>)"
  have v: "\<not> (must_validate L e \<and> \<not> al_valid L e)" using assms(5) by blast
  have "handle_relay L now a e w0 = w2"
    unfolding handle_relay_def if_not_P [OF v] using assms(4) by (simp add: w2_def st flip: w1_def)
  then have "handle L now fresh a (RelayEvent e) w0 = w2" by simp
  then have turn: "pipeline_turn L now fresh a w = w2"
    by (simp add: pipeline_turn_def assms(3) pipeline_stops_def flip: w0_def)
  have w': "w_db w' = w_db w2" "w_broker w' = w_broker w2"
    unfolding assms(6) by (simp_all add: core_pipeline_turn_def with_forget_listener_def Let_def turn)
  have "run_at w2 a = (run_at w1 a)\<lparr>r_out_queue := r_out_queue ?r @ [OutEvent e]\<rparr>"
    using len(3) by (simp add: w2_def relay_out_def run_at_def put_out_def obj_upd_obj) (simp add: r1 flip: run_at_def)
  with r1 have queue: "r_out_queue (run_at w' a) = r_out_queue ?r @ [OutEvent e]" "r_seq (run_at w' a) = r_seq ?r + 1"
      "r_in_queue (run_at w' a) = cmds"
    by (simp_all add: run_at_def w')
  have events: "db_events (w_db w') = db_events (w_db w) @ [?ev]" by (simp add: w' w2_def touch_run_activity_def)
  have "\<exists>v ok. mark_status now (r_run_id ?r) s md w = (v, Inr ok)" if "s \<noteq> Queued"
  proof -
    from row(2) obtain r where "get_run (w_db w) (r_run_id ?r) = Some r" ..
    then have "\<exists>d ok. mark_run_status now (r_run_id ?r) s md (w_db w) = Inr (d, ok)"
      using that by (cases s) (auto simp: mark_run_status_def Let_def)
    then show ?thesis by (auto simp: mark_status_def Let_def)
  qed
  with events queue show ?thesis by blast
qed

text \<open>The launched run's agent attaches, the run is offered and accepted, its pipeline marks it running,
  and its provider reports an event.\<close>

definition online :: core where
  "online = fst (attach_provider (dp_crypto door_deployment) door_clock None
     (link_face door_crypto (in_process_link (identity_of door_crypto ''k'') None None)) demo_connection [''a'']
     (''c'', ''n'') (None, None, None) launched)"

definition offered_run :: core where
  "offered_run = online\<lparr>w_broker := snd (walk_agent demo_ref False [] False (snd (sweep_begin 6 30 (w_broker online))))\<rparr>"

definition accepted_run :: core where
  "accepted_run = offered_run\<lparr>w_broker :=
     snd (sweep_answer 7 demo_ref 0 demo_connection False [] False (Answered True) (w_broker offered_run))\<rparr>"

definition lenient :: agui_lib where
  "lenient = \<lparr>al_known = [], al_valid = (\<lambda>_. True)\<rparr>"

definition custom_event :: pyval where
  "custom_event = PDict [(''type'', PStr ''CUSTOM'')]"

definition reported :: core where
  "reported = snd (report_event 9 ''r1'' custom_event ''6b'' (core_pipeline_turn lenient 8 (\<lambda>_. ''m'') 0 accepted_run))"

definition waiting :: run where
  "waiting = \<lparr>r_run_id = ''r1'', r_agent = demo_ref, r_thread_id = ''t1'', r_input_json = PNone, r_protocol = ''ag-ui'',
     r_queued_at = 5, r_seq = 0, r_round_starting_seq = 0, r_pause_payload = None, r_claimed_by = None,
     r_cancel_notify = None, r_cancel_requested = False, r_saw_run_finished = False, r_saw_run_error = False,
     r_in_queue = [], r_out_queue = []\<rparr>"

definition holding :: "pyval \<Rightarrow> unit broker" where
  "holding i = (new_broker (Some 3))\<lparr>b_objs := [waiting\<lparr>r_input_json := i\<rparr>], b_runs := [(''r1'', 0)],
     b_pending := [(demo_ref, [''r1''])], b_handlers := [(''r1'', ())], b_work_to_do := True, b_is_running := True\<rparr>"

definition serving_it :: "pyval \<Rightarrow> unit broker" where
  "serving_it i = register_provider [(demo_ref, demo_connection)] (holding i)"

lemma launched_broker: "w_broker launched = holding (r_input_json (run_at launched 0))"
  by code_simp

lemma online_broker: "w_broker online = register_provider [(demo_ref, demo_connection)] (w_broker launched)"
  by code_simp

lemma serving_facts:
  "sweep_begin 6 30 (serving_it i) = (Walking [demo_ref] False, (serving_it i)\<lparr>b_work_to_do := False\<rparr>)"
  "fst (walk_agent demo_ref False [] False ((serving_it i)\<lparr>b_work_to_do := False\<rparr>)) =
     Awaiting demo_ref 0 demo_connection False [] False"
  "snd (walk_agent demo_ref False [] False ((serving_it i)\<lparr>b_work_to_do := False\<rparr>)) = (serving_it i)\<lparr>b_work_to_do := False\<rparr>"
  by code_simp+

definition claimed :: "pyval \<Rightarrow> run" where
  "claimed i = waiting\<lparr>r_input_json := i, r_claimed_by := Some ''6b'', r_cancel_notify := Some demo_connection\<rparr>"

lemma accepting_facts:
  fixes i defines "r \<equiv> sweep_answer 7 demo_ref 0 demo_connection False [] False (Answered True) ((serving_it i)\<lparr>b_work_to_do := False\<rparr>)"
  shows "fst r = Walking [] True" "b_tasks (snd r) = [PipelineTask 0 ()]" "b_runs (snd r) = [(''r1'', 0)]"
    "b_objs (snd r) = [(claimed i)\<lparr>r_in_queue := [Claim]\<rparr>]"
  unfolding r_def by code_simp+

lemma chain_brokers:
  "w_broker offered_run = (serving_it (r_input_json (run_at launched 0)))\<lparr>b_work_to_do := False\<rparr>"
  "w_broker online = serving_it (r_input_json (run_at launched 0))"
  unfolding offered_run_def online_broker launched_broker
  by (simp_all add: serving_facts flip: serving_it_def)

lemma accepted_facts:
  "b_tasks (w_broker accepted_run) = [PipelineTask 0 ()]" "b_runs (w_broker accepted_run) = [(''r1'', 0)]"
  "\<exists>i. b_objs (w_broker accepted_run) = [(claimed i)\<lparr>r_in_queue := [Claim]\<rparr>]"
  by (auto simp: accepted_run_def chain_brokers accepting_facts)

lemma reach_sweep:
  assumes "reach (sys_init D) (sys_step D I L timeout) (w, sw)" "sweep_turn timeout (w_broker w, sw) (b, sw')"
  shows "reach (sys_init D) (sys_step D I L timeout) (w\<lparr>w_broker := b\<rparr>, sw')"
  by (rule reach.reach_step [OF assms(1)]) (rule y_sweep [OF assms(2)])

lemma reach_accepted: "reach (sys_init door_deployment) (sys_step door_deployment None L 30) (accepted_run, Walking [] True)"
proof -
  let ?R = "reach (sys_init door_deployment) (sys_step door_deployment None L 30)"
  let ?i = "r_input_json (run_at launched 0)"
  have "?R (online, Sleeping)"
    unfolding online_def by (rule reach.reach_step [OF reach_launched y_attach [OF prod.collapse [symmetric]]])
  from reach_sweep [OF this, of "(serving_it ?i)\<lparr>b_work_to_do := False\<rparr>" "Walking [demo_ref] False"]
  have "?R (online\<lparr>w_broker := (serving_it ?i)\<lparr>b_work_to_do := False\<rparr>\<rparr>, Walking [demo_ref] False)"
    by (simp add: chain_brokers t_begin [OF serving_facts(1)])
  note walking = this
  have "sweep_turn 30 ((serving_it ?i)\<lparr>b_work_to_do := False\<rparr>, Walking [demo_ref] False)
      ((serving_it ?i)\<lparr>b_work_to_do := False\<rparr>, Awaiting demo_ref 0 demo_connection False [] False)"
    using serving_facts(2,3) [of ?i] by (intro t_walk) (simp add: prod_eq_iff)
  with reach_sweep [OF walking] have "?R (online\<lparr>w_broker := (serving_it ?i)\<lparr>b_work_to_do := False\<rparr>\<rparr>,
      Awaiting demo_ref 0 demo_connection False [] False)" by fastforce
  moreover have "offered_run = online\<lparr>w_broker := (serving_it ?i)\<lparr>b_work_to_do := False\<rparr>\<rparr>"
    using chain_brokers(1) by (simp add: offered_run_def)
  ultimately have offer: "?R (offered_run, Awaiting demo_ref 0 demo_connection False [] False)" by simp
  have "sweep_turn 30 (w_broker offered_run, Awaiting demo_ref 0 demo_connection False [] False)
      (snd (sweep_answer 7 demo_ref 0 demo_connection False [] False (Answered True) (w_broker offered_run)), Walking [] True)"
    using accepting_facts(1) [of ?i] by (intro t_answer [where now = 7 and ans = "Answered True"]) (simp add: chain_brokers prod_eq_iff)
  from reach_sweep [OF offer this] show ?thesis unfolding accepted_run_def .
qed

lemma reach_reported: "reach (sys_init door_deployment) (sys_step door_deployment None lenient 30) (reported, Walking [] True)"
proof -
  have "PipelineTask 0 () \<in> set (b_tasks (w_broker accepted_run))" "r_in_queue (run_at accepted_run 0) \<noteq> []"
    using accepted_facts by (auto simp: run_at_def obj_def)
  from reach.reach_step [OF reach.reach_step [OF reach_accepted y_pipeline [OF this]] y_report]
  show ?thesis unfolding reported_def .
qed

lemma reported_facts:
  "r_in_queue (run_at reported 0) = [RelayEvent custom_event]" "0 < length (b_objs (w_broker reported))"
  "r_out_queue (run_at reported 0) = []"
proof -
  let ?w = "core_pipeline_turn lenient 8 (\<lambda>_. ''m'') 0 accepted_run"
  obtain i where o: "b_objs (w_broker accepted_run) = [(claimed i)\<lparr>r_in_queue := [Claim]\<rparr>]" using accepted_facts(3) ..
  then have q: "r_in_queue (run_at accepted_run 0) = [Claim]" by (simp add: run_at_def obj_def)
  have b: "w_broker ?w = upd_obj 0 (\<lambda>r. r\<lparr>r_in_queue := []\<rparr>) (w_broker accepted_run)"
    by (simp add: core_pipeline_turn_def with_forget_listener_def Let_def pipeline_turn_def q handle_claim_def
        pipeline_stops_def broker_upd_run)
  have c: "get_run_snapshot (w_broker ?w) ''r1'' = Some (snapshot ((claimed i)\<lparr>r_in_queue := []\<rparr>))"
    "b_objs (w_broker ?w) = [(claimed i)\<lparr>r_in_queue := []\<rparr>]" "dget (b_runs (w_broker ?w)) ''r1'' = Some 0"
    by (simp_all add: b get_run_snapshot_def accepted_facts(2) o obj_def upd_obj_def)
  have "w_broker reported = put_cmd 0 (RelayEvent custom_event) (w_broker ?w)"
    by (simp add: reported_def report_event_def c(1) snapshot_def claimed_def broker_push_def push_def c(3) split: option.split)
  then have "b_objs (w_broker reported) = [(claimed i)\<lparr>r_in_queue := [RelayEvent custom_event]\<rparr>]"
    by (simp add: put_cmd_def upd_obj_def c(2))
  then show "r_in_queue (run_at reported 0) = [RelayEvent custom_event]" "0 < length (b_objs (w_broker reported))"
    "r_out_queue (run_at reported 0) = []"
    by (simp_all add: run_at_def obj_def claimed_def waiting_def)
qed

lemma valid_events_are_stored_and_shown_witness:
  "r_out_queue (run_at (core_pipeline_turn lenient 10 (\<lambda>_. ''m'') 0 reported) 0) = [OutEvent custom_event]"
  using valid_events_are_stored_and_shown [OF reach_reported reported_facts(2,1) _ _ refl, where now = 10 and fresh = "\<lambda>_. ''m''"]
    reported_facts(3)
  by (simp add: custom_event_def lenient_def)

end
