(* ===== verification/FacadeReads.thy ===== *)
theory FacadeReads
  imports SystemClaims
begin

text \<open>
  What the facade reads: the methods of \<open>Funduq\<close> (\<open>funduq/core.py\<close>) that open a session and ask
  \<open>repo.py\<close> and the subscription to a run; and that in every state the program reaches these readings
  fit together.
\<close>

subsection \<open>Readings\<close>

definition core_get_agent :: "core \<Rightarrow> agent_ref \<Rightarrow> agent_row option" where
  "core_get_agent w agent = get_agent (w_db w) agent"

definition core_resolve_agent :: "core \<Rightarrow> string \<Rightarrow> string \<Rightarrow> agent_row option" where
  "core_resolve_agent w provider name = resolve_agent (w_db w) provider name"

definition core_get_thread :: "core \<Rightarrow> string \<Rightarrow> thread_row option" where
  "core_get_thread w thread_id = get_thread (w_db w) thread_id"

definition core_get_thread_messages :: "core \<Rightarrow> string \<Rightarrow> pyval list" where
  "core_get_thread_messages w thread_id = get_thread_messages (w_db w) thread_id"

definition core_get_thread_snapshot :: "core \<Rightarrow> string \<Rightarrow> thread_snapshot option" where
  "core_get_thread_snapshot w thread_id = get_thread_snapshot (w_db w) thread_id"

definition core_get_run :: "core \<Rightarrow> string \<Rightarrow> run_row option" where
  "core_get_run w run_id = get_run (w_db w) run_id"

definition core_get_run_events :: "core \<Rightarrow> string \<Rightarrow> int \<Rightarrow> pyval list" where
  "core_get_run_events w run_id since_seq = get_run_events (w_db w) run_id since_seq"

definition core_active_runs :: "core \<Rightarrow> string list" where
  "core_active_runs w = active_run_ids (w_broker w)"

text \<open>\<open>A2AAdapter._display_name\<close>\<close>

definition display_name :: "core \<Rightarrow> agent_ref \<Rightarrow> string" where
  "display_name w agent = (case core_get_agent w agent of None \<Rightarrow> ar_name agent | Some r \<Rightarrow> ag_name r)"

text \<open>\<open>RunBroker.subscribe\<close>: what a subscriber gets of the items placed so far and whether it has ended.\<close>

definition no_events :: "pyval list \<times> bool" where
  "no_events = ([], True)"

definition subscribe :: "'h broker \<Rightarrow> string \<Rightarrow> pyval list \<times> bool" where
  "subscribe b run_id =
     (case dget (b_runs b) run_id of None \<Rightarrow> no_events | Some a \<Rightarrow> drain_run (r_out_queue (obj b a)))"

subsection \<open>The readings fit together\<close>

lemma get_agent_known: "a \<in> agent_keys d \<Longrightarrow> \<exists>r. get_agent d a = Some r \<and> ag_name r = ar_name a"
proof -
  assume "a \<in> agent_keys d"
  then have "find (\<lambda>r. agent_key r = a) (db_agents d) \<noteq> None"
    by (auto simp: agent_keys_def find_None_iff)
  then obtain r where r: "find (\<lambda>r. agent_key r = a) (db_agents d) = Some r" by auto
  then have "agent_key r = a" by (auto simp: find_Some_iff)
  with r show ?thesis by (auto simp: get_agent_def agent_key_def)
qed

lemma get_thread_known: "t \<in> thread_ids d \<Longrightarrow> \<exists>r. get_thread d t = Some r \<and> th_thread_id r = t"
proof -
  assume "t \<in> thread_ids d"
  then have "find (\<lambda>r. th_thread_id r = t) (db_threads d) \<noteq> None"
    by (auto simp: thread_ids_def find_None_iff)
  then obtain r where r: "find (\<lambda>r. th_thread_id r = t) (db_threads d) = Some r" by auto
  then have "th_thread_id r = t" by (auto simp: find_Some_iff)
  with r show ?thesis by (auto simp: get_thread_def)
qed

text \<open>Whatever a caller finds among the active runs it can read: in every state the program reaches, an
  active run is on record with its thread and its agent, the thread's snapshot shows the thread's
  messages, the broker's own view of the run names the same thread, the name shown for the agent
  is the one it is registered under, and a run that is not active has an empty stream that ends at
  once.\<close>

lemma active_runs_can_be_read:
  assumes "reach (sys_init D) (sys_step D I L timeout) (w, sw)"
  shows "if i \<in> set (core_active_runs w)
    then (\<exists>row t a. core_get_run w i = Some row \<and> core_get_thread w (rn_thread_id row) = Some t
      \<and> core_get_agent w (run_agent row) = Some a
      \<and> map_option ts_messages (core_get_thread_snapshot w (rn_thread_id row))
          = Some (core_get_thread_messages w (rn_thread_id row))
      \<and> map_option rs_thread_id (get_run_snapshot (w_broker w) i) = Some (th_thread_id t)
      \<and> display_name w (run_agent row) = ag_name a \<and> ag_name a = rn_agent_name row)
    else subscribe (w_broker w) i = ([], True)"
proof (cases "i \<in> set (core_active_runs w)")
  case True
  have ok: "sys_ok timeout (w, sw)" by (rule system.holds [OF assms])
  then have "broker_wf (w_broker w, sw)" unfolding sys_ok_def fst_conv snd_conv by (blast intro: wf.holds [OF reach_move])
  then have wf: "core_wf (w_broker w)" by (simp add: broker_wf_def)
  from True obtain x where x: "dget (b_runs (w_broker w)) i = Some x"
    using dget_None_iff [of "b_runs (w_broker w)" i] by (auto simp: core_active_runs_def active_run_ids_def)
  note facts = core_wf_facts(3,4) [OF wf x]
  have "(r_run_id (run_at w x), r_thread_id (run_at w x)) \<in> set (idents (w_broker w))"
    using nth_mem [OF facts(1)] by (auto simp: idents_def ident_def run_at_def obj_def)
  with ok have "(i, r_thread_id (run_at w x)) \<in> run_keys (w_db w)" and db: "db_ok (w_db w)"
    using facts(2) by (auto simp: sys_ok_def run_at_def)
  from key_row [OF this] obtain row where row: "get_run (w_db w) i = Some row" "rn_thread_id row = r_thread_id (run_at w x)"
    by blast
  then have "run_agent row \<in> agent_keys (w_db w)" "rn_thread_id row \<in> thread_ids (w_db w)"
    using db get_run_mem [OF row(1)] by (auto simp: db_ok_def runs_ok_def)
  with get_agent_known get_thread_known obtain a t where "get_agent (w_db w) (run_agent row) = Some a"
      "ag_name a = ar_name (run_agent row)" "get_thread (w_db w) (rn_thread_id row) = Some t" "th_thread_id t = rn_thread_id row"
    by blast
  with True row x show ?thesis
    by (simp add: core_get_run_def core_get_agent_def core_get_thread_def core_get_thread_snapshot_def
        core_get_thread_messages_def get_thread_snapshot_def display_name_def get_run_snapshot_def snapshot_def run_at_def
        run_agent_def)
next
  case False
  then have "dget (b_runs (w_broker w)) i = None"
    by (simp add: core_active_runs_def active_run_ids_def dget_None_iff)
  with False show ?thesis by (simp add: subscribe_def no_events_def)
qed

end
