(* ===== verification/AwaitWindows.thy ===== *)
theory AwaitWindows
  imports SystemClaims
begin

text \<open>
  Where a method is more than one step.  A handler and a method of the facade are one step in the other
  theories; between two of its database calls the event loop may run anything else.  Here the three
  methods for which that matters are cut at the await where it does: the settling of a finished stream
  after the status is committed, the deletion of an agent between its look and its delete, and an attach
  between its look and the write of the live table.  Run back to back the pieces are the methods.
\<close>

subsection \<open>Settling in two pieces\<close>

text \<open>\<open>_handle_finish\<close> up to and including \<open>mark_run_status\<close>, which commits, and the rest of it.\<close>

definition finish_mark :: "int \<Rightarrow> address \<Rightarrow> 'z world_scheme \<Rightarrow> 'z world_scheme \<times> bool result" where
  "finish_mark now a w =
     (let (s, metadata) = final_status (run_at w a) in mark_status now (r_run_id (run_at w a)) s metadata w)"

definition finish_rest ::
    "int \<Rightarrow> (nat \<Rightarrow> string) \<Rightarrow> address \<Rightarrow> status \<Rightarrow> bool \<Rightarrow> bool \<Rightarrow> 'z world_scheme \<Rightarrow> 'z world_scheme" where
  "finish_rest now fresh a s failed settled w =
     (case (if settled \<and> s \<in> {Completed, InputRequired} then store_reply now fresh (run_at w a) (w_db w)
            else Inr (w_db w)) of
        Inl _ \<Rightarrow> w
      | Inr d \<Rightarrow>
          if \<not> failed then w\<lparr>w_db := d\<rparr>
          else (case store_event now a unfinished_error (next_seq a (w\<lparr>w_db := d\<rparr>)) of
                  Inl _ \<Rightarrow> next_seq a w
                | Inr w' \<Rightarrow> relay_out a unfinished_error w'))"

text \<open>The rest of the pipeline's last turn: the stream ends and the run is forgotten, by its id.\<close>

definition settle_rest ::
    "int \<Rightarrow> (nat \<Rightarrow> string) \<Rightarrow> address \<Rightarrow> status \<Rightarrow> bool \<Rightarrow> bool \<Rightarrow> core \<Rightarrow> core" where
  "settle_rest now fresh a s failed settled =
     with_forget_listener (\<lambda>w. end_task a (PipelineTask a ()) (finish_rest now fresh a s failed settled w))"

lemma finish_in_two:
  "handle_finish now fresh a w =
     (case finish_mark now a w of
        (w', Inl _) \<Rightarrow> w'
      | (w', Inr settled) \<Rightarrow>
          finish_rest now fresh a (fst (final_status (run_at w a)))
            (fst (final_status (run_at w a)) = Failed \<and> \<not> r_saw_run_error (run_at w a)) settled w')"
proof -
  obtain s md where s: "final_status (run_at w a) = (s, md)" by fastforce
  obtain w' r where m: "mark_status now (r_run_id (run_at w a)) s md w = (w', r)" by fastforce
  have same: "run_at w' a = run_at w a" using broker_mark_status' [OF m] by (simp add: run_at_def)
  show ?thesis
  proof (cases r)
    case (Inl e)
    then show ?thesis unfolding handle_finish_def finish_mark_def Let_def s by (simp add: m)
  next
    case (Inr settled)
    show ?thesis unfolding handle_finish_def finish_mark_def finish_rest_def Let_def s
      by (simp only: m Inr prod.case sum.case fst_conv same)
  qed
qed

lemma settling_in_two:
  assumes "r_in_queue (run_at w a) = FinishStream # cmds"
    "finish_mark now a (upd_run a (\<lambda>r. r\<lparr>r_in_queue := cmds\<rparr>) w) = (w', Inr settled)"
    "final_status (run_at w a) = (s, md)" "a < length (b_objs (w_broker w))"
  shows "core_pipeline_turn L now fresh a w =
    settle_rest now fresh a s (s = Failed \<and> \<not> r_saw_run_error (run_at w a)) settled w'"
proof -
  have r: "run_at (upd_run a (\<lambda>r. r\<lparr>r_in_queue := cmds\<rparr>) w) a = (run_at w a)\<lparr>r_in_queue := cmds\<rparr>"
    using assms(4) by (simp add: run_at_upd)
  have fs: "final_status (r\<lparr>r_in_queue := cmds\<rparr>) = final_status r" for r
    by (simp add: final_status_def)
  have "w_broker w' = w_broker (upd_run a (\<lambda>r. r\<lparr>r_in_queue := cmds\<rparr>) w)"
    using assms(2) by (auto simp: finish_mark_def split: prod.splits dest: broker_mark_status')
  then have "b_forget_calls (w_broker w') = b_forget_calls (w_broker w)" by (simp add: upd_run_def)
  moreover have "pipeline_turn L now fresh a w = end_task a (PipelineTask a ())
      (finish_rest now fresh a s (s = Failed \<and> \<not> r_saw_run_error (run_at w a)) settled w')"
    using assms(1-3) by (simp add: pipeline_turn_def finish_in_two r fs pipeline_stops_def)
  ultimately show ?thesis
    by (simp add: core_pipeline_turn_def settle_rest_def with_forget_listener_def)
qed

subsection \<open>What the window loses\<close>

text \<open>The rest of a paused round writes no status and leaves the broker alone.\<close>

lemma finish_rest_paused:
  "\<exists>d. finish_rest now fresh a InputRequired False True w = w\<lparr>w_db := d\<rparr> \<and> db_runs d = db_runs (w_db w)"
proof (cases "store_reply now fresh (run_at w a) (w_db w)")
  case (Inl e)
  then have "finish_rest now fresh a InputRequired False True w = w\<lparr>w_db := w_db w\<rparr>" by (simp add: finish_rest_def)
  then show ?thesis by blast
next
  case (Inr d)
  then have "finish_rest now fresh a InputRequired False True w = w\<lparr>w_db := d\<rparr>" by (simp add: finish_rest_def)
  with runs_store_reply [OF Inr] show ?thesis by blast
qed

lemma live_request:
  assumes "door D ck ids agent req w = (w', Inr (Some (i, t, True)))" "db_ok (w_db w)"
  shows "\<exists>row. get_run (w_db w') i = Some row \<and> rn_status row = Queued"
    "\<exists>inp prot seq v a. w_broker v = w_broker w \<and> core_enqueue_run (ck_now ck) i agent t inp prot seq v = Inr (a, w')"
proof -
  define r where "r = (Inr (Some (i, t, True)) :: (string \<times> string \<times> bool) option result)"
  from door_is_a_step [OF assms(1)] have st: "door_step D ck ids agent req w w' r" by (simp add: r_def)
  then have "(\<exists>row. get_run (w_db w') i = Some row \<and> rn_status row = Queued) \<and>
    (\<exists>inp prot seq v a. w_broker v = w_broker w \<and> core_enqueue_run (ck_now ck) i agent t inp prot seq v = Inr (a, w'))"
  proof (cases rule: door_step.cases)
    case (live am view u d j ms d' stored inherited k input proto seq chain a)
    let ?v = "bind_opted (am_kyok am) chain j (w\<lparr>w_db := d', c_relay := k\<rparr>)"
    have id: "j = i" "u = t" using live(1) by (simp_all add: r_def)
    have "db_ok view" using live(2) assms(2) by (simp add: let_in_def)
    from round_run [OF live(3) this] obtain row where row: "get_run d i = Some row" "rn_status row = Queued"
      by (auto simp: id)
    have "get_run (w_db w') i = get_run d i"
      using enqueued_run(2) [OF live(9)] get_run_same [OF runs_append_messages [OF live(4)]] by simp
    with row have "\<exists>row. get_run (w_db w') i = Some row \<and> rn_status row = Queued" by simp
    moreover have "w_broker ?v = w_broker w" by simp
    with live(9) have "\<exists>inp prot seq v a. w_broker v = w_broker w \<and>
        core_enqueue_run (ck_now ck) i agent t inp prot seq v = Inr (a, w')"
      unfolding id by (intro exI conjI)
    ultimately show ?thesis by (rule conjI)
  qed (simp_all add: r_def)
  then show "\<exists>row. get_run (w_db w') i = Some row \<and> rn_status row = Queued"
    "\<exists>inp prot seq v a. w_broker v = w_broker w \<and> core_enqueue_run (ck_now ck) i agent t inp prot seq v = Inr (a, w')"
    by blast+
qed

text \<open>C29: A resume that falls between the commit of a paused round's status and the end of its pipeline is
  lost. The door reopens the run and queues it anew; then the old pipeline ends and forgets the run by
  its id, which is now the new round's: the record keeps it queued, but the broker does not know it, no
  task is there to end it, its subscribers have been told nothing and will not be, it cannot be
  cancelled or reported for, its KYOK grant is gone, and the place the old round took is not given
  back.\<close>

theorem a_resume_while_settling_is_lost:
  assumes "finish_mark now a w = (w1, Inr True)" "a < length (b_objs (w_broker w))" "db_ok (w_db w)"
    and "\<forall>x \<in> set (b_tasks (w_broker w)). task_address x < length (b_objs (w_broker w))"
    and "i = r_run_id (run_at w a)" "door D ck ids agent req w1 = (w2, Inr (Some (i, t, True)))"
    and "w3 = settle_rest later fresh a InputRequired False True w2" "a' = length (b_objs (w_broker w))"
  shows "map_option rn_status (get_run (w_db w3) i) = Some Queued \<and> get_run_snapshot (w_broker w3) i = None
    \<and> r_run_id (run_at w3 a') = i \<and> (\<forall>x \<in> set (b_tasks (w_broker w3)). task_address x \<noteq> a')
    \<and> r_out_queue (run_at w3 a') = [] \<and> cancel_run i w3 = (False, w3) \<and> report_event n i e key w3 = (False, w3)
    \<and> binding_for (c_relay w3) i = None \<and> b_capacity (w_broker w3) = b_capacity (w_broker w)"
proof -
  have b1: "w_broker w1 = w_broker w" and ok1: "db_ok (w_db w1)"
  proof -
    from assms(1) obtain s md where m: "mark_status now (r_run_id (run_at w a)) s md w = (w1, Inr True)"
      by (auto simp: finish_mark_def split: prod.splits)
    show "w_broker w1 = w_broker w" by (rule broker_mark_status' [OF m])
    show "db_ok (w_db w1)" using grows_mark_status [OF m] assms(3) by (simp add: record_grows_def)
  qed
  note live = live_request [OF assms(6) ok1]
  from live(2) obtain inp prot seq v x where v: "w_broker v = w_broker w"
      "core_enqueue_run (ck_now ck) i agent t inp prot seq v = Inr (x, w2)"
    by (auto simp: b1)
  then obtain r where r: "b_objs (w_broker w2) = b_objs (w_broker w) @ [r]" "r_run_id r = i" "r_out_queue r = []"
      "r_claimed_by r = None" "b_runs (w_broker w2) = dset i a' (b_runs (w_broker w))"
      "b_tasks (w_broker w2) = b_tasks (w_broker w)" "b_capacity (w_broker w2) = b_capacity (w_broker w)"
    by (auto simp: core_enqueue_run_def enqueue_run_def Let_def assms(8) split: if_splits)
  obtain d where d: "finish_rest later fresh a InputRequired False True w2 = w2\<lparr>w_db := d\<rparr>" "db_runs d = db_runs (w_db w2)"
    using finish_rest_paused by blast
  define b where "b = (w_broker w2)\<lparr>b_tasks := remove1 (PipelineTask a ()) (b_tasks (w_broker w2))\<rparr>"
  have old: "r_run_id (obj b a) = i" using assms(2,5) r(1) by (simp add: b_def obj_def run_at_def nth_append)
  have new: "obj (end_run a b) a' = r"
    using assms(2,8) r(1) by (simp add: end_run_def put_out_def obj_upd_obj b_def) (simp add: obj_def upd_obj_def)
  let ?w = "w2\<lparr>w_db := d, w_broker := end_run a b\<rparr>"
  have w3: "w3 = with_forget_listener (\<lambda>_. ?w) w2"
    by (simp add: assms(7) settle_rest_def with_forget_listener_def end_task_def d(1) b_def)
  then have same: "w_broker w3 = end_run a b" "w_db w3 = d" by (simp_all add: with_forget_listener_def)
  have gone: "get_run_snapshot (w_broker w3) i = None" "binding_for (c_relay w3) i = None"
    using ended_world [of ?w w2 i w3] end_run_frame [of a b] w3 by (simp_all add: old) (simp_all add: b_def)
  then have "dget (b_runs (w_broker w3)) i = None" by (simp add: get_run_snapshot_def)
  then have "cancel_run i w3 = (False, w3)" "report_event n i e key w3 = (False, w3)"
    using gone(1) by (simp_all add: cancel_run_def request_cancel_def with_broker_def report_event_def)
  moreover have "map_option rn_status (get_run (w_db w3) i) = Some Queued"
    using live(1) get_run_same [OF d(2), of i] by (auto simp: same)
  moreover have "b_tasks (w_broker w3) = remove1 (PipelineTask a ()) (b_tasks (w_broker w))"
    by (simp add: same end_run_def) (simp add: b_def r(6))
  then have "set (b_tasks (w_broker w3)) \<subseteq> set (b_tasks (w_broker w))" by (simp add: set_remove1_subset)
  then have "\<forall>x \<in> set (b_tasks (w_broker w3)). task_address x \<noteq> a'"
    using assms(4,8) by (metis less_irrefl subsetD)
  moreover have "b_capacity (w_broker w3) = b_capacity (w_broker w)"
  proof -
    have "dget (b_runs b) i = Some a'" "r_claimed_by (obj (put_out a EndOfStream b) a') = None"
      using assms(2,8) r by (simp_all add: put_out_def obj_upd_obj b_def) (simp add: obj_def)
    then show ?thesis by (simp add: same end_run_def old forget_def Let_def) (simp add: b_def r(7))
  qed
  ultimately show ?thesis using gone new r(2,3) by (simp add: run_at_def same)
qed

text \<open>A run whose stream ended with an interrupt, and the answer to it.\<close>

definition window_run :: db where
  "window_run = (case create_run 3 ''r1'' ''t1'' demo_ref ''ag-ui'' (PDict []) PNone None asked_thread of
     Inr (d, r) \<Rightarrow> d | Inl e \<Rightarrow> empty_db)"

definition window_db :: db where
  "window_db = (case mark_run_status 4 ''r1'' Running PNone window_run of Inr (d, ok) \<Rightarrow> d | Inl e \<Rightarrow> empty_db)"

definition settling :: core where
  "settling = \<lparr>w_db = window_db,
     w_broker = (serving_it PNone)\<lparr>
       b_objs := [(claimed PNone)\<lparr>r_saw_run_finished := True,
                    r_pause_payload := Some (PDict [(''interrupts'', PList [PNone])])\<rparr>],
       b_pending := [(demo_ref, [])], b_tasks := [PipelineTask 0 ()]\<rparr>,
     w_changes = [], w_cancels = [], c_relay = new_kyok_relay, c_challenges = [], c_started = True, c_sweeping = True\<rparr>"

definition resume_request :: door_request where
  "resume_request = AguiRequest \<lparr>bo_thread_id = ''t1'', bo_parent_run_id = PNone, bo_state = PNone, bo_messages = [],
     bo_tools = [], bo_context = [], bo_forwarded_props = PNone, bo_resume = [PDict []], bo_metadata = PDict [],
     bo_dump = PDict []\<rparr>"

lemma window_writes:
  "create_run 3 ''r1'' ''t1'' demo_ref ''ag-ui'' (PDict []) PNone None asked_thread = Inr (window_run, ''r1'')"
  "mark_run_status 4 ''r1'' Running PNone window_run = Inr (window_db, True)"
  by code_simp+

lemma settling_facts:
  "snd (finish_mark 6 0 settling) = Inr True"
  "snd (door door_deployment door_clock door_ids demo_ref resume_request (fst (finish_mark 6 0 settling))) =
     Inr (Some (''r1'', ''t1'', True))"
  by code_simp+

lemma a_resume_while_settling_is_lost_witness:
  "\<exists>w2. door door_deployment door_clock door_ids demo_ref resume_request (fst (finish_mark 6 0 settling)) =
       (w2, Inr (Some (''r1'', ''t1'', True))) \<and>
     get_run_snapshot (w_broker (settle_rest 7 (\<lambda>_. ''m'') 0 InputRequired False True w2)) ''r1'' = None \<and>
     map_option rn_status (get_run (w_db (settle_rest 7 (\<lambda>_. ''m'') 0 InputRequired False True w2)) ''r1'') = Some Queued"
proof -
  obtain w1 where m: "finish_mark 6 0 settling = (w1, Inr True)" using settling_facts(1) by (metis prod.collapse)
  obtain w2 where d: "door door_deployment door_clock door_ids demo_ref resume_request w1 = (w2, Inr (Some (''r1'', ''t1'', True)))"
    using settling_facts(2) m by (metis fst_conv prod.collapse)
  have "db_ok window_run"
    using window_writes(1) ok_ensure_thread [OF asked_writes(1) door_db_ok(1)] by (auto simp: create_run_def dest: ok_insert_run)
  then have ok: "db_ok (w_db settling)" using ok_mark [OF window_writes(2)] by (simp add: settling_def)
  have b: "0 < length (b_objs (w_broker settling))" "r_run_id (run_at settling 0) = ''r1''"
      "\<forall>x \<in> set (b_tasks (w_broker settling)). task_address x < length (b_objs (w_broker settling))"
    by (simp_all add: settling_def run_at_def obj_def claimed_def waiting_def)
  from a_resume_while_settling_is_lost [OF m b(1) ok b(3) b(2) [symmetric] d refl refl, where later = 7 and fresh = "\<lambda>_. ''m''"]
  show ?thesis using d m by auto
qed

subsection \<open>Deleting in two pieces\<close>

text \<open>\<open>delete_agent\<close> up to its last count, and the delete with its commit.\<close>

definition delete_look ::
    "('k, 'z) crypto_scheme \<Rightarrow> rat \<Rightarrow> string \<Rightarrow> string \<Rightarrow> string \<Rightarrow> int \<Rightarrow> core \<Rightarrow> unit result" where
  "delete_look C now public_key name signature timestamp w =
     (let agent = \<lparr>ar_provider_key = public_key, ar_name = name\<rparr> in
      if \<not> is_timestamp_fresh now timestamp then Inl InvalidRegistration
      else if \<not> verify_signature C public_key signature (agent_deletion_signing_payload name timestamp)
      then Inl InvalidRegistration
      else if get_agent (w_db w) agent = None then Inl AgentNotFound
      else if serving (w_broker w) agent \<noteq> None then Inl (AgentInUse ''connected'')
      else if count_runs_for_agent (w_db w) agent (Some ACTIVE_RUN_STATUSES) \<noteq> 0
      then Inl (AgentInUse ''active_run'')
      else if count_threads_for_agent (w_db w) agent \<noteq> 0 \<or> count_runs_for_agent (w_db w) agent None \<noteq> 0
      then Inl (AgentInUse ''has_history'')
      else Inr ())"

definition delete_commit :: "agent_ref \<Rightarrow> core \<Rightarrow> core result" where
  "delete_commit agent w =
     bindR (delete_agent agent (w_db w)) (\<lambda>(d, _). Inr (notify_change RosterChanged (w\<lparr>w_db := d\<rparr>)))"

lemma deleting_in_two:
  "core_delete_agent C now key name sig ts w =
     bindR (delete_look C now key name sig ts w) (\<lambda>_. delete_commit \<lparr>ar_provider_key = key, ar_name = name\<rparr> w)"
  by (simp add: core_delete_agent_def delete_look_def delete_commit_def Let_def)

subsection \<open>Attaching in two pieces\<close>

text \<open>\<open>attach\<close> up to the end of its first session, and the rest; the challenge and nonce are carried over.\<close>

definition attach_look ::
    "('k, 'z) crypto_scheme \<Rightarrow> clock \<Rightarrow> 'k identity option \<Rightarrow> ('r, 'c) roster \<Rightarrow> connect_face \<Rightarrow> 'c
       \<Rightarrow> string list \<Rightarrow> string \<times> string \<Rightarrow> string option \<times> string option \<times> string option \<Rightarrow> core
       \<Rightarrow> core \<times> (string \<times> string) result" where
  "attach_look C ck I R face connection names minted presented w =
     (if names = [] then (w, Inl ValueError)
      else
        case connect_proof (ck_time ck) I face names minted presented w of
          (w1, Inl e) \<Rightarrow> (w1, Inl e)
        | (w1, Inr (Some challenge, provider_nonce, Some proof)) \<Rightarrow>
            (let key = ro_public_key R connection;
                 nonce = opt_text provider_nonce;
                 (live, w2) = consume_connect_challenge (ck_time ck) challenge w1
             in if \<not> live then (w2, Inl InvalidRegistration)
                else if \<not> verify_signature C key proof
                          (provider_connect_signing_payload (own_key I) challenge nonce names)
                then (w2, Inl InvalidRegistration)
                else if \<not> set names \<subseteq> ro_registered_names R (w_db w2) key
                then (w2, Inl (ro_not_found R))
                else (w2, Inr (challenge, nonce)))
        | (w1, Inr _) \<Rightarrow> (w1, Inl InvalidRegistration))"

definition attach_commit ::
    "('k, 'z) crypto_scheme \<Rightarrow> clock \<Rightarrow> 'k identity option \<Rightarrow> ('r, 'c) roster \<Rightarrow> connect_face \<Rightarrow> 'c
       \<Rightarrow> string list \<Rightarrow> string \<times> string \<Rightarrow> core \<Rightarrow> core \<times> string option result" where
  "attach_commit C ck I R face connection names looked w =
     (let (challenge, nonce) = looked;
          key = ro_public_key R connection;
          answer = map_option (\<lambda>i. sign C i (funduq_connect_signing_payload challenge nonce)) I
      in case (case cf_confirm_connect face of
                 None \<Rightarrow> Inr () | Some confirm \<Rightarrow> confirm challenge nonce answer) of
           Inl e \<Rightarrow> (w, Inl e)
         | Inr _ \<Rightarrow>
             let w1 = ro_write_live R (dupdate [] (map (\<lambda>n. (ro_ref R key n, connection)) names)) w;
                 w2 = w1\<lparr>w_db := ro_touch R (ck_now ck) key names (w_db w1)\<rparr>
             in (notify_change (ro_changed R) w2, Inr answer))"

lemma attaching_in_two:
  "roster_attach C ck I R face connection names minted presented w =
     (case attach_look C ck I R face connection names minted presented w of
        (w', Inl e) \<Rightarrow> (w', Inl e)
      | (w', Inr looked) \<Rightarrow> attach_commit C ck I R face connection names looked w')"
proof (cases "names = []")
  case True
  then show ?thesis by (simp add: roster_attach_def attach_look_def)
next
  case False
  obtain w1 out where cp: "connect_proof (ck_time ck) I face names minted presented w = (w1, out)" by fastforce
  show ?thesis
    unfolding roster_attach_def attach_look_def attach_commit_def if_not_P [OF False] cp
    by (cases out) (auto simp: Let_def split: option.split prod.split)
qed

subsection \<open>What deleting and attaching act on\<close>

lemma delete_look_ok:
  "delete_look C now key name sig ts w = Inr () \<longleftrightarrow>
     is_timestamp_fresh now ts \<and> verify_signature C key sig (agent_deletion_signing_payload name ts) \<and>
     get_agent (w_db w) \<lparr>ar_provider_key = key, ar_name = name\<rparr> \<noteq> None \<and>
     serving (w_broker w) \<lparr>ar_provider_key = key, ar_name = name\<rparr> = None \<and>
     (\<forall>r \<in> set (db_threads (w_db w)). thread_agent r \<noteq> \<lparr>ar_provider_key = key, ar_name = name\<rparr>) \<and>
     (\<forall>r \<in> set (db_runs (w_db w)). run_agent r \<noteq> \<lparr>ar_provider_key = key, ar_name = name\<rparr>)"
proof -
  have "count_runs_for_agent d a None = 0 \<Longrightarrow> count_runs_for_agent d a (Some ss) = 0" for d a ss
    by (auto simp: count_runs_for_agent_def row_count_def filter_empty_conv)
  then show ?thesis unfolding delete_look_def Let_def by (auto simp flip: count_zero_iff)
qed

text \<open>C30: A deletion looks and then deletes, and between the two anything may have happened. It looks for a
  fresh deletion signed by the agent's own key, of a registered agent that nobody serves and no thread
  or run refers to. In whatever consistent state the delete then finds the record, it is the record that
  decides: where a thread or a run has come to refer to the agent the database refuses, and the
  record is as it was; otherwise the agent goes and nothing else: no thread, no run, no other agent is
  touched and the record stays consistent. Only the roster is not looked at again.\<close>

theorem deletions_act_on_an_old_look:
  assumes "agent = \<lparr>ar_provider_key = key, ar_name = name\<rparr>" "db_ok (w_db v)"
  shows "core_delete_agent C now key name sig ts w = bindR (delete_look C now key name sig ts w) (\<lambda>_. delete_commit agent w)
    \<and> (delete_look C now key name sig ts w = Inr () \<longleftrightarrow> is_timestamp_fresh now ts
        \<and> verify_signature C key sig (agent_deletion_signing_payload name ts)
        \<and> get_agent (w_db w) agent \<noteq> None \<and> serving (w_broker w) agent = None
        \<and> (\<forall>r \<in> set (db_threads (w_db w)). thread_agent r \<noteq> agent) \<and> (\<forall>r \<in> set (db_runs (w_db w)). run_agent r \<noteq> agent))
    \<and> (case delete_commit agent v of
          Inl e \<Rightarrow> e = IntegrityError \<and> ((\<exists>r \<in> set (db_threads (w_db v)). thread_agent r = agent) \<or>
                                          (\<exists>r \<in> set (db_runs (w_db v)). run_agent r = agent))
        | Inr v' \<Rightarrow> db_ok (w_db v') \<and> db_threads (w_db v') = db_threads (w_db v) \<and> db_runs (w_db v') = db_runs (w_db v)
            \<and> (\<forall>r \<in> set (db_threads (w_db v)). thread_agent r \<noteq> agent) \<and> (\<forall>r \<in> set (db_runs (w_db v)). run_agent r \<noteq> agent)
            \<and> (\<forall>a. get_agent (w_db v') a = (if a = agent then None else get_agent (w_db v) a))
            \<and> w_broker v' = w_broker v)"
proof (intro conjI)
  show "case delete_commit agent v of
          Inl e \<Rightarrow> e = IntegrityError \<and> ((\<exists>r \<in> set (db_threads (w_db v)). thread_agent r = agent) \<or>
                                          (\<exists>r \<in> set (db_runs (w_db v)). run_agent r = agent))
        | Inr v' \<Rightarrow> db_ok (w_db v') \<and> db_threads (w_db v') = db_threads (w_db v) \<and> db_runs (w_db v') = db_runs (w_db v)
            \<and> (\<forall>r \<in> set (db_threads (w_db v)). thread_agent r \<noteq> agent) \<and> (\<forall>r \<in> set (db_runs (w_db v)). run_agent r \<noteq> agent)
            \<and> (\<forall>a. get_agent (w_db v') a = (if a = agent then None else get_agent (w_db v) a))
            \<and> w_broker v' = w_broker v"
  proof (cases "delete_agent agent (w_db v)")
    case (Inl e)
    then show ?thesis using count_zero_iff [of "w_db v" agent]
      by (auto simp: delete_commit_def delete_agent_def split: if_splits)
  next
    case (Inr x)
    obtain d gone where x: "x = (d, gone)" by (cases x)
    note dd = Inr [unfolded x]
    have fresh: "(\<forall>r \<in> set (db_threads (w_db v)). thread_agent r \<noteq> agent) \<and> (\<forall>r \<in> set (db_runs (w_db v)). run_agent r \<noteq> agent)"
    proof (cases "agent \<in> agent_keys (w_db v)")
      case True
      with dd show ?thesis using count_zero_iff [of "w_db v" agent] by (auto simp: delete_agent_def split: if_splits)
    next
      case False
      with assms(2) show ?thesis by (auto simp: db_ok_def threads_ok_def runs_ok_def)
    qed
    have "get_agent d a = (if a = agent then None else get_agent (w_db v) a)" for a
      using dd by (auto simp: delete_agent_def get_agent_def get_agent_filter split: if_splits)
    moreover have "db_threads d = db_threads (w_db v)" "db_runs d = db_runs (w_db v)"
      using dd by (auto simp: delete_agent_def split: if_splits)
    moreover have "db_ok d" by (rule ok_delete_agent [OF dd assms(2)])
    ultimately show ?thesis using fresh dd by (simp add: delete_commit_def)
  qed
qed (simp_all add: deleting_in_two delete_look_ok assms(1))

text \<open>An attach that looked before the deletion and writes after it serves an agent that is not there.\<close>

lemma an_attach_over_a_deletion_serves_a_ghost:
  assumes "attach_look C ck I agent_roster face c names minted presented w = (w1, Inr looked)"
    and "core_delete_agent C now (c_public_key c) name sig ts w1 = Inr w2" "name \<in> set names"
    and "attach_commit C ck I agent_roster face c names looked w2 = (w3, Inr answer)" "db_ok (w_db w1)"
    and "agent = \<lparr>ar_provider_key = c_public_key c, ar_name = name\<rparr>"
  shows "serving (w_broker w3) agent = Some c \<and> get_agent (w_db w3) agent = None
    \<and> fst (door D ck' ids agent req w3) = w3"
proof -
  have gone: "get_agent (w_db w2) agent = None"
    using deleting_an_agent_is_safe [OF assms(5), where C = C and now = now and key = "c_public_key c" and name = name
        and sig = sig and ts = ts] assms(2,6) by simp
  let ?m = "dupdate [] (map (\<lambda>n. (\<lparr>ar_provider_key = c_public_key c, ar_name = n\<rparr>, c)) names)"
  have w3: "w_broker w3 = register_provider ?m (w_broker w2)"
      "w_db w3 = touch_agents (ck_now ck) (c_public_key c) names (w_db w2)"
    using assms(4) by (auto simp: attach_commit_def agent_roster_def Let_def split: prod.splits sum.splits)
  have "serving (w_broker w3) agent = Some c"
    using assms(3,6) agents.mapping_get [of "c_public_key c" c names agent]
    by (simp add: w3 register_provider_def serving_def lr_serving_attach agent_roster_def)
  moreover have "get_agent (w_db w3) agent = None"
  proof -
    have "map agent_key (update_where p (\<lambda>r. r\<lparr>ag_last_seen_at := x\<rparr>) rows) = map agent_key rows" for p x rows
      by (rule map_update_where) (simp add: agent_key_def)
    then have "agent_key ` set (db_agents (w_db w3)) = agent_key ` set (db_agents (w_db w2))"
      by (simp add: w3(2) touch_agents_def flip: set_map)
    then show ?thesis using gone unfolding get_agent_def find_None_iff by (metis (full_types) imageE imageI)
  qed
  moreover have "fst (door D ck' ids agent req w3) = w3"
  proof -
    obtain v r where d: "door D ck' ids agent req w3 = (v, r)" by fastforce
    from door_is_a_step [OF d] have "v = w3"
      by (cases rule: door_step.cases) (use calculation in \<open>simp_all add: let_in_def\<close>)
    with d show ?thesis by simp
  qed
  ultimately show ?thesis by blast
qed

definition looked_at :: "core \<times> (string \<times> string) result" where
  "looked_at = attach_look door_crypto door_clock None agent_roster
     (link_face door_crypto (in_process_link (identity_of door_crypto ''k'') None None)) demo_connection [''a'']
     (''c'', ''n'') (None, None, None) booted"

definition deleted_meanwhile :: core where
  "deleted_meanwhile = (case core_delete_agent door_crypto 1000 ''6b'' ''a''
     (sign door_crypto (identity_of door_crypto ''k'') (agent_deletion_signing_payload ''a'' 1000)) 1000 (fst looked_at) of
       Inr w \<Rightarrow> w | Inl e \<Rightarrow> booted)"

lemma ghost_demo:
  "snd looked_at = Inr (''c'', ''n'')" "get_agent (w_db booted) demo_ref \<noteq> None" "get_agent (w_db deleted_meanwhile) demo_ref = None"
  "snd (attach_commit door_crypto door_clock None agent_roster
     (link_face door_crypto (in_process_link (identity_of door_crypto ''k'') None None)) demo_connection [''a'']
     (''c'', ''n'') deleted_meanwhile) = Inr None"
  by code_simp+

lemma deletions_act_on_an_old_look_witness:
  "\<exists>v'. delete_commit demo_ref booted = Inr v' \<and> get_agent (w_db v') demo_ref = None \<and> db_ok (w_db v')"
proof -
  have "case delete_commit demo_ref booted of Inr _ \<Rightarrow> True | Inl _ \<Rightarrow> False" by code_simp
  then obtain v where v: "delete_commit demo_ref booted = Inr v" by (auto split: sum.splits)
  have "db_ok (w_db booted)" using door_db_ok(1) by (simp add: booted_def)
  from deletions_act_on_an_old_look [OF _ this, where agent = demo_ref and key = "''6b''" and name = "''a''"
      and C = toy_crypto and now = 0 and sig = "[]" and ts = 0 and w = booted] v
  show ?thesis by (simp add: demo_ref_def)
qed

end
