(* ===== verification/Spec2Isabelle.thy ===== *)
theory Spec2Isabelle
  imports BrokerClaims ChainClaims EventClaims CoreClaims RunClaims SdkClaims MetadataClaims LinkClaims SerialClaims
    SdkKeys Changes MigrationEnv FacadeReads AwaitWindows
begin

section \<open>A verification library of AgentSouk's funduq\<close>

text \<open>
  funduq is a dispatcher for agents.  A caller asks for a run through one of two doors (AG-UI or A2A);
  a provider connects, proves its key and serves agents; the run broker queues a run for the provider
  that serves its agent, offers it, and follows it until it ends; what the provider reports is checked,
  logged and relayed to subscribers.  A run may be bound to a language model of the caller's choice
  ("KYOK"): a third door lets the running agent ask for completions under a token of that run.  Two
  SDKs are the other side of the link: one runs agents, one serves completions.  Paths below are under
  \<open>src/funduq/funduq/\<close>, \<open>src/funduq-provider-sdk/funduq_provider_sdk/\<close> and
  \<open>src/funduq-llm-provider-sdk/funduq_llm_provider_sdk/\<close>.

  \<^bold>\<open>Foundations.\<close>  Prelude has dictionaries (association lists in insertion order), reachable states and
  the locales \<open>inductive_invariant\<close> and \<open>relative_invariant\<close> every invariant of a transition system is an
  interpretation of.  PyVal models JSON-shaped Python values and what the source does to them, Text the
  text operations (decimal numerals, \<open>int(x)\<close>, \<open>join\<close>, \<open>sorted\<close>), Errors the exceptions as one datatype: an
  operation that can raise returns \<open>Inl e\<close> or \<open>Inr x\<close>.

  \<^bold>\<open>Keys and signatures\<close> (\<open>identity.py\<close> of all three packages).  Payloads: the signed bytes and their
  independent twins in the SDKs, with the domains that keep them apart.  Signatures: keys, freshness,
  delegation certificates, resolutions; SignatureClaims: what is signed is accepted and what is accepted
  was signed, by whom and for what.  ActorChains and ChainClaims: chains of hops; a verified chain means
  its hops were signed in order for one audience, and the SDK's verifier is the same function.

  \<^bold>\<open>The record\<close> (\<open>schema.py\<close>, \<open>repo.py\<close>).  Schema has the tables and the constraints the database
  enforces, Repo every statement; RepoSteps is the record as a transition system whose reachable states
  satisfy all constraints; RepoClaims and RepoHistory: the status machine, append-only logs, thread
  ownership, the guarded reopen.  MetadataClaims: the metadata column holds dictionaries only.
  Migrations and MigrationClaims (\<open>alembic/versions\<close>, \<open>migrate.py\<close>): the revisions build the declared tables.
  MigrationEnv (\<open>alembic/env.py\<close>, \<open>db_schema.py\<close>, the engine of \<open>core.py\<close>): they build them in the database
  and the schema the program then connects to.

  \<^bold>\<open>The run broker\<close> (\<open>broker.py\<close>, \<open>live_roster.py\<close>).  LiveRosters has the table of live connections and
  the locale \<open>live_table\<close> with its laws, interpreted for the broker's roster and for the KYOK relay's.
  Broker has every operation over an explicit store of \<open>Run\<close> objects; the sweep is cut at its one wait for
  somebody else.  BrokerSteps is the transition system \<open>bstep\<close> of the interleavings asyncio allows;
  BrokerFrames, BrokerInv, BrokerMoves, BrokerSafety, BrokerCapacity, BrokerOwners and BrokerExpiry build
  its invariants from small moves; BrokerClaims states them: no run is lost, capacity is kept to, runs
  are held by their own provider, what expiry and the offer loop do.  BrokerTraces has executions that
  witness them, and the two by which a provider's place is lost.

  \<^bold>\<open>Handling a run\<close> (\<open>handlers.py\<close>, \<open>agui_reduce.py\<close>, \<open>pause.py\<close>, \<open>health.py\<close>, \<open>changes.py\<close>).  Events and
  EventClaims: the fold of events into messages against a reference.  Handlers: the five handlers and the
  tasks that call them, over a \<open>world\<close> of record and broker.  HandlerClaims: they refine \<open>bstep\<close>;
  RelayClaims: subscribers see what the log stores; SettleClaims: how streams settle their runs; Health
  and HealthClaims: the sweeps, and that they leave a verdict.  Changes: who hears of changes.

  \<^bold>\<open>The facade\<close> (\<open>core.py\<close>, \<open>agui.py\<close>, \<open>config.py\<close>).  Core: rosters and the key handshake; the abstract
  class \<open>_Roster\<close> is the record \<open>roster\<close>, its contract the locale \<open>roster_host\<close> of RosterLaws, interpreted for
  agents and for offerings; RosterClaims: only proven keys serve, proofs do not replay.  CoreRuns: the
  rest of the facade; CoreClaims and RunClaims: reports, deletion, restart, grants, starting runs, and
  that the thread tree, a \<open>partial_function\<close> because a recursion through the database need not end, always
  does on a reachable record.

  \<^bold>\<open>KYOK\<close> (\<open>kyok.py\<close>, \<open>protocols/kyok.py\<close>).  Kyok, KyokDoor, KyokClaims: tokens, the relay, the door.

  \<^bold>\<open>The doors\<close> (\<open>protocols/agui.py\<close>, \<open>protocols/a2a.py\<close>, \<open>protocols/a2a_translate.py\<close>, \<open>props.py\<close>).  Doors
  is the AG-UI door, A2ATranslate, A2ADoor and A2ATasks the A2A door.  DoorSteps is one abstract protocol,
  an inductive relation both doors implement; DoorClaims and MetadataClaims prove the doors' promises once
  over it, A2AClaims what a task shows of its run, DoorDemos has concrete requests.

  \<^bold>\<open>The SDKs.\<close>  SdkLinks: the in-process links and the translation of runs and completions
  (\<open>inprocess.py\<close>, \<open>link.py\<close>, \<open>provider.py\<close>); SdkRuntime and SdkClaims: the runtime as a transition system
  (\<open>runtime.py\<close>); SdkSerial and SerialClaims: \<open>serialize_per_thread\<close> over the standard library's lock;
  SdkKeys: the key file and the pass-throughs.  LinkSession and LinkClaims put the runtime, the link, the
  facade and a run's pipeline together: what an agent says is logged and shown, complete and in order.

  \<^bold>\<open>The whole.\<close>  SystemSteps has the program as one transition system \<open>sys_step\<close>: requests at both doors,
  every call of the facade, pipelines and one-shots with the real handlers, sweeps, starts and stops in
  any order, each the definition that models it.  A run is launched under an id of which the broker has
  nothing left (\<open>free_id\<close>).  RunIdents (what run objects are about) and RecordGrowth (no write loses a run
  or breaks a constraint) are what every step keeps; SystemClaims is the interpretation \<open>system\<close>: each
  execution is one of \<open>bstep\<close> over a consistent record, and every run object is about a run on record, so
  that no event or verdict is dropped because the record lost the run.  FacadeReads: what callers read
  fits together in these states.  AwaitWindows cuts three methods at the await between their look and
  their effect, proves that the pieces make up the method, and what can fall between them: a resume while
  its run still settles is lost (the case \<open>free_id\<close> leaves out), a deletion acts on an old look, an attach
  over a deletion serves an agent without a record.

  \<^bold>\<open>How the code is read.\<close>  asyncio switches tasks at an \<open>await\<close> only.  A method without one is one step.
  A handler, a facade call and a door's request await the database; each is one step here, so
  interleavings inside one of them are not covered, except where they matter and are cut out: the offer
  of the sweep, the three looks of the KYOK door, the runtime's two loops and tasks, the waits at the
  per-thread lock, and the three methods of AwaitWindows.
  Where an exception leaves a request, what was committed before it
  stays (\<open>view\<close> in Doors).  Timestamps are integers of microseconds and \<open>time.time()\<close> is a rational;
  clocks, fresh ids and random nonces are arguments.  Message texts of exceptions and logging are left
  out.

  \<^bold>\<open>What is a parameter.\<close>  Ed25519 and SHA-256 (\<open>crypto\<close>, with \<open>crypto_ok\<close>: signatures of a key verify under
  it), PyJWT (\<open>jwt_ok\<close>), SQLAlchemy's URLs (\<open>url_lib\<close>, \<open>url_ok\<close>), HMAC and JSON of the KYOK token (\<open>codec\<close>,
  \<open>codec_ok\<close>), the AG-UI package's event types and validators (\<open>agui_lib\<close>, \<open>validate\<close>, \<open>deployment\<close>), the agents' and models' own streams, and the
  order in which a Python set is walked.  No hypothesis says that forging is impossible: the claims are
  about which checks stand before which effects.  Every property with such a parameter has a witness
  with a concrete one.

  \<^bold>\<open>Fuel.\<close>  No definition takes fuel.  Loops are structural recursion or have a termination proof (the
  offer loop consumes its queue); the event loops are transition systems.

  \<^bold>\<open>Not modelled.\<close>  \<open>Funduq.spawn\<close> and the task bookkeeping around it; the loop that repeats the health
  sweep; abstract base classes and protocols without code; package \<open>__init__\<close> files; \<open>contract.py\<close> and
  \<open>__all__\<close> constants; the encoding of streams as server-sent events; the table of protobuf method names
  \<open>_method\<close> checks against at import; generation of keys and nonces; the command line of \<open>migrate.py\<close>;
  \<open>scripts/\<close>, which probe a running deployment.
\<close>

end
